(* ===== verification/Prelude.thy ===== *)
theory Prelude
  imports Main "HOL-Library.Word" "HOL-Library.Multiset"
begin

text \<open>
  Shared vocabulary of the development: Go's integers, errors, strings and slices as the
  component theories use them, and the generic lemmas on lists and maps that carry the
  component proofs.

  \<^item> A Go \<open>byte\<close> is an \<open>8 word\<close>; \<open>uint16\<close>, \<open>uint32\<close> and \<open>uint64\<close> are words of their width.
  \<^item> A Go \<open>int64\<close> (and \<open>int\<close>, \<open>time.Duration\<close> on the 64-bit targets the Makefile builds) is an
    \<open>int\<close> kept in range by \<open>i64\<close>, which writes the two's complement wrap-around out.
  \<^item> A Go string is a \<open>string\<close>, a list of bytes.
  \<^item> A Go \<open>error\<close> is a \<open>goerr\<close>: a sentinel declared with \<open>errors.New\<close>, an error made on the
    spot, or a wrapping of another error with \<open>%w\<close>.
\<close>

type_synonym byte = "8 word"
type_synonym ms = int \<comment> \<open>an int64 count of milliseconds since the epoch\<close>

named_theorems go_arith \<open>reading Go's machine arithmetic back as integer arithmetic\<close>
named_theorems go_err \<open>evaluation of errors.Is\<close>

subsection \<open>int64\<close>

definition i64 :: "int \<Rightarrow> int" where
  "i64 x = (x + 2 ^ 63) mod 2 ^ 64 - 2 ^ 63"

definition MaxInt64 :: int where
  "MaxInt64 = 2 ^ 63 - 1"

definition in_i64 :: "int \<Rightarrow> bool" where
  "in_i64 x \<longleftrightarrow> - (2 ^ 63) \<le> x \<and> x \<le> MaxInt64"

lemma i64_id [go_arith]: "in_i64 x \<Longrightarrow> i64 x = x"
  by (simp add: in_i64_def i64_def MaxInt64_def)

lemma i64_in_range: "in_i64 (i64 x)"
proof -
  have "0 \<le> (x + 2 ^ 63) mod 2 ^ 64" "(x + 2 ^ 63) mod 2 ^ 64 < 2 ^ 64"
    by simp_all
  then show ?thesis by (simp add: in_i64_def i64_def MaxInt64_def)
qed

lemma i64_idem [simp]: "i64 (i64 x) = i64 x"
  by (rule i64_id) (rule i64_in_range)

lemma i64_nonneg [go_arith]: "0 \<le> x \<Longrightarrow> x \<le> MaxInt64 \<Longrightarrow> i64 x = x"
  by (rule i64_id) (simp add: in_i64_def)

lemma i64_add_left [simp]: "i64 (i64 x + y) = i64 (x + y)"
proof -
  have "(i64 x + y + 2 ^ 63) mod 2 ^ 64 = ((x + 2 ^ 63) mod 2 ^ 64 + y) mod 2 ^ 64"
    by (simp add: i64_def)
  also have "\<dots> = (x + 2 ^ 63 + y) mod 2 ^ 64"
    by (rule mod_add_left_eq)
  also have "x + 2 ^ 63 + y = x + y + 2 ^ 63" by simp
  finally show ?thesis by (simp add: i64_def)
qed

subsection \<open>Errors\<close>

datatype goerr =
    Sentinel string        \<comment> \<open>a package-level \<open>var Err... = errors.New(...)\<close>\<close>
  | Fresh string           \<comment> \<open>an error value made where it is returned\<close>
  | Wrap string goerr      \<comment> \<open>\<open>fmt.Errorf("...: %w", err)\<close>\<close>

text \<open>\<open>errors.Is(err, target)\<close> for a sentinel target: the error or one it wraps.\<close>

fun errors_is :: "goerr \<Rightarrow> goerr \<Rightarrow> bool" where
  "errors_is (Wrap m e) t \<longleftrightarrow> Wrap m e = t \<or> errors_is e t"
| "errors_is e t \<longleftrightarrow> e = t"

declare errors_is.simps [go_err]

type_synonym 'a res = "goerr + 'a"

definition is_ok :: "'a res \<Rightarrow> bool" where
  "is_ok r \<longleftrightarrow> (case r of Inl _ \<Rightarrow> False | Inr _ \<Rightarrow> True)"

lemma is_ok_simps [simp]: "is_ok (Inr x)" "\<not> is_ok (Inl e)"
  by (simp_all add: is_ok_def)

lemma is_ok_iff: "is_ok r \<longleftrightarrow> (\<exists>x. r = Inr x)"
  by (cases r) simp_all

definition EOF :: goerr where "EOF = Sentinel ''EOF''"
definition ErrUnexpectedEOF :: goerr where "ErrUnexpectedEOF = Sentinel ''unexpected EOF''"

subsection \<open>Text\<close>

text \<open>\<open>%d\<close>, \<open>strings.HasPrefix\<close>, \<open>strings.TrimPrefix\<close> and \<open>strings.Split\<close> on one separator.\<close>

fun show_nat :: "nat \<Rightarrow> string" where
  "show_nat n = (if n < 10 then [char_of (48 + n)] else show_nat (n div 10) @ [char_of (48 + n mod 10)])"

declare show_nat.simps [simp del]

definition show_int :: "int \<Rightarrow> string" where
  "show_int i = (if i < 0 then ''-'' @ show_nat (nat (- i)) else show_nat (nat i))"

fun TrimPrefix :: "string \<Rightarrow> string \<Rightarrow> string" where
  "TrimPrefix s p = (if take (length p) s = p then drop (length p) s else s)"

fun Split :: "string \<Rightarrow> char \<Rightarrow> string list" where
  "Split [] sep = [[]]"
| "Split (c # cs) sep =
     (if c = sep then [] # Split cs sep
      else (case Split cs sep of [] \<Rightarrow> [[c]] | w # ws \<Rightarrow> (c # w) # ws))"

lemma Split_nonempty [simp]: "Split s sep \<noteq> []"
  by (induction s) (auto split: list.splits)

lemma Split_no_sep: "sep \<notin> set s \<Longrightarrow> Split s sep = [s]"
  by (induction s) auto

lemma Split_append_sep: "sep \<notin> set s \<Longrightarrow> Split (s @ sep # t) sep = s # Split t sep"
  by (induction s) auto

lemma Split_parts_no_sep: "w \<in> set (Split s sep) \<Longrightarrow> sep \<notin> set w"
  by (induction s arbitrary: w) (fastforce split: list.splits if_splits)+

subsection \<open>Lists\<close>

lemma drop_append_len_le: "n \<le> length xs \<Longrightarrow> drop n (xs @ ys) = drop n xs @ ys"
  by simp

lemma filter_key_distinct:
  "distinct (map f xs) \<Longrightarrow> x \<in> set xs \<Longrightarrow> filter (\<lambda>y. f y = f x) xs = [x]"
  by (induction xs) (auto simp: filter_empty_conv image_iff)

lemma distinct_map_key_inj:
  "distinct (map f xs) \<Longrightarrow> x \<in> set xs \<Longrightarrow> y \<in> set xs \<Longrightarrow> f x = f y \<Longrightarrow> x = y"
  by (auto simp: distinct_map inj_on_def)

lemma distinct_map_filter_key: "distinct (map f xs) \<Longrightarrow> distinct (map f (filter P xs))"
  by (induction xs) auto

text \<open>\<open>strings.TrimSpace\<close> on ASCII text.\<close>

definition is_space :: "char \<Rightarrow> bool" where
  "is_space c \<longleftrightarrow> (of_char c :: nat) \<in> {9, 10, 11, 12, 13, 32}"

definition TrimSpace :: "string \<Rightarrow> string" where
  "TrimSpace s = rev (dropWhile is_space (rev (dropWhile is_space s)))"

subsection \<open>Refinement maps\<close>

text \<open>
  A part of a system seen alone: a map of the states takes every step of the system that belongs to
  the part to the step of the part, and every other step to no step. What is reachable for the part
  is then all the system can do to it.
\<close>

locale refinement_map =
  fixes cstep :: "'l \<Rightarrow> 'c \<Rightarrow> 'c option" and astep :: "'m \<Rightarrow> 'a \<Rightarrow> 'a option"
    and abs :: "'c \<Rightarrow> 'a" and act :: "'l \<Rightarrow> 'm option"
    and aok :: "'m \<Rightarrow> 'a \<Rightarrow> bool" and areach :: "'a \<Rightarrow> bool"
  assumes map_step: "act l = Some m \<Longrightarrow> astep m (abs c) = map_option abs (cstep l c)"
    and stutter: "act l = None \<Longrightarrow> cstep l c = Some c' \<Longrightarrow> abs c' = abs c"
    and areach_step: "areach a \<Longrightarrow> aok m a \<Longrightarrow> astep m a = Some a' \<Longrightarrow> areach a'"
begin

lemma reach_step:
  assumes "areach (abs c)" and "\<And>m. act l = Some m \<Longrightarrow> aok m (abs c)" and "cstep l c = Some c'"
  shows "areach (abs c')"
proof (cases "act l")
  case None
  then show ?thesis using assms(1) stutter [OF None assms(3)] by simp
next
  case (Some m)
  then have "astep m (abs c) = Some (abs c')" using map_step [OF Some, of c] assms(3) by simp
  then show ?thesis using areach_step assms(1,2) Some by blast
qed

lemma step_defined: "act l = Some m \<Longrightarrow> astep m (abs c) \<noteq> None \<Longrightarrow> cstep l c \<noteq> None"
  by (simp add: map_step)

end

subsection \<open>Schedules\<close>

text \<open>
  A system whose actions are total: a schedule is a list of actions, and what every action keeps
  holds after every schedule.
\<close>

locale interleaving =
  fixes exec :: "'l \<Rightarrow> 's \<Rightarrow> 's" and inv :: "'s \<Rightarrow> bool"
  assumes keeps: "inv s \<Longrightarrow> inv (exec l s)"
begin

lemma run: "inv s \<Longrightarrow> inv (fold exec ls s)"
  by (induction ls arbitrary: s) (simp_all add: keeps)

end

text \<open>The calls under way are a list; going on with one takes it out.\<close>

definition drop_nth :: "nat \<Rightarrow> 'a list \<Rightarrow> 'a list" where
  "drop_nth k xs = take k xs @ drop (Suc k) xs"

lemma drop_nth_simps [simp]:
  "drop_nth 0 (x # xs) = xs" "drop_nth (Suc k) (x # xs) = x # drop_nth k xs" "drop_nth k [] = []"
  "drop_nth (numeral n) (x # xs) = x # drop_nth (pred_numeral n) xs"
  by (simp_all add: drop_nth_def numeral_eq_Suc)

lemma in_drop_nth: "x \<in> set (drop_nth k xs) \<Longrightarrow> x \<in> set xs"
  by (auto simp: drop_nth_def dest: in_set_takeD in_set_dropD)

lemma mset_drop_nth: "k < length xs \<Longrightarrow> mset xs = add_mset (xs ! k) (mset (drop_nth k xs))"
proof -
  assume "k < length xs"
  then have "mset xs = mset (take k xs @ xs ! k # drop (Suc k) xs)" by (simp flip: id_take_nth_drop)
  then show ?thesis by (simp add: drop_nth_def)
qed

end
