(* ===== verification/Frame.thy ===== *)
theory Frame
  imports Prelude
begin

unbundle bit_operations_syntax

text \<open>
  The ORP wire format, \<open>lib/orp/frame.go\<close>, \<open>lib/orp/codec.go\<close> and \<open>lib/orp/version.go\<close>:
  the 8-byte header, \<open>MarshalBinary\<close>, \<open>ParseFrame\<close> over an \<open>io.Reader\<close>, and the protobuf
  wrappers. The protobuf library is a pair of parameters (\<open>proto.Marshal\<close>, \<open>proto.Unmarshal\<close>).
  The lemmas show that encoding and parsing are inverse on every frame the encoder accepts,
  that parsing does not depend on how the transport cuts the byte stream into reads, and
  what each error of the parser means.
\<close>

subsection \<open>Constants\<close>

definition HeaderSize :: nat where "HeaderSize = 8"

definition MaxPayload :: nat where "MaxPayload = 2 ^ 24"

definition Version1 :: "8 word" where "Version1 = 1"

definition CurrentVersion :: "8 word" where "CurrentVersion = Version1"

definition maxType :: "16 word" where "maxType = 0x07FF"

definition maxVersion :: "8 word" where "maxVersion = 0x07"

text \<open>The frame types of the protocol, in the order the source lists them.\<close>

datatype frame_type =
    FrameTypeHello | FrameTypeHelloAck | FrameTypeRegister | FrameTypeRegisterAck
  | FrameTypeResolve | FrameTypeResolveResp | FrameTypeOpenStream | FrameTypeIncomingStream
  | FrameTypeStreamAccept | FrameTypeStreamReject | FrameTypePing | FrameTypePong
  | FrameTypePolicyUpdate | FrameTypeMetricReport | FrameTypeGoaway
  | FrameTypeStreamInit | FrameTypeStreamData | FrameTypeStreamFin | FrameTypeStreamReset
  | FrameTypeStreamCheckpoint | FrameTypeStreamResume
  | FrameTypeObservedAddrQuery | FrameTypeObservedAddrResp | FrameTypeCandidateOffer
  | FrameTypeCandidateAnswer | FrameTypeMigrateToP2P | FrameTypeMigrateToRelay
  | FrameTypeForwardStream | FrameTypeAllocGranted | FrameTypeStreamReady

fun frame_code :: "frame_type \<Rightarrow> 16 word" where
  "frame_code FrameTypeHello = 0x001"
| "frame_code FrameTypeHelloAck = 0x002"
| "frame_code FrameTypeRegister = 0x003"
| "frame_code FrameTypeRegisterAck = 0x004"
| "frame_code FrameTypeResolve = 0x005"
| "frame_code FrameTypeResolveResp = 0x006"
| "frame_code FrameTypeOpenStream = 0x010"
| "frame_code FrameTypeIncomingStream = 0x011"
| "frame_code FrameTypeStreamAccept = 0x012"
| "frame_code FrameTypeStreamReject = 0x013"
| "frame_code FrameTypePing = 0x020"
| "frame_code FrameTypePong = 0x021"
| "frame_code FrameTypePolicyUpdate = 0x030"
| "frame_code FrameTypeMetricReport = 0x040"
| "frame_code FrameTypeGoaway = 0x0FF"
| "frame_code FrameTypeStreamInit = 0x100"
| "frame_code FrameTypeStreamData = 0x101"
| "frame_code FrameTypeStreamFin = 0x102"
| "frame_code FrameTypeStreamReset = 0x103"
| "frame_code FrameTypeStreamCheckpoint = 0x110"
| "frame_code FrameTypeStreamResume = 0x111"
| "frame_code FrameTypeObservedAddrQuery = 0x120"
| "frame_code FrameTypeObservedAddrResp = 0x121"
| "frame_code FrameTypeCandidateOffer = 0x122"
| "frame_code FrameTypeCandidateAnswer = 0x123"
| "frame_code FrameTypeMigrateToP2P = 0x124"
| "frame_code FrameTypeMigrateToRelay = 0x125"
| "frame_code FrameTypeForwardStream = 0x140"
| "frame_code FrameTypeAllocGranted = 0x151"
| "frame_code FrameTypeStreamReady = 0x152"

definition ErrInvalidVersion :: goerr where
  "ErrInvalidVersion = Sentinel ''orp: invalid version''"
definition ErrInvalidType :: goerr where
  "ErrInvalidType = Sentinel ''orp: invalid frame type''"
definition ErrPayloadTooLarge :: goerr where
  "ErrPayloadTooLarge = Sentinel ''orp: payload exceeds MaxPayload''"
definition ErrTypeMismatch :: goerr where
  "ErrTypeMismatch = Sentinel ''orp: frame type mismatch''"

lemmas frame_errs = ErrInvalidVersion_def ErrInvalidType_def ErrPayloadTooLarge_def
  ErrTypeMismatch_def EOF_def ErrUnexpectedEOF_def

subsection \<open>Big-endian integers (\<open>encoding/binary\<close>)\<close>

definition PutUint16 :: "16 word \<Rightarrow> byte list" where
  "PutUint16 v = [ucast (drop_bit 8 v), ucast v]"

definition PutUint32 :: "32 word \<Rightarrow> byte list" where
  "PutUint32 v = [ucast (drop_bit 24 v), ucast (drop_bit 16 v), ucast (drop_bit 8 v), ucast v]"

fun Uint16 :: "byte list \<Rightarrow> 16 word" where
  "Uint16 (a # b # _) = ucast b OR push_bit 8 (ucast a)"
| "Uint16 _ = 0"

fun Uint32 :: "byte list \<Rightarrow> 32 word" where
  "Uint32 (a # b # c # d # _) =
     ucast d OR push_bit 8 (ucast c) OR push_bit 16 (ucast b) OR push_bit 24 (ucast a)"
| "Uint32 _ = 0"

subsection \<open>Frames and their encoding\<close>

record frame =
  fr_version :: "8 word"
  fr_type :: "16 word"
  fr_flags :: "16 word"
  fr_payload :: "byte list"

definition header_word0 :: "8 word \<Rightarrow> 16 word \<Rightarrow> 16 word" where
  "header_word0 v t = push_bit 13 (ucast (v AND maxVersion)) OR (t AND maxType)"

definition MarshalBinary :: "frame \<Rightarrow> byte list res" where
  "MarshalBinary f =
     (if fr_version f > maxVersion then Inl ErrInvalidVersion
      else if fr_type f > maxType then Inl ErrInvalidType
      else if length (fr_payload f) > MaxPayload then Inl ErrPayloadTooLarge
      else Inr (PutUint16 (header_word0 (fr_version f) (fr_type f))
                @ PutUint16 (fr_flags f)
                @ PutUint32 (word_of_nat (length (fr_payload f)))
                @ fr_payload f))"

subsection \<open>Readers\<close>

text \<open>
  An \<open>io.Reader\<close> hands out its bytes in pieces the caller does not control: the pieces still
  to come and the error \<open>Read\<close> answers once they are gone (\<open>io.EOF\<close> or a transport error).
  \<open>Read\<close> into a buffer of \<open>k\<close> bytes returns at most one piece. \<open>io.ReadFull\<close> calls it until
  the buffer is full or it fails; a failure after some bytes turns \<open>io.EOF\<close> into
  \<open>io.ErrUnexpectedEOF\<close>. A full buffer drops the error.
\<close>

record reader =
  rd_pieces :: "byte list list"
  rd_err :: goerr

fun read_loop :: "byte list list \<Rightarrow> nat \<Rightarrow> byte list \<times> byte list list" where
  "read_loop ps 0 = ([], ps)"
| "read_loop [] (Suc k) = ([], [])"
| "read_loop (p # ps) (Suc k) =
     (if length p \<le> Suc k
      then (let (bs, ps') = read_loop ps (Suc k - length p) in (p @ bs, ps'))
      else (take (Suc k) p, drop (Suc k) p # ps))"

definition ReadFull :: "reader \<Rightarrow> nat \<Rightarrow> (byte list \<times> goerr option) \<times> reader" where
  "ReadFull r k =
     (let (bs, ps) = read_loop (rd_pieces r) k;
          err = (if length bs = k then None
                 else if bs \<noteq> [] \<and> rd_err r = EOF then Some ErrUnexpectedEOF
                 else Some (rd_err r))
      in ((bs, err), r\<lparr>rd_pieces := ps\<rparr>))"

subsection \<open>Parsing\<close>

definition ParseFrame :: "reader \<Rightarrow> frame res \<times> reader" where
  "ParseFrame r =
     (let ((hdr, err), r1) = ReadFull r HeaderSize in
      case err of
        Some e \<Rightarrow>
          if errors_is e ErrUnexpectedEOF \<or> (hdr = [] \<and> errors_is e EOF) then (Inl e, r1)
          else (Inl (Wrap ''orp: read header'' e), r1)
      | None \<Rightarrow>
          let word0 = Uint16 (take 2 hdr);
              flags = Uint16 (take 2 (drop 2 hdr));
              len = Uint32 (take 4 (drop 4 hdr));
              version = ucast (drop_bit 13 word0);
              typ = word0 AND maxType
          in if len > word_of_nat MaxPayload then (Inl ErrPayloadTooLarge, r1)
             else if len > 0 then
               (let ((payload, perr), r2) = ReadFull r1 (unat len) in
                case perr of
                  Some e \<Rightarrow> (Inl (Wrap ''orp: read payload'' e), r2)
                | None \<Rightarrow> (Inr \<lparr>fr_version = version, fr_type = typ, fr_flags = flags,
                                fr_payload = payload\<rparr>, r2))
             else (Inr \<lparr>fr_version = version, fr_type = typ, fr_flags = flags,
                        fr_payload = []\<rparr>, r1))"

definition IsSupportedVersion :: "8 word \<Rightarrow> bool" where
  "IsSupportedVersion v \<longleftrightarrow> v = Version1"

subsection \<open>Protobuf wrappers\<close>

definition MarshalProto ::
  "('m \<Rightarrow> byte list res) \<Rightarrow> 16 word \<Rightarrow> 'm \<Rightarrow> frame res" where
  "MarshalProto marshal typ msg =
     (case marshal msg of
        Inl e \<Rightarrow> Inl (Wrap ''orp: marshal'' e)
      | Inr payload \<Rightarrow> Inr \<lparr>fr_version = CurrentVersion, fr_type = typ, fr_flags = 0,
                            fr_payload = payload\<rparr>)"

definition UnmarshalProto ::
  "(byte list \<Rightarrow> 'm res) \<Rightarrow> frame \<Rightarrow> 16 word \<Rightarrow> 'm res" where
  "UnmarshalProto unmarshal f expectedType =
     (if expectedType \<noteq> 0 \<and> fr_type f \<noteq> expectedType then Inl (Wrap ''got, want'' ErrTypeMismatch)
      else case unmarshal (fr_payload f) of
             Inl e \<Rightarrow> Inl (Wrap ''orp: unmarshal'' e)
           | Inr m \<Rightarrow> Inr m)"

text \<open>
  \<open>WriteFrame\<close> over a writer given as the function that takes the bytes and answers the
  error of \<open>Write\<close>; the model returns the bytes handed to the writer, if any.
\<close>

definition WriteFrame ::
  "('m \<Rightarrow> byte list res) \<Rightarrow> (byte list \<Rightarrow> goerr option) \<Rightarrow> 16 word \<Rightarrow> 'm
     \<Rightarrow> goerr option \<times> byte list option" where
  "WriteFrame marshal put typ msg =
     (case MarshalProto marshal typ msg of
        Inl e \<Rightarrow> (Some e, None)
      | Inr f \<Rightarrow>
          (case MarshalBinary f of
             Inl e \<Rightarrow> (Some e, None)
           | Inr data \<Rightarrow> (put data, Some data)))"

subsection \<open>Header lemmas\<close>

lemma Uint16_PutUint16: "Uint16 (PutUint16 v) = v"
  by (auto simp: PutUint16_def bit_simps intro!: bit_word_eqI)

lemma Uint32_PutUint32: "Uint32 (PutUint32 v) = v"
proof (rule bit_word_eqI)
  fix n assume n: "n < LENGTH(32)"
  then consider "n < 8" | "8 \<le> n" "n < 16" | "16 \<le> n" "n < 24" | "24 \<le> n" "n < 32"
    by fastforce
  then show "bit (Uint32 (PutUint32 v)) n \<longleftrightarrow> bit v n"
    by cases (simp_all add: PutUint32_def bit_simps less_diff_conv2)
qed

lemma length_Put [simp]: "length (PutUint16 v) = 2" "length (PutUint32 w) = 4"
  by (simp_all add: PutUint16_def PutUint32_def)

lemma and_mask_id: "uint v < 2 ^ n \<Longrightarrow> v AND mask n = (v :: 'a::len word)"
  by (simp add: and_mask_bintr take_bit_int_eq_self)

lemma maxVersion_mask: "maxVersion = mask 3"
  by (simp add: maxVersion_def mask_eq_exp_minus_1)

lemma maxType_mask: "maxType = mask 11"
  by (simp add: maxType_def mask_eq_exp_minus_1)

lemma word0_version:
  assumes "v \<le> maxVersion"
  shows "ucast (drop_bit 13 (header_word0 v t)) = v"
proof (rule bit_word_eqI)
  fix n assume "n < LENGTH(8)"
  moreover from assms have "v AND mask 3 = v"
    by (intro and_mask_id) (simp add: maxVersion_def word_le_def)
  then have "bit v n \<longleftrightarrow> bit v n \<and> n < 3"
    by (metis bit_and_iff bit_mask_iff)
  ultimately show "bit (ucast (drop_bit 13 (header_word0 v t)) :: 8 word) n \<longleftrightarrow> bit v n"
    by (auto simp: header_word0_def maxVersion_mask maxType_mask bit_simps)
qed

lemma word0_type:
  assumes "t \<le> maxType"
  shows "header_word0 v t AND maxType = t"
proof (rule bit_word_eqI)
  fix n assume "n < LENGTH(16)"
  moreover from assms have "t AND mask 11 = t"
    by (intro and_mask_id) (simp add: maxType_def word_le_def)
  then have "bit t n \<longleftrightarrow> bit t n \<and> n < 11"
    by (metis bit_and_iff bit_mask_iff)
  ultimately show "bit (header_word0 v t AND maxType) n \<longleftrightarrow> bit t n"
    by (auto simp: header_word0_def maxVersion_mask maxType_mask bit_simps)
qed

subsection \<open>Reader lemmas\<close>

definition rd_bytes :: "reader \<Rightarrow> byte list" where
  "rd_bytes r = concat (rd_pieces r)"

definition full_err :: "goerr \<Rightarrow> byte list \<Rightarrow> goerr" where
  "full_err e got = (if got \<noteq> [] \<and> e = EOF then ErrUnexpectedEOF else e)"

lemma read_loop_bytes:
  "fst (read_loop ps k) = take k (concat ps) \<and> concat (snd (read_loop ps k)) = drop k (concat ps)"
  by (induction ps k rule: read_loop.induct) (auto simp: case_prod_beta)

lemma ReadFull_spec:
  obtains r' where "ReadFull r k =
      ((take k (rd_bytes r),
        if k \<le> length (rd_bytes r) then None else Some (full_err (rd_err r) (take k (rd_bytes r)))),
       r')"
    and "rd_bytes r' = drop k (rd_bytes r)" and "rd_err r' = rd_err r"
proof -
  obtain bs ps where l: "read_loop (rd_pieces r) k = (bs, ps)" by (cases "read_loop (rd_pieces r) k")
  then have "bs = take k (rd_bytes r)" "concat ps = drop k (rd_bytes r)"
    using read_loop_bytes [of "rd_pieces r" k] by (simp_all add: rd_bytes_def)
  then show thesis
    by (intro that [of "r\<lparr>rd_pieces := ps\<rparr>"])
       (auto simp: ReadFull_def l full_err_def rd_bytes_def min_def)
qed

subsection \<open>The parser against a reference on plain bytes\<close>

definition hdr_frame :: "byte list \<Rightarrow> byte list \<Rightarrow> frame" where
  "hdr_frame hdr payload =
     \<lparr>fr_version = ucast (drop_bit 13 (Uint16 (take 2 hdr))),
      fr_type = Uint16 (take 2 hdr) AND maxType,
      fr_flags = Uint16 (take 2 (drop 2 hdr)),
      fr_payload = payload\<rparr>"

definition hdr_len :: "byte list \<Rightarrow> nat" where
  "hdr_len hdr = unat (Uint32 (take 4 (drop 4 hdr)))"

definition parse_bytes :: "goerr \<Rightarrow> byte list \<Rightarrow> frame res \<times> byte list" where
  "parse_bytes e bs =
     (let hdr = take 8 bs; rest = drop 8 bs; n = hdr_len hdr in
      if length bs < 8 then
        (let e' = full_err e bs in
         (Inl (if errors_is e' ErrUnexpectedEOF \<or> bs = [] \<and> errors_is e' EOF then e'
               else Wrap ''orp: read header'' e'), []))
      else if n > MaxPayload then (Inl ErrPayloadTooLarge, rest)
      else if length rest < n then
        (Inl (Wrap ''orp: read payload'' (full_err e rest)), [])
      else (Inr (hdr_frame hdr (take n rest)), drop n rest))"

lemma MaxPayload_word: "Uint32 bs > word_of_nat MaxPayload \<longleftrightarrow> unat (Uint32 bs) > MaxPayload"
  by (simp add: MaxPayload_def word_less_nat_alt)

lemma ParseFrame_refines:
  "map_prod id rd_bytes (ParseFrame r) = parse_bytes (rd_err r) (rd_bytes r)"
proof -
  obtain r1 where h: "ReadFull r HeaderSize =
      ((take 8 (rd_bytes r),
        if 8 \<le> length (rd_bytes r) then None else Some (full_err (rd_err r) (take 8 (rd_bytes r)))),
       r1)"
    and b1: "rd_bytes r1 = drop 8 (rd_bytes r)" and e1: "rd_err r1 = rd_err r"
    unfolding HeaderSize_def by (rule ReadFull_spec)
  define n where "n = hdr_len (take 8 (rd_bytes r))"
  obtain r2 where p: "ReadFull r1 n =
      ((take n (rd_bytes r1),
        if n \<le> length (rd_bytes r1) then None else Some (full_err (rd_err r1) (take n (rd_bytes r1)))),
       r2)"
    and b2: "rd_bytes r2 = drop n (rd_bytes r1)" and e2: "rd_err r2 = rd_err r1"
    by (rule ReadFull_spec)
  show ?thesis
  proof (cases "length (rd_bytes r) < 8")
    case True
    then show ?thesis using h b1
      by (auto simp: ParseFrame_def parse_bytes_def Let_def)
  next
    case False
    then show ?thesis using h b1 e1 p b2 e2 n_def
      by (auto simp: ParseFrame_def parse_bytes_def Let_def MaxPayload_word hdr_frame_def hdr_len_def
          unat_gt_0 word_gt_0)
  qed
qed

lemma MarshalBinary_bytes:
  assumes "MarshalBinary f = Inr bs"
  shows "take 2 bs = PutUint16 (header_word0 (fr_version f) (fr_type f))"
    and "take 2 (drop 2 bs) = PutUint16 (fr_flags f)"
    and "take 4 (drop 4 bs) = PutUint32 (word_of_nat (length (fr_payload f)))"
    and "drop 8 bs = fr_payload f" and "length bs = 8 + length (fr_payload f)"
    and "length (fr_payload f) \<le> MaxPayload"
    and "fr_version f \<le> maxVersion" and "fr_type f \<le> maxType"
  using assms by (auto simp: MarshalBinary_def split: if_splits)

lemma MarshalBinary_hdr:
  assumes "MarshalBinary f = Inr bs"
  shows "hdr_len (take 8 bs) = length (fr_payload f)"
    and "hdr_frame (take 8 bs) (fr_payload f) = f"
proof -
  note b = MarshalBinary_bytes [OF assms]
  have t2: "take 2 (take 8 bs) = take 2 bs" by simp
  have t4: "take 2 (drop 2 (take 8 bs)) = take 2 (drop 2 bs)" by (simp add: drop_take)
  have t8: "take 4 (drop 4 (take 8 bs)) = take 4 (drop 4 bs)" by (simp add: drop_take)
  from b(6) have "unat (word_of_nat (length (fr_payload f)) :: 32 word) = length (fr_payload f)"
    by (simp add: MaxPayload_def unat_of_nat)
  then show "hdr_len (take 8 bs) = length (fr_payload f)"
    by (simp only: hdr_len_def t8 b(3) Uint32_PutUint32)
  show "hdr_frame (take 8 bs) (fr_payload f) = f"
    unfolding hdr_frame_def t2 t4 b(1,2) Uint16_PutUint16 word0_version [OF b(7)] word0_type [OF b(8)]
    by simp
qed

lemma parse_bytes_marshal:
  assumes "MarshalBinary f = Inr bs"
  shows "parse_bytes e (bs @ rest) = (Inr f, rest)"
proof -
  note b = MarshalBinary_bytes [OF assms] and h = MarshalBinary_hdr [OF assms]
  show ?thesis using b(6) by (simp add: parse_bytes_def Let_def b(4,5) h)
qed

text \<open>
  C5. Round trip: when \<open>MarshalBinary\<close> accepts a frame, \<open>ParseFrame\<close> on a reader whose bytes
  start with that encoding returns exactly the frame and leaves the reader at the byte after
  it, however the transport cuts the bytes into reads.
\<close>

theorem ParseFrame_MarshalBinary:
  assumes "MarshalBinary f = Inr bs" and "rd_bytes r = bs @ rest"
  shows "fst (ParseFrame r) = Inr f \<and> rd_bytes (snd (ParseFrame r)) = rest"
proof -
  have "map_prod id rd_bytes (ParseFrame r) = (Inr f, rest)"
    using assms by (simp add: ParseFrame_refines parse_bytes_marshal)
  then show ?thesis by (cases "ParseFrame r") simp
qed

definition ping_frame :: frame where
  "ping_frame = \<lparr>fr_version = CurrentVersion, fr_type = frame_code FrameTypePing, fr_flags = 3,
                 fr_payload = [10, 20]\<rparr>"

theorem ParseFrame_MarshalBinary_witness:
  "MarshalBinary ping_frame = Inr [0x20, 0x20, 0, 3, 0, 0, 0, 2, 10, 20] \<and>
   fst (ParseFrame \<lparr>rd_pieces = [[0x20], [0x20, 0, 3, 0], [], [0, 0, 2, 10], [20, 99]], rd_err = EOF\<rparr>)
     = Inr ping_frame"
proof -
  have m: "MarshalBinary ping_frame = Inr [0x20, 0x20, 0, 3, 0, 0, 0, 2, 10, 20]"
    by (simp add: MarshalBinary_def ping_frame_def CurrentVersion_def Version1_def maxVersion_def
        maxType_def MaxPayload_def PutUint16_def PutUint32_def header_word0_def)
  then show ?thesis
    using ParseFrame_MarshalBinary [OF m, of
      "\<lparr>rd_pieces = [[0x20], [0x20, 0, 3, 0], [], [0, 0, 2, 10], [20, 99]], rd_err = EOF\<rparr>" "[99]"]
    by (simp add: rd_bytes_def)
qed

text \<open>
  Fragmentation independence: what \<open>ParseFrame\<close> returns, and the bytes it leaves, depend
  only on the bytes of the stream and its final error, not on the sizes of the pieces in
  which \<open>Read\<close> hands them out.
\<close>

theorem ParseFrame_fragmentation:
  assumes "rd_bytes r = rd_bytes r'" and "rd_err r = rd_err r'"
  shows "fst (ParseFrame r) = fst (ParseFrame r') \<and>
         rd_bytes (snd (ParseFrame r)) = rd_bytes (snd (ParseFrame r'))"
proof -
  have "map_prod id rd_bytes (ParseFrame r) = map_prod id rd_bytes (ParseFrame r')"
    using assms by (simp add: ParseFrame_refines)
  then show ?thesis by (cases "ParseFrame r"; cases "ParseFrame r'") simp
qed

theorem ParseFrame_fragmentation_witness:
  "fst (ParseFrame \<lparr>rd_pieces = [[0x20, 0x20, 0, 3, 0, 0, 0, 1, 7]], rd_err = EOF\<rparr>) =
   fst (ParseFrame \<lparr>rd_pieces = [[0x20], [0x20, 0, 3], [0, 0, 0], [1], [], [7]], rd_err = EOF\<rparr>)"
  using ParseFrame_fragmentation
    [of "\<lparr>rd_pieces = [[0x20, 0x20, 0, 3, 0, 0, 0, 1, 7]], rd_err = EOF\<rparr>"
        "\<lparr>rd_pieces = [[0x20], [0x20, 0, 3], [0, 0, 0], [1], [], [7]], rd_err = EOF\<rparr>"]
  by (simp add: rd_bytes_def)

lemma ParseFrame_cases:
  "(fst (ParseFrame r), rd_bytes (snd (ParseFrame r))) = parse_bytes (rd_err r) (rd_bytes r)"
  using ParseFrame_refines [of r] by (cases "ParseFrame r") simp

lemma hdr_frame_valid:
  "fr_version (hdr_frame hdr p) \<le> maxVersion" "fr_type (hdr_frame hdr p) \<le> maxType"
proof -
  have "uint (drop_bit 13 (Uint16 (take 2 hdr))) < 8"
    using uint_bounded [of "Uint16 (take 2 hdr)"]
    by (simp add: drop_bit_eq_div uint_div)
  then show "fr_version (hdr_frame hdr p) \<le> maxVersion"
    by (simp add: hdr_frame_def maxVersion_def word_le_def unsigned_ucast_eq take_bit_int_eq_self)
  show "fr_type (hdr_frame hdr p) \<le> maxType"
    by (simp add: hdr_frame_def word_and_le1)
qed

text \<open>
  C20. Every frame \<open>ParseFrame\<close> returns is one \<open>MarshalBinary\<close> accepts: the version fits 3 bits,
  the type 11 bits, the payload \<open>MaxPayload\<close>; and the reader advanced by exactly the length
  of that encoding.
\<close>

theorem ParseFrame_reencodable:
  assumes "fst (ParseFrame r) = Inr f"
  shows "\<exists>bs. MarshalBinary f = Inr bs \<and>
              rd_bytes (snd (ParseFrame r)) = drop (length bs) (rd_bytes r)"
proof -
  let ?hdr = "take 8 (rd_bytes r)"
  from assms ParseFrame_cases [of r] have p: "parse_bytes (rd_err r) (rd_bytes r)
      = (Inr f, rd_bytes (snd (ParseFrame r)))" by simp
  then have f: "f = hdr_frame ?hdr (take (hdr_len ?hdr) (drop 8 (rd_bytes r)))"
    and l: "hdr_len ?hdr \<le> MaxPayload" "hdr_len ?hdr \<le> length (drop 8 (rd_bytes r))"
    and rest: "rd_bytes (snd (ParseFrame r)) = drop (hdr_len ?hdr) (drop 8 (rd_bytes r))"
    by (auto simp: parse_bytes_def Let_def split: if_splits)
  have "length (fr_payload f) = hdr_len ?hdr" using f l by (simp add: hdr_frame_def)
  moreover obtain bs where bs: "MarshalBinary f = Inr bs"
    using hdr_frame_valid [of ?hdr] f l \<open>length (fr_payload f) = _\<close>
    by (simp add: MarshalBinary_def not_less)
  ultimately have "length bs = 8 + hdr_len ?hdr" using MarshalBinary_bytes(5) by simp
  then show ?thesis using bs rest by (simp add: add.commute)
qed

theorem ParseFrame_reencodable_witness:
  "\<exists>bs. MarshalBinary ping_frame = Inr bs \<and>
     rd_bytes (snd (ParseFrame \<lparr>rd_pieces = [[0x38, 0x20, 0, 3, 0, 0, 0, 2, 10, 20, 5]], rd_err = EOF\<rparr>))
       = drop (length bs) [0x38, 0x20, 0, 3, 0, 0, 0, 2, 10, 20, 5]"
proof -
  let ?r = "\<lparr>rd_pieces = [[0x38, 0x20, 0, 3, 0, 0, 0, 2, 10, 20, 5]], rd_err = EOF\<rparr>"
  have "fst (parse_bytes EOF [0x38, 0x20, 0, 3, 0, 0, 0, 2, 10, 20, 5]) = Inr ping_frame"
    by (simp add: parse_bytes_def Let_def hdr_len_def hdr_frame_def ping_frame_def MaxPayload_def
        maxType_def CurrentVersion_def Version1_def)
  then have "fst (ParseFrame ?r) = Inr ping_frame"
    using ParseFrame_cases [of ?r] by (metis (no_types, lifting) concat.simps(1,2) append_Nil2 fst_conv
        rd_bytes_def reader.select_convs(1,2))
  from ParseFrame_reencodable [OF this] show ?thesis by (simp add: rd_bytes_def)
qed

text \<open>
  End of stream: on a stream that ends with \<open>io.EOF\<close>, \<open>ParseFrame\<close> answers a bare
  \<open>io.EOF\<close> exactly when no byte is left, \<open>io.ErrUnexpectedEOF\<close> exactly when the header is cut
  short, and it never stops at the end of input with a frame.
\<close>

theorem ParseFrame_eof:
  assumes "rd_err r = EOF"
  shows "(fst (ParseFrame r) = Inl EOF \<longleftrightarrow> rd_bytes r = []) \<and>
         (fst (ParseFrame r) = Inl ErrUnexpectedEOF \<longleftrightarrow>
            0 < length (rd_bytes r) \<and> length (rd_bytes r) < 8)"
  using ParseFrame_cases [of r] assms
  by (auto simp: parse_bytes_def Let_def full_err_def frame_errs split: if_splits)

theorem ParseFrame_eof_witness:
  "fst (ParseFrame \<lparr>rd_pieces = [[], [0x20, 0x20], [0]], rd_err = EOF\<rparr>) = Inl ErrUnexpectedEOF"
  using ParseFrame_eof [of "\<lparr>rd_pieces = [[], [0x20, 0x20], [0]], rd_err = EOF\<rparr>"]
  by (simp add: rd_bytes_def)

text \<open>
  A stream cut right after a header that announces a payload gives an error for which
  \<open>errors.Is(err, io.EOF)\<close> holds, although header bytes were read: callers that test for the
  end of the stream with \<open>errors.Is\<close> cannot tell this truncated frame from a clean end.
\<close>

theorem ParseFrame_truncated_payload_is_EOF:
  assumes "rd_err r = EOF" and "length (rd_bytes r) = 8"
    and "0 < hdr_len (rd_bytes r)" and "hdr_len (rd_bytes r) \<le> MaxPayload"
  shows "\<exists>e. fst (ParseFrame r) = Inl e \<and> errors_is e EOF \<and> e \<noteq> EOF"
  using ParseFrame_cases [of r] assms
  by (auto simp: parse_bytes_def Let_def full_err_def frame_errs go_err split: if_splits)

theorem ParseFrame_truncated_payload_is_EOF_witness:
  "\<exists>e. fst (ParseFrame \<lparr>rd_pieces = [[0x20, 0x20, 0, 3, 0, 0, 0, 2]], rd_err = EOF\<rparr>) = Inl e \<and>
       errors_is e EOF \<and> e \<noteq> EOF"
  by (rule ParseFrame_truncated_payload_is_EOF)
     (simp_all add: rd_bytes_def hdr_len_def MaxPayload_def)

text \<open>
  Bounds: whatever the peer sends, one call of \<open>ParseFrame\<close> allocates a payload of at most
  \<open>MaxPayload\<close> bytes and consumes at most \<open>HeaderSize + MaxPayload\<close> bytes; an announced length
  above the limit is refused after the header alone.
\<close>

theorem ParseFrame_bounds:
  "length (rd_bytes r) \<le> length (rd_bytes (snd (ParseFrame r))) + HeaderSize + MaxPayload \<and>
   (\<forall>f. fst (ParseFrame r) = Inr f \<longrightarrow> length (fr_payload f) \<le> MaxPayload) \<and>
   (8 \<le> length (rd_bytes r) \<and> MaxPayload < hdr_len (take 8 (rd_bytes r)) \<longrightarrow>
      fst (ParseFrame r) = Inl ErrPayloadTooLarge \<and>
      rd_bytes (snd (ParseFrame r)) = drop 8 (rd_bytes r))"
  using ParseFrame_cases [of r]
  by (auto simp: parse_bytes_def Let_def hdr_frame_def HeaderSize_def split: if_splits)

theorem ParseFrame_bounds_witness:
  "fst (ParseFrame \<lparr>rd_pieces = [[0x20, 0x20, 0, 0, 2, 0, 0, 0, 9]], rd_err = EOF\<rparr>) = Inl ErrPayloadTooLarge"
  using ParseFrame_bounds [of "\<lparr>rd_pieces = [[0x20, 0x20, 0, 0, 2, 0, 0, 0, 9]], rd_err = EOF\<rparr>"]
  by (simp add: rd_bytes_def hdr_len_def MaxPayload_def)

lemma frame_code_valid: "frame_code t \<le> maxType" "frame_code t \<noteq> 0"
  by (cases t; simp add: maxType_def)+

text \<open>
  A message that the protobuf library encodes within \<open>MaxPayload\<close> bytes and decodes again
  is always sent by \<open>WriteFrame\<close> under any of the protocol's frame types (the writer
  permitting), and \<open>ParseFrame\<close> followed by \<open>UnmarshalProto\<close> with that type gives the same
  message back, under a supported version, leaving what follows on the stream unread.
\<close>

theorem WriteFrame_roundtrip:
  assumes marshal: "marshal msg = Inr payload" and unmarshal: "unmarshal payload = Inr msg"
    and fits: "length payload \<le> MaxPayload"
    and put: "\<And>bs. put bs = None"
  shows "\<exists>data. WriteFrame marshal put (frame_code t) msg = (None, Some data) \<and>
           (\<forall>r rest. rd_bytes r = data @ rest \<longrightarrow>
              (\<exists>f. fst (ParseFrame r) = Inr f \<and> IsSupportedVersion (fr_version f) \<and>
                   UnmarshalProto unmarshal f (frame_code t) = Inr msg \<and>
                   rd_bytes (snd (ParseFrame r)) = rest))"
proof -
  let ?f = "\<lparr>fr_version = CurrentVersion, fr_type = frame_code t, fr_flags = 0, fr_payload = payload\<rparr>"
  have "CurrentVersion \<le> maxVersion"
    by (simp add: CurrentVersion_def Version1_def maxVersion_def)
  with fits frame_code_valid(1) [of t] obtain data where m: "MarshalBinary ?f = Inr data"
    by (simp add: MarshalBinary_def not_less)
  moreover have "WriteFrame marshal put (frame_code t) msg = (None, Some data)"
    using m marshal put by (simp add: WriteFrame_def MarshalProto_def)
  moreover have "fst (ParseFrame r) = Inr ?f \<and> rd_bytes (snd (ParseFrame r)) = rest"
    if "rd_bytes r = data @ rest" for r rest
    using ParseFrame_cases [of r] parse_bytes_marshal [OF m] that by simp
  moreover have "UnmarshalProto unmarshal ?f (frame_code t) = Inr msg"
    using unmarshal by (simp add: UnmarshalProto_def)
  ultimately show ?thesis
    by (fastforce simp: IsSupportedVersion_def CurrentVersion_def)
qed

theorem WriteFrame_roundtrip_witness:
  "\<exists>data. WriteFrame (\<lambda>b :: byte. Inr [b]) (\<lambda>_. None) (frame_code FrameTypePing) 42 = (None, Some data)"
  using WriteFrame_roundtrip [where marshal = "\<lambda>b :: byte. Inr [b]" and payload = "[42]" and msg = 42 and
        unmarshal = "\<lambda>bs. Inr (hd bs)" and put = "\<lambda>_. None" and t = FrameTypePing]
  by (simp add: MaxPayload_def) blast

lemma ParseFrame_keeps_err: "rd_err (snd (ParseFrame r)) = rd_err r"
  by (auto simp: ParseFrame_def ReadFull_def Let_def split: prod.splits option.splits)

text \<open>Messages written one after the other to one stream, and read by a peer that expects their types.\<close>

primrec write_all :: "('m \<Rightarrow> byte list res) \<Rightarrow> (frame_type \<times> 'm) list \<Rightarrow> byte list option" where
  "write_all marshal [] = Some []"
| "write_all marshal (x # xs) =
     (case WriteFrame marshal (\<lambda>_. None) (frame_code (fst x)) (snd x) of
        (None, Some data) \<Rightarrow> map_option ((@) data) (write_all marshal xs)
      | _ \<Rightarrow> None)"

primrec read_all :: "(byte list \<Rightarrow> 'm res) \<Rightarrow> frame_type list \<Rightarrow> reader \<Rightarrow> 'm res list \<times> reader" where
  "read_all unmarshal [] r = ([], r)"
| "read_all unmarshal (t # ts) r =
     (case ParseFrame r of
        (Inl e, r) \<Rightarrow> ([Inl e], r)
      | (Inr f, r) \<Rightarrow> apfst ((#) (UnmarshalProto unmarshal f (frame_code t))) (read_all unmarshal ts r))"

definition sendable :: "('m \<Rightarrow> byte list res) \<Rightarrow> (byte list \<Rightarrow> 'm res) \<Rightarrow> 'm \<Rightarrow> bool" where
  "sendable marshal unmarshal msg \<longleftrightarrow>
     (case marshal msg of Inl _ \<Rightarrow> False | Inr p \<Rightarrow> unmarshal p = Inr msg \<and> length p \<le> MaxPayload)"

lemma sendable_written:
  assumes "sendable marshal unmarshal msg"
  obtains data where "WriteFrame marshal (\<lambda>_. None) (frame_code t) msg = (None, Some data)"
    and "\<And>r rest. rd_bytes r = data @ rest \<Longrightarrow>
           \<exists>f. fst (ParseFrame r) = Inr f \<and> UnmarshalProto unmarshal f (frame_code t) = Inr msg \<and> rd_bytes (snd (ParseFrame r)) = rest"
proof -
  obtain p where p: "marshal msg = Inr p" "unmarshal p = Inr msg" "length p \<le> MaxPayload"
    using assms by (auto simp: sendable_def split: sum.splits)
  from WriteFrame_roundtrip [where marshal = marshal and unmarshal = unmarshal and msg = msg and payload = p
      and put = "\<lambda>_. None" and t = t] p that
  show thesis by blast
qed

text \<open>
  C21. A whole conversation: messages that the protobuf library can encode within the limit, written
  with WriteFrame one after the other under any of the protocol's types, arrive at the peer in
  order and unchanged, however the transport cuts the bytes, and after the last one the peer sees
  a clean end of the stream.
\<close>

theorem conversation_roundtrip:
  assumes "list_all (\<lambda>x. sendable marshal unmarshal (snd x)) msgs"
  shows "\<exists>data. write_all marshal msgs = Some data \<and>
     (\<forall>r. rd_bytes r = data \<longrightarrow> rd_err r = EOF \<longrightarrow>
        fst (read_all unmarshal (map fst msgs) r) = map (Inr \<circ> snd) msgs \<and>
        fst (ParseFrame (snd (read_all unmarshal (map fst msgs) r))) = Inl EOF)"
  using assms
proof (induction msgs)
  case Nil
  then show ?case using ParseFrame_eof by auto
next
  case (Cons x xs)
  obtain d1 where d1: "WriteFrame marshal (\<lambda>_. None) (frame_code (fst x)) (snd x) = (None, Some d1)"
    "\<And>r rest. rd_bytes r = d1 @ rest \<Longrightarrow> \<exists>f. fst (ParseFrame r) = Inr f \<and>
        UnmarshalProto unmarshal f (frame_code (fst x)) = Inr (snd x) \<and> rd_bytes (snd (ParseFrame r)) = rest"
    using Cons.prems sendable_written [of marshal unmarshal "snd x" "fst x"] by auto
  obtain d2 where d2: "write_all marshal xs = Some d2"
    "\<And>r. rd_bytes r = d2 \<Longrightarrow> rd_err r = EOF \<Longrightarrow> fst (read_all unmarshal (map fst xs) r) = map (Inr \<circ> snd) xs \<and>
        fst (ParseFrame (snd (read_all unmarshal (map fst xs) r))) = Inl EOF"
    using Cons by auto
  have "fst (read_all unmarshal (map fst (x # xs)) r) = map (Inr \<circ> snd) (x # xs) \<and>
      fst (ParseFrame (snd (read_all unmarshal (map fst (x # xs)) r))) = Inl EOF"
    if r: "rd_bytes r = d1 @ d2" "rd_err r = EOF" for r
  proof -
    obtain f r' where f: "ParseFrame r = (Inr f, r')" "UnmarshalProto unmarshal f (frame_code (fst x)) = Inr (snd x)" "rd_bytes r' = d2"
      using d1(2) [OF r(1)] by (cases "ParseFrame r") auto
    have "rd_err r' = EOF" using ParseFrame_keeps_err [of r] r(2) f(1) by simp
    from d2(2) [OF f(3) this] show ?thesis by (simp add: f(1,2))
  qed
  then show ?case using d1(1) d2(1) by auto
qed

theorem conversation_roundtrip_witness:
  "\<exists>data. write_all (\<lambda>b :: byte. Inr [b]) [(FrameTypePing, 42), (FrameTypePong, 7)] = Some data \<and>
     fst (read_all (\<lambda>bs. Inr (hd bs)) [FrameTypePing, FrameTypePong] \<lparr>rd_pieces = map (\<lambda>b. [b]) data, rd_err = EOF\<rparr>)
       = [Inr 42, Inr 7]"
proof -
  have "list_all (\<lambda>x. sendable (\<lambda>b :: byte. Inr [b]) (\<lambda>bs. Inr (hd bs)) (snd x)) [(FrameTypePing, 42), (FrameTypePong, 7)]"
    by (simp add: sendable_def MaxPayload_def)
  from conversation_roundtrip [OF this] obtain data where
    d: "write_all (\<lambda>b :: byte. Inr [b]) [(FrameTypePing, 42), (FrameTypePong, 7)] = Some data"
    "\<And>r. rd_bytes r = data \<Longrightarrow> rd_err r = EOF \<Longrightarrow>
       fst (read_all (\<lambda>bs. Inr (hd bs)) [FrameTypePing, FrameTypePong] r) = [Inr 42, Inr 7]"
    by auto
  have "concat (map (\<lambda>b. [b]) data) = data" by (induction data) simp_all
  then show ?thesis using d by (auto simp: rd_bytes_def)
qed

subsection \<open>The order of the frame types\<close>

lemma frame_code_eq_iff [simp]: "frame_code x = frame_code y \<longleftrightarrow> x = y"
  by (cases x; cases y) simp_all

text \<open>Frame types are compared as the numbers they are in the source.\<close>

instantiation frame_type :: linorder
begin

definition less_eq_frame_type :: "frame_type \<Rightarrow> frame_type \<Rightarrow> bool" where
  "less_eq_frame_type x y \<longleftrightarrow> frame_code x \<le> frame_code y"

definition less_frame_type :: "frame_type \<Rightarrow> frame_type \<Rightarrow> bool" where
  "less_frame_type x y \<longleftrightarrow> frame_code x < frame_code y"

instance
  by intro_classes (auto simp: less_eq_frame_type_def less_frame_type_def less_le)

end

text \<open>
  The protocol's frame types have distinct codes, none of them zero, all of which fit the 11-bit
  type field, so encoding with a declared type never fails with \<open>ErrInvalidType\<close> and never
  aliases another type; the control frames, those up to \<open>FrameTypeGoaway\<close>, are the ones with a
  code below \<open>0x100\<close>.
\<close>

theorem frame_types:
  "inj frame_code \<and> frame_code t \<le> maxType \<and> frame_code t \<noteq> 0 \<and> (t \<le> FrameTypeGoaway \<longleftrightarrow> frame_code t < 0x100)"
proof (intro conjI)
  show "frame_code t \<le> maxType" "frame_code t \<noteq> 0"
    by (rule frame_code_valid)+
  show "t \<le> FrameTypeGoaway \<longleftrightarrow> frame_code t < 0x100"
    by (cases t) (simp_all add: less_eq_frame_type_def)
qed (simp add: inj_def)

end
