(* ===== verification/Stream_FSM.thy ===== *)
theory Stream_FSM
  imports Prelude
begin

text \<open>
  The per-stream lifecycle of \<open>lib/orp/stream.go\<close>: states, events, the transition table and
  \<open>Apply\<close>. The documented table is an inductive relation of its own; the lemmas show that
  \<open>transition\<close> implements exactly that table, that every stream's life is a bounded climb
  towards \<open>StateClosed\<close>, and that splice mode is only entered through the full handshake.
  The two Go types are integers; a value without a name is the \<open>...Other\<close> constructor.
\<close>

subsection \<open>States and events\<close>

datatype StreamState =
    StateInit | StateOpening | StateAccepted | StateSpliced | StateClosing | StateClosed
  | StateOther int

datatype StreamEvent =
    EventOpen | EventAccept | EventSplice | EventFin | EventReset | EventOther int

fun StreamState_String :: "StreamState \<Rightarrow> string" where
  "StreamState_String StateInit = ''Init''"
| "StreamState_String StateOpening = ''Opening''"
| "StreamState_String StateAccepted = ''Accepted''"
| "StreamState_String StateSpliced = ''Spliced''"
| "StreamState_String StateClosing = ''Closing''"
| "StreamState_String StateClosed = ''Closed''"
| "StreamState_String (StateOther n) = ''Unknown('' @ show_int n @ '')''"

fun StreamEvent_String :: "StreamEvent \<Rightarrow> string" where
  "StreamEvent_String EventOpen = ''Open''"
| "StreamEvent_String EventAccept = ''Accept''"
| "StreamEvent_String EventSplice = ''Splice''"
| "StreamEvent_String EventFin = ''Fin''"
| "StreamEvent_String EventReset = ''Reset''"
| "StreamEvent_String (EventOther n) = ''Unknown('' @ show_int n @ '')''"

record StreamFSM =
  fsm_state :: StreamState

definition NewStreamFSM :: StreamFSM where
  "NewStreamFSM = \<lparr>fsm_state = StateInit\<rparr>"

definition State :: "StreamFSM \<Rightarrow> StreamState" where
  "State f = fsm_state f"

subsection \<open>The transition function\<close>

definition transition :: "StreamState \<Rightarrow> StreamEvent \<Rightarrow> StreamState \<times> bool" where
  "transition s e =
     (if e = EventReset then (StateClosed, True)
      else case s of
        StateInit \<Rightarrow> (if e = EventOpen then (StateOpening, True) else (s, False))
      | StateOpening \<Rightarrow>
          (case e of EventAccept \<Rightarrow> (StateAccepted, True) | EventFin \<Rightarrow> (StateClosing, True)
           | _ \<Rightarrow> (s, False))
      | StateAccepted \<Rightarrow>
          (case e of EventSplice \<Rightarrow> (StateSpliced, True) | EventFin \<Rightarrow> (StateClosing, True)
           | _ \<Rightarrow> (s, False))
      | StateSpliced \<Rightarrow> (if e = EventFin then (StateClosing, True) else (s, False))
      | StateClosing \<Rightarrow> (if e = EventFin then (StateClosed, True) else (s, False))
      | _ \<Rightarrow> (s, False))"

definition Apply :: "StreamFSM \<Rightarrow> StreamEvent \<Rightarrow> goerr option \<times> StreamFSM" where
  "Apply f e =
     (let (next, ok) = transition (fsm_state f) e in
      if \<not> ok then
        (Some (Fresh (''orp: invalid transition '' @ StreamState_String (fsm_state f) @ '' --''
                      @ StreamEvent_String e @ ''--> ?'')), f)
      else (None, f\<lparr>fsm_state := next\<rparr>))"

text \<open>Applying a sequence of events, keeping those that were accepted.\<close>

fun fsm_run :: "StreamFSM \<Rightarrow> StreamEvent list \<Rightarrow> StreamFSM \<times> StreamEvent list" where
  "fsm_run f [] = (f, [])"
| "fsm_run f (e # es) =
     (case Apply f e of
        (Some _, f') \<Rightarrow> fsm_run f' es
      | (None, f') \<Rightarrow> (let (g, acc) = fsm_run f' es in (g, e # acc)))"

subsection \<open>The documented table\<close>

text \<open>The comment above \<open>transition\<close>, row by row.\<close>

inductive fsm_table :: "StreamState \<Rightarrow> StreamEvent \<Rightarrow> StreamState \<Rightarrow> bool" where
  open_init: "fsm_table StateInit EventOpen StateOpening"
| accept_opening: "fsm_table StateOpening EventAccept StateAccepted"
| fin_opening: "fsm_table StateOpening EventFin StateClosing"
| splice_accepted: "fsm_table StateAccepted EventSplice StateSpliced"
| fin_accepted: "fsm_table StateAccepted EventFin StateClosing"
| fin_spliced: "fsm_table StateSpliced EventFin StateClosing"
| fin_closing: "fsm_table StateClosing EventFin StateClosed"
| reset_any: "fsm_table s EventReset StateClosed"

code_pred fsm_table .

inductive_simps table_init: "fsm_table StateInit e s"
inductive_simps table_opening: "fsm_table StateOpening e s"
inductive_simps table_accepted: "fsm_table StateAccepted e s"
inductive_simps table_spliced: "fsm_table StateSpliced e s"
inductive_simps table_closing: "fsm_table StateClosing e s"
inductive_simps table_closed: "fsm_table StateClosed e s"
inductive_simps table_other: "fsm_table (StateOther n) e s"

lemmas table_simps = table_init table_opening table_accepted table_spliced table_closing
  table_closed table_other

lemma transition_table: "transition s e = (s', True) \<longleftrightarrow> fsm_table s e s'"
  by (cases s; cases e) (auto simp: transition_def table_simps)

lemma transition_refused: "transition s e = (s', False) \<Longrightarrow> s' = s"
  by (cases s; cases e) (auto simp: transition_def)

lemma Apply_accepts: "Apply f e = (None, f') \<longleftrightarrow> (\<exists>s'. fsm_table (fsm_state f) e s' \<and> f' = f\<lparr>fsm_state := s'\<rparr>)"
  by (cases "transition (fsm_state f) e") (auto simp: Apply_def simp flip: transition_table)

lemma Apply_refuses: "Apply f e = (Some err, f') \<Longrightarrow> f' = f \<and> (\<nexists>s'. fsm_table (fsm_state f) e s')"
  by (cases "transition (fsm_state f) e")
     (auto simp: Apply_def simp flip: transition_table split: if_splits)

text \<open>
  C13. \<open>Apply\<close> implements the documented table and nothing else: an event is accepted exactly
  when the table has a row for it and the machine moves to that row's target; otherwise an
  error is returned and the machine is unchanged.
\<close>

theorem Apply_implements_table:
  "(\<exists>s'. fsm_table (State f) e s' \<and> Apply f e = (None, \<lparr>fsm_state = s'\<rparr>)) \<or>
   ((\<nexists>s'. fsm_table (State f) e s') \<and> (\<exists>err. Apply f e = (Some err, f)))"
proof (cases "Apply f e")
  case (Pair r f')
  show ?thesis
  proof (cases r)
    case None
    with Pair Apply_accepts [of f e f'] show ?thesis by (cases f) (auto simp: State_def)
  next
    case (Some err)
    with Pair Apply_refuses [of f e err f'] show ?thesis by (auto simp: State_def)
  qed
qed

subsection \<open>A ranked machine\<close>

text \<open>
  What the lifecycle lemmas need of a machine: a step function that may refuse, and a rank
  bounded by a ceiling that every accepted progress event raises and no other event lowers.
\<close>

locale ranked_machine =
  fixes step :: "'s \<Rightarrow> 'e \<Rightarrow> 's option"
    and rank :: "'s \<Rightarrow> nat"
    and progress :: "'e \<Rightarrow> bool"
    and ceiling :: nat
  assumes rank_progress: "step s e = Some t \<Longrightarrow> progress e \<Longrightarrow> rank s < rank t"
    and rank_other: "step s e = Some t \<Longrightarrow> rank s \<le> rank t"
    and rank_ceiling: "step s e = Some t \<Longrightarrow> rank t \<le> ceiling"
begin

primrec path :: "'s \<Rightarrow> 'e list \<Rightarrow> 's \<Rightarrow> bool" where
  "path s [] t \<longleftrightarrow> s = t"
| "path s (e # es) t \<longleftrightarrow> (\<exists>u. step s e = Some u \<and> path u es t)"

lemma path_rank: "path s es t \<Longrightarrow> rank s + length (filter progress es) \<le> rank t"
proof (induction es arbitrary: s)
  case (Cons e es)
  then obtain u where "step s e = Some u" "rank u + length (filter progress es) \<le> rank t" by auto
  with rank_progress rank_other show ?case by fastforce
qed simp

lemma path_ceiling: "path s es t \<Longrightarrow> es \<noteq> [] \<Longrightarrow> rank t \<le> ceiling"
proof (induction es arbitrary: s)
  case (Cons e es)
  then show ?case by (cases es) (auto dest: rank_ceiling)
qed simp

lemma progress_bounded: "path s es t \<Longrightarrow> rank s + length (filter progress es) \<le> max (rank s) ceiling"
  using path_rank path_ceiling by (cases es) fastforce+

end

definition fsm_step :: "StreamState \<Rightarrow> StreamEvent \<Rightarrow> StreamState option" where
  "fsm_step s e = (case Apply \<lparr>fsm_state = s\<rparr> e of (None, f) \<Rightarrow> Some (fsm_state f) | _ \<Rightarrow> None)"

fun fsm_rank :: "StreamState \<Rightarrow> nat" where
  "fsm_rank StateInit = 0"
| "fsm_rank StateOpening = 1"
| "fsm_rank StateAccepted = 2"
| "fsm_rank StateSpliced = 3"
| "fsm_rank StateClosing = 4"
| "fsm_rank _ = 5"

lemma fsm_step_table: "fsm_step s e = Some t \<longleftrightarrow> fsm_table s e t"
proof (cases "Apply \<lparr>fsm_state = s\<rparr> e")
  case (Pair r f)
  then show ?thesis
    using Apply_accepts [of "\<lparr>fsm_state = s\<rparr>" e f] Apply_refuses [of "\<lparr>fsm_state = s\<rparr>" e _ f]
      Apply_accepts [of "\<lparr>fsm_state = s\<rparr>" e "\<lparr>fsm_state = t\<rparr>"]
    by (cases r) (auto simp: fsm_step_def)
qed

lemma fsm_rank_le [simp]: "fsm_rank s \<le> 5"
  by (cases s) simp_all

interpretation stream: ranked_machine fsm_step fsm_rank "\<lambda>e. e \<noteq> EventReset" 5
  by unfold_locales (auto simp: fsm_step_table elim: fsm_table.cases)

lemma fsm_run_path:
  "fsm_run f es = (g, acc) \<Longrightarrow> stream.path (fsm_state f) acc (fsm_state g)"
proof (induction es arbitrary: f acc)
  case (Cons e es)
  obtain r f' where a: "Apply f e = (r, f')" by (cases "Apply f e")
  show ?case
  proof (cases r)
    case None
    with a obtain s' where "fsm_table (fsm_state f) e s'" "f' = f\<lparr>fsm_state := s'\<rparr>"
      using Apply_accepts by blast
    with Cons.prems Cons.IH [of f'] a None show ?thesis
      by (fastforce simp: fsm_step_table split: prod.splits)
  next
    case (Some err)
    with a have "f' = f" using Apply_refuses by blast
    with Cons a Some show ?thesis by simp
  qed
qed simp

text \<open>
  C38. The life of a stream is bounded: of any sequence of events applied to a fresh machine,
  at most five other than \<open>EventReset\<close> are accepted (open, accept, splice and the two fins),
  so no stream can be kept alive by events for ever.
\<close>

theorem fsm_life_bounded:
  "length (filter (\<lambda>e. e \<noteq> EventReset) (snd (fsm_run NewStreamFSM es))) \<le> 5"
proof -
  obtain g acc where r: "fsm_run NewStreamFSM es = (g, acc)" by (cases "fsm_run NewStreamFSM es")
  from stream.progress_bounded [OF fsm_run_path [OF r]] r show ?thesis
    by (simp add: NewStreamFSM_def)
qed

lemma path_from_closed:
  "stream.path StateClosed es t \<Longrightarrow> t = StateClosed \<and> set es \<subseteq> {EventReset}"
  by (induction es) (auto simp: fsm_step_table table_closed)

lemma path_from_closing:
  "stream.path StateClosing es t \<Longrightarrow> t = StateClosing \<or> t = StateClosed"
  by (induction es) (auto simp: fsm_step_table table_closing dest: path_from_closed)

lemma path_to_spliced:
  "stream.path StateSpliced es StateSpliced \<Longrightarrow> es = []"
  "stream.path StateAccepted es StateSpliced \<Longrightarrow> es = [EventSplice]"
  "stream.path StateOpening es StateSpliced \<Longrightarrow> es = [EventAccept, EventSplice]"
  "stream.path StateInit es StateSpliced \<Longrightarrow> es = [EventOpen, EventAccept, EventSplice]"
  by (induction es) (auto simp: fsm_step_table table_simps dest: path_from_closed path_from_closing)

text \<open>
  Splice mode needs the whole handshake: if a fresh machine is in \<open>StateSpliced\<close> after any
  sequence of events, then the accepted events are exactly open, accept, splice in this
  order.
\<close>

theorem spliced_only_after_handshake:
  assumes "State (fst (fsm_run NewStreamFSM es)) = StateSpliced"
  shows "snd (fsm_run NewStreamFSM es) = [EventOpen, EventAccept, EventSplice]"
proof -
  obtain g acc where r: "fsm_run NewStreamFSM es = (g, acc)" by (cases "fsm_run NewStreamFSM es")
  from fsm_run_path [OF r] assms r have "stream.path StateInit acc StateSpliced"
    by (simp add: NewStreamFSM_def State_def)
  then show ?thesis using path_to_spliced(4) r by simp
qed

theorem spliced_only_after_handshake_witness:
  "snd (fsm_run NewStreamFSM [EventFin, EventOpen, EventOpen, EventAccept, EventSplice])
     = [EventOpen, EventAccept, EventSplice]"
  by (rule spliced_only_after_handshake)
     (simp add: NewStreamFSM_def State_def Apply_def transition_def)

text \<open>
  \<open>StateClosed\<close> is final and always within reach: a reset closes the stream from every
  state, and a closed stream stays closed whatever is applied to it.
\<close>

theorem closed_is_final:
  "Apply f EventReset = (None, \<lparr>fsm_state = StateClosed\<rparr>) \<and>
   State (fst (fsm_run \<lparr>fsm_state = StateClosed\<rparr> es)) = StateClosed"
proof
  show "Apply f EventReset = (None, \<lparr>fsm_state = StateClosed\<rparr>)"
    by (cases f) (simp add: Apply_def transition_def)
  obtain g acc where r: "fsm_run \<lparr>fsm_state = StateClosed\<rparr> es = (g, acc)"
    by (cases "fsm_run \<lparr>fsm_state = StateClosed\<rparr> es")
  from fsm_run_path [OF r] r show "State (fst (fsm_run \<lparr>fsm_state = StateClosed\<rparr> es)) = StateClosed"
    by (simp add: State_def path_from_closed)
qed

end
