(* ===== verification/Ring.thy ===== *)
theory Ring
  imports Prelude "HOL-Library.Sublist"
begin

text \<open>
  The resume ring buffer of \<open>lib/resume/ringbuffer.go\<close>: a window on the bytes written to a
  stream, fixed or adaptive in capacity. The abstract view of a ring is the whole history of
  the stream: \<open>ring_rep r h\<close> says that \<open>r\<close> is well formed and holds a suffix of \<open>h\<close>, the bytes
  ever written. The interface the resume state relies on is the locale \<open>resend_log\<close>;
  the ring interprets it.

  The mutex serialises the methods, so each is one atomic operation here. A slice bound that
  Go would check is always in range by the invariant (\<open>ring_rep\<close>), so \<open>drop\<close> and \<open>take\<close>
  never run past the end.
\<close>

definition DefaultRingCapacity :: int where
  "DefaultRingCapacity = 16 * 1024 * 1024"

definition DefaultMinRingCapacity :: int where
  "DefaultMinRingCapacity = 64 * 1024"

definition ErrBeforeRing :: goerr where
  "ErrBeforeRing = Sentinel ''resume: position evicted from ring''"

record RingBuffer =
  rb_buf :: "byte list"
  rb_cap :: int
  rb_minCap :: int
  rb_maxCap :: int
  rb_head :: int

definition NewRingBuffer :: "int \<Rightarrow> RingBuffer" where
  "NewRingBuffer capacity =
     (let capacity = (if capacity \<le> 0 then DefaultRingCapacity else capacity) in
      \<lparr>rb_buf = [], rb_cap = capacity, rb_minCap = capacity, rb_maxCap = capacity, rb_head = 0\<rparr>)"

definition NewAdaptiveRingBuffer :: "int \<Rightarrow> int \<Rightarrow> RingBuffer" where
  "NewAdaptiveRingBuffer minCap maxCap =
     (let minCap = (if minCap \<le> 0 then DefaultMinRingCapacity else minCap);
          maxCap = (if maxCap \<le> 0 then DefaultRingCapacity else maxCap);
          minCap = (if minCap > maxCap then maxCap else minCap)
      in \<lparr>rb_buf = [], rb_cap = minCap, rb_minCap = minCap, rb_maxCap = maxCap, rb_head = 0\<rparr>)"

definition Len :: "RingBuffer \<Rightarrow> int" where
  "Len r = int (length (rb_buf r))"

definition Cap :: "RingBuffer \<Rightarrow> int" where
  "Cap r = rb_cap r"

definition Head :: "RingBuffer \<Rightarrow> int" where
  "Head r = rb_head r"

definition Tail :: "RingBuffer \<Rightarrow> int" where
  "Tail r = rb_head r - int (length (rb_buf r))"

text \<open>The adaptive growth step of \<open>Write\<close>, then \<open>Write\<close> itself.\<close>

definition grow :: "RingBuffer \<Rightarrow> int \<Rightarrow> RingBuffer" where
  "grow r n =
     (if rb_maxCap r > rb_cap r \<and> i64 (Len r + n) > rb_cap r then
        (let needed = i64 (Len r + n);
             newCap = min (max (i64 (rb_cap r * 2)) needed) (rb_maxCap r)
         in if newCap > rb_cap r then r\<lparr>rb_cap := newCap\<rparr> else r)
      else r)"

definition Write :: "RingBuffer \<Rightarrow> byte list \<Rightarrow> int \<times> RingBuffer" where
  "Write r p =
     (let n = int (length p);
          r = r\<lparr>rb_head := i64 (rb_head r + n)\<rparr>;
          r = grow r n
      in if n \<ge> rb_cap r then (n, r\<lparr>rb_buf := drop (nat (n - rb_cap r)) p\<rparr>)
         else if i64 (Len r + n) \<le> rb_cap r then (n, r\<lparr>rb_buf := rb_buf r @ p\<rparr>)
         else (let overflow = i64 (Len r + n) - rb_cap r
               in (n, r\<lparr>rb_buf := drop (nat overflow) (rb_buf r) @ p\<rparr>)))"

definition BytesFrom :: "RingBuffer \<Rightarrow> int \<Rightarrow> byte list res" where
  "BytesFrom r pos =
     (let tail = rb_head r - int (length (rb_buf r)) in
      if pos < tail then Inl ErrBeforeRing
      else if pos > rb_head r then Inr []
      else Inr (drop (nat (pos - tail)) (rb_buf r)))"

definition shrink :: "RingBuffer \<Rightarrow> RingBuffer" where
  "shrink r =
     (if rb_cap r > rb_minCap r \<and> i64 (Len r * 4) < rb_cap r then
        (let newCap = max (max (rb_cap r div 2) (rb_minCap r)) (Len r)
         in if newCap < rb_cap r then r\<lparr>rb_cap := newCap\<rparr> else r)
      else r)"

definition Discard :: "RingBuffer \<Rightarrow> int \<Rightarrow> RingBuffer" where
  "Discard r before =
     (let tail = rb_head r - int (length (rb_buf r)) in
      if before \<le> tail then r
      else (let dropn = before - tail;
                r = (if dropn \<ge> Len r then r\<lparr>rb_buf := []\<rparr>
                     else r\<lparr>rb_buf := drop (nat dropn) (rb_buf r)\<rparr>)
            in shrink r))"

subsection \<open>The interface of a resend log\<close>

text \<open>A sequence of writes (\<open>Inl\<close>) and discards (\<open>Inr\<close>) and the bytes it writes.\<close>

primrec log_run :: "('r \<Rightarrow> byte list \<Rightarrow> 'r) \<Rightarrow> ('r \<Rightarrow> int \<Rightarrow> 'r) \<Rightarrow> 'r \<Rightarrow> (byte list + int) list \<Rightarrow> 'r" where
  "log_run put discard r [] = r"
| "log_run put discard r (x # xs) =
     log_run put discard (case x of Inl p \<Rightarrow> put r p | Inr b \<Rightarrow> discard r b) xs"

primrec log_written :: "(byte list + int) list \<Rightarrow> byte list" where
  "log_written [] = []"
| "log_written (x # xs) = (case x of Inl p \<Rightarrow> p | Inr _ \<Rightarrow> []) @ log_written xs"

text \<open>
  A resend log represents the history of a stream and can give back every byte from its tail
  on. Writing advances the tail only as far as the retention bound forces it; discarding
  moves it to the given position, at most to the end.
\<close>

locale resend_log =
  fixes rep :: "'r \<Rightarrow> byte list \<Rightarrow> bool"
    and put :: "'r \<Rightarrow> byte list \<Rightarrow> 'r"
    and discard :: "'r \<Rightarrow> int \<Rightarrow> 'r"
    and bytes_from :: "'r \<Rightarrow> int \<Rightarrow> byte list res"
    and tail :: "'r \<Rightarrow> int"
    and retain :: "'r \<Rightarrow> int"
  assumes put_rep: "rep r h \<Longrightarrow> int (length h + length p) \<le> MaxInt64 \<Longrightarrow> rep (put r p) (h @ p)"
    and discard_rep: "rep r h \<Longrightarrow> rep (discard r b) h"
    and put_tail: "rep r h \<Longrightarrow> int (length h + length p) \<le> MaxInt64 \<Longrightarrow>
      tail (put r p) = max (tail r) (int (length h + length p) - retain r)"
    and discard_tail: "rep r h \<Longrightarrow> tail (discard r b) = max (tail r) (min b (int (length h)))"
    and put_retain: "retain (put r p) = retain r"
    and discard_retain: "retain (discard r b) = retain r"
    and tail_range: "rep r h \<Longrightarrow> 0 \<le> tail r \<and> tail r \<le> int (length h)"
    and bytes_in: "rep r h \<Longrightarrow> tail r \<le> pos \<Longrightarrow> bytes_from r pos = Inr (drop (nat pos) h)"
    and bytes_before: "rep r h \<Longrightarrow> pos < tail r \<Longrightarrow> bytes_from r pos = Inl ErrBeforeRing"
begin

text \<open>Soundness: what the log gives back is the history from that position on.\<close>

lemma bytes_sound:
  assumes "rep r h" and "bytes_from r pos = Inr bs"
  shows "0 \<le> pos \<and> bs = drop (nat pos) h"
proof -
  from assms bytes_before have "tail r \<le> pos" by (metis Inl_Inr_False not_le)
  with assms bytes_in tail_range [OF assms(1)] show ?thesis by auto
qed

lemma log_run_rep:
  "rep r h \<Longrightarrow> int (length h + length (log_written xs)) \<le> MaxInt64 \<Longrightarrow>
     rep (log_run put discard r xs) (h @ log_written xs)"
proof (induction xs arbitrary: r h)
  case (Cons x xs)
  show ?case
  proof (cases x)
    case (Inl p)
    with Cons.prems have "rep (put r p) (h @ p)" by (intro put_rep) simp_all
    with Cons.IH [of "put r p" "h @ p"] Cons.prems Inl show ?thesis by simp
  next
    case (Inr b)
    with Cons.IH [of "discard r b" h] Cons.prems discard_rep show ?thesis by simp
  qed
qed simp

lemma log_run_tail:
  "rep r h \<Longrightarrow> int (length h + length (log_written xs)) \<le> MaxInt64 \<Longrightarrow>
     tail r \<le> k \<Longrightarrow> (\<forall>b. Inr b \<in> set xs \<longrightarrow> b \<le> k) \<Longrightarrow>
     int (length h + length (log_written xs)) - retain r \<le> k \<Longrightarrow> tail (log_run put discard r xs) \<le> k"
proof (induction xs arbitrary: r h)
  case (Cons x xs)
  show ?case
  proof (cases x)
    case (Inl p)
    with Cons.prems have "rep (put r p) (h @ p)" "tail (put r p) \<le> k"
      by (auto intro!: put_rep simp: put_tail)
    with Cons.IH [of "put r p" "h @ p"] Cons.prems Inl show ?thesis by (simp add: put_retain)
  next
    case (Inr b)
    with Cons.prems have "rep (discard r b) h" "tail (discard r b) \<le> k"
      by (auto intro: discard_rep simp: discard_tail)
    with Cons.IH [of "discard r b" h] Cons.prems Inr show ?thesis by (simp add: discard_retain)
  qed
qed simp

text \<open>Completeness: a position no discard has passed is retained while it is within the bound.\<close>

lemma bytes_complete:
  assumes "rep r h" and "int (length h + length (log_written xs)) \<le> MaxInt64"
    and "tail r \<le> k" and "\<forall>b. Inr b \<in> set xs \<longrightarrow> b \<le> k"
    and "int (length h + length (log_written xs)) - retain r \<le> k"
  shows "bytes_from (log_run put discard r xs) k = Inr (drop (nat k) (h @ log_written xs))"
  using assms by (intro bytes_in log_run_rep log_run_tail)

end

subsection \<open>The ring is a resend log\<close>

definition ring_wf :: "RingBuffer \<Rightarrow> bool" where
  "ring_wf r \<longleftrightarrow> 0 < rb_minCap r \<and> rb_minCap r \<le> rb_cap r \<and> rb_cap r \<le> rb_maxCap r \<and>
     rb_maxCap r \<le> MaxInt64 \<and> Len r \<le> rb_cap r \<and> Len r \<le> rb_head r \<and> rb_head r \<le> MaxInt64"

definition ring_rep :: "RingBuffer \<Rightarrow> byte list \<Rightarrow> bool" where
  "ring_rep r h \<longleftrightarrow> ring_wf r \<and> rb_head r = int (length h) \<and>
     suffix (rb_buf r) h"

lemma i64_Len_add: "0 \<le> n \<Longrightarrow> Len r + n \<le> MaxInt64 \<Longrightarrow> i64 (Len r + n) = Len r + n"
  by (rule i64_nonneg) (simp_all add: Len_def)

lemma grow_simps [simp]:
  "rb_buf (grow r n) = rb_buf r" "rb_head (grow r n) = rb_head r"
  "rb_minCap (grow r n) = rb_minCap r" "rb_maxCap (grow r n) = rb_maxCap r"
  "Len (grow r n) = Len r"
  by (simp_all add: grow_def Let_def Len_def)

lemma grow_cap:
  assumes "0 \<le> n" "Len r + n \<le> MaxInt64" "rb_cap r \<le> rb_maxCap r"
  shows "rb_cap r \<le> rb_cap (grow r n)" and "rb_cap (grow r n) \<le> rb_maxCap r"
    and "Len r + n \<le> rb_cap (grow r n) \<or> rb_cap (grow r n) = rb_maxCap r"
  using assms i64_Len_add [of n r] by (auto simp: grow_def Let_def)

lemma Write_cases:
  fixes r p
  defines "n \<equiv> int (length p)" and "R \<equiv> grow (r\<lparr>rb_head := i64 (rb_head r + int (length p))\<rparr>) (int (length p))"
  assumes wf: "ring_wf r" and fits: "rb_head r + n \<le> MaxInt64"
  obtains (replace) "rb_cap R \<le> n" "Write r p = (n, R\<lparr>rb_buf := drop (nat (n - rb_cap R)) p\<rparr>)"
  | (append) "n < rb_cap R" "Len r + n \<le> rb_cap R" "Write r p = (n, R\<lparr>rb_buf := rb_buf r @ p\<rparr>)"
  | (evict) "n < rb_cap R" "rb_cap R < Len r + n"
      "Write r p = (n, R\<lparr>rb_buf := drop (nat (Len r + n - rb_cap R)) (rb_buf r) @ p\<rparr>)"
proof -
  have l: "Len (r\<lparr>rb_head := h\<rparr>) = Len r" for h by (simp add: Len_def)
  have "i64 (Len r + n) = Len r + n"
    using wf fits by (intro i64_Len_add) (simp_all add: ring_wf_def n_def)
  then show thesis using that
    by (cases "rb_cap R \<le> n"; cases "Len r + n \<le> rb_cap R")
       (auto simp: Write_def Let_def n_def R_def l not_le)
qed

lemma Write_grown:
  fixes r p
  defines "n \<equiv> int (length p)" and "R \<equiv> grow (r\<lparr>rb_head := i64 (rb_head r + int (length p))\<rparr>) (int (length p))"
  assumes wf: "ring_wf r" and fits: "rb_head r + n \<le> MaxInt64"
  shows "rb_head R = rb_head r + n" and "rb_cap r \<le> rb_cap R" and "rb_cap R \<le> rb_maxCap r"
    and "Len r + n \<le> rb_cap R \<or> rb_cap R = rb_maxCap r"
    and "rb_buf R = rb_buf r" "rb_minCap R = rb_minCap r" "rb_maxCap R = rb_maxCap r"
proof -
  let ?r = "r\<lparr>rb_head := i64 (rb_head r + int (length p))\<rparr>"
  have l: "Len ?r = Len r" by (simp add: Len_def)
  have "0 \<le> rb_head r" using wf by (simp add: ring_wf_def Len_def)
  then show "rb_head R = rb_head r + n" using fits by (simp add: R_def n_def i64_nonneg)
  have "Len ?r + n \<le> MaxInt64" "rb_cap ?r \<le> rb_maxCap ?r"
    using wf fits by (simp_all add: l ring_wf_def)
  then show "rb_cap r \<le> rb_cap R" "rb_cap R \<le> rb_maxCap r"
    "Len r + n \<le> rb_cap R \<or> rb_cap R = rb_maxCap r"
    using grow_cap [of n ?r] by (simp_all add: R_def n_def l)
  show "rb_buf R = rb_buf r" "rb_minCap R = rb_minCap r" "rb_maxCap R = rb_maxCap r"
    by (simp_all add: R_def)
qed

lemma Write_keeps:
  assumes "ring_rep r h" and "int (length h + length p) \<le> MaxInt64"
  shows "ring_rep (snd (Write r p)) (h @ p)"
    and "Tail (snd (Write r p)) = max (Tail r) (int (length h + length p) - rb_maxCap r)"
proof -
  have wf: "ring_wf r" and hd: "rb_head r = int (length h)" and sf: "suffix (rb_buf r) h"
    using assms(1) by (auto simp: ring_rep_def)
  have fits: "rb_head r + int (length p) \<le> MaxInt64" using assms(2) hd by simp
  note g = Write_grown [OF wf fits]
  from wf fits have "ring_rep (snd (Write r p)) (h @ p) \<and>
      Tail (snd (Write r p)) = max (Tail r) (int (length h + length p) - rb_maxCap r)"
  proof (cases rule: Write_cases)
    case replace
    then have "rb_buf r = []" if "Len r + int (length p)
        \<le> rb_cap (grow (r\<lparr>rb_head := i64 (rb_head r + int (length p))\<rparr>) (int (length p)))"
      using that by (cases "rb_buf r") (simp_all add: Len_def)
    with replace g wf hd fits show ?thesis
      by (auto simp: ring_rep_def ring_wf_def Len_def Tail_def suffix_drop max_def intro: suffix_appendI)
  next
    case append
    with g wf hd fits sf show ?thesis
      by (auto simp: ring_rep_def ring_wf_def Len_def Tail_def max_def)
  next
    case evict
    have "suffix (drop k (rb_buf r)) h" for k
      using sf suffix_drop suffix_order.trans by blast
    with evict g wf hd fits show ?thesis
      by (auto simp: ring_rep_def ring_wf_def Len_def Tail_def max_def)
  qed
  then show "ring_rep (snd (Write r p)) (h @ p)"
    and "Tail (snd (Write r p)) = max (Tail r) (int (length h + length p) - rb_maxCap r)" by simp_all
qed

lemma shrink_simps [simp]:
  "rb_buf (shrink r) = rb_buf r" "rb_head (shrink r) = rb_head r"
  "rb_minCap (shrink r) = rb_minCap r" "rb_maxCap (shrink r) = rb_maxCap r"
  by (simp_all add: shrink_def Let_def)

lemma shrink_wf: "ring_wf r \<Longrightarrow> ring_wf (shrink r)"
  by (auto simp: shrink_def Let_def ring_wf_def Len_def)

lemma Discard_keeps:
  assumes "ring_rep r h"
  shows "ring_rep (Discard r b) h" and "Tail (Discard r b) = max (Tail r) (min b (int (length h)))"
proof -
  have sf: "suffix (rb_buf r) h" and hd: "rb_head r = int (length h)" and wf: "ring_wf r"
    using assms by (auto simp: ring_rep_def)
  have "suffix (drop k (rb_buf r)) h" for k
    using sf suffix_drop suffix_order.trans by blast
  moreover have "ring_wf (r\<lparr>rb_buf := drop k (rb_buf r)\<rparr>)" "ring_wf (r\<lparr>rb_buf := []\<rparr>)" for k
    using wf by (auto simp: ring_wf_def Len_def)
  ultimately show "ring_rep (Discard r b) h" using assms
    by (auto simp: Discard_def Let_def ring_rep_def intro: shrink_wf)
  show "Tail (Discard r b) = max (Tail r) (min b (int (length h)))"
    using hd wf by (auto simp: Discard_def Let_def Tail_def Len_def ring_wf_def)
qed

interpretation ring_log: resend_log ring_rep "\<lambda>r p. snd (Write r p)" Discard BytesFrom Tail rb_maxCap
proof unfold_locales
  fix r h p b pos
  assume r: "ring_rep r h"
  then show "ring_rep (Discard r b) h" and "Tail (Discard r b) = max (Tail r) (min b (int (length h)))"
    by (rule Discard_keeps)+
  from r show "0 \<le> Tail r \<and> Tail r \<le> int (length h)"
    by (auto simp: ring_rep_def ring_wf_def Tail_def Len_def)
  from r show "pos < Tail r \<Longrightarrow> BytesFrom r pos = Inl ErrBeforeRing"
    by (simp add: BytesFrom_def Tail_def Let_def)
  assume pos: "Tail r \<le> pos"
  from r obtain pre where h: "h = pre @ rb_buf r" and hd: "rb_head r = int (length h)"
    by (auto simp: ring_rep_def suffix_def)
  then have "Tail r = int (length pre)" by (simp add: Tail_def)
  with pos h hd show "BytesFrom r pos = Inr (drop (nat pos) h)"
    by (auto simp: BytesFrom_def Tail_def Let_def nat_diff_distrib)
next
  fix r h and p :: "byte list" assume "ring_rep r h" "int (length h + length p) \<le> MaxInt64"
  then show "ring_rep (snd (Write r p)) (h @ p)"
    and "Tail (snd (Write r p)) = max (Tail r) (int (length h + length p) - rb_maxCap r)"
    by (rule Write_keeps)+
qed (simp_all add: Write_def Discard_def Let_def)

lemma NewAdaptiveRingBuffer_rep:
  "minCap \<le> MaxInt64 \<Longrightarrow> maxCap \<le> MaxInt64 \<Longrightarrow> ring_rep (NewAdaptiveRingBuffer minCap maxCap) []"
  by (auto simp: NewAdaptiveRingBuffer_def ring_rep_def ring_wf_def Len_def Let_def MaxInt64_def
      DefaultRingCapacity_def DefaultMinRingCapacity_def)

lemma NewRingBuffer_adaptive: "NewRingBuffer c = NewAdaptiveRingBuffer (rb_cap (NewRingBuffer c)) c"
  by (auto simp: NewAdaptiveRingBuffer_def NewRingBuffer_def Let_def DefaultRingCapacity_def)

lemma NewRingBuffer_rep:
  assumes "c \<le> MaxInt64"
  shows "ring_rep (NewRingBuffer c) []"
proof -
  have "rb_cap (NewRingBuffer c) \<le> MaxInt64"
    using assms by (simp add: NewRingBuffer_def MaxInt64_def DefaultRingCapacity_def)
  from NewAdaptiveRingBuffer_rep [OF this assms] show ?thesis
    by (simp flip: NewRingBuffer_adaptive)
qed

text \<open>A sequence of operations on a ring, and what it has written.\<close>

abbreviation ring_run :: "RingBuffer \<Rightarrow> (byte list + int) list \<Rightarrow> RingBuffer" where
  "ring_run \<equiv> log_run (\<lambda>r p. snd (Write r p)) Discard"

lemma Write_bounds [simp]:
  "rb_minCap (snd (Write r p)) = rb_minCap r" "rb_maxCap (snd (Write r p)) = rb_maxCap r"
  by (simp_all add: Write_def Let_def)

lemma Discard_bounds [simp]:
  "rb_minCap (Discard r b) = rb_minCap r" "rb_maxCap (Discard r b) = rb_maxCap r"
  by (simp_all add: Discard_def Let_def)

lemma ring_run_bounds:
  "rb_minCap (ring_run r xs) = rb_minCap r \<and> rb_maxCap (ring_run r xs) = rb_maxCap r"
  by (induction xs arbitrary: r) (simp_all split: sum.splits)

text \<open>
  C18. Capacity invariant of the adaptive ring: after any sequence of writes and discards the
  target capacity lies between the two configured bounds, the bytes held never exceed it, and
  head and tail differ by exactly the bytes held. Growing and shrinking never break this.
\<close>

theorem ring_capacity_invariant:
  fixes minCap maxCap xs
  defines "r \<equiv> ring_run (NewAdaptiveRingBuffer minCap maxCap) xs"
  assumes "0 < minCap" and "minCap \<le> maxCap" and "maxCap \<le> MaxInt64"
    and "int (length (log_written xs)) \<le> MaxInt64"
  shows "minCap \<le> Cap r \<and> Cap r \<le> maxCap \<and> Len r \<le> Cap r \<and>
         Head r = int (length (log_written xs)) \<and> Tail r = Head r - Len r \<and> 0 \<le> Tail r"
proof -
  let ?r0 = "NewAdaptiveRingBuffer minCap maxCap"
  have r0: "ring_rep ?r0 []" using assms by (intro NewAdaptiveRingBuffer_rep) simp_all
  have "ring_rep r (log_written xs)"
    using ring_log.log_run_rep [OF r0, of xs] assms by simp
  moreover have "rb_minCap r = minCap" "rb_maxCap r = maxCap"
    using ring_run_bounds [of ?r0 xs] assms by (simp_all add: NewAdaptiveRingBuffer_def)
  ultimately show ?thesis
    by (auto simp: ring_rep_def ring_wf_def Cap_def Head_def Tail_def Len_def)
qed

theorem ring_capacity_invariant_witness:
  "Len (ring_run (NewAdaptiveRingBuffer 2 4) [Inl [1, 2, 3], Inr 2, Inl [4, 5, 6, 7]])
     \<le> Cap (ring_run (NewAdaptiveRingBuffer 2 4) [Inl [1, 2, 3], Inr 2, Inl [4, 5, 6, 7]])"
  using ring_capacity_invariant [of 2 4 "[Inl [1, 2, 3], Inr 2, Inl [4, 5, 6, 7]]"]
  by (simp add: MaxInt64_def)

text \<open>
  C19. Growth avoids eviction: a write that fits the maximum capacity together with what the
  ring holds keeps every byte (the tail does not move); otherwise exactly \<open>maxCap\<close> bytes
  remain. So the adaptive ring evicts no byte that a fixed ring of capacity \<open>maxCap\<close> would keep.
\<close>

theorem Write_evicts_only_beyond_maxCap:
  assumes "ring_rep r h" and "int (length h + length p) \<le> MaxInt64"
  shows "Tail (snd (Write r p)) =
           (if Len r + int (length p) \<le> rb_maxCap r then Tail r else Head r + int (length p) - rb_maxCap r)"
proof -
  from assms(1) have "Head r = int (length h)" "Len r = int (length h) - Tail r"
    by (auto simp: ring_rep_def Head_def Len_def Tail_def)
  then show ?thesis using Write_keeps(2) [OF assms] by auto
qed

theorem Write_evicts_only_beyond_maxCap_witness:
  "Tail (snd (Write (NewAdaptiveRingBuffer 8 64) (replicate 40 0))) = 0"
  using Write_evicts_only_beyond_maxCap [OF NewAdaptiveRingBuffer_rep, of 8 64 "replicate 40 0"]
  by (simp add: MaxInt64_def) (simp add: NewAdaptiveRingBuffer_def Len_def Tail_def)

text \<open>
  \<open>Discard\<close> at or below the tail changes nothing at all: in particular it does not shrink
  the capacity, so repeating the same \<open>Discard\<close> shrinks an idle ring once and never again.
\<close>

theorem Discard_below_tail_noop:
  assumes "before \<le> Tail r"
  shows "Discard r before = r"
  using assms by (simp add: Discard_def Tail_def Let_def)

theorem Discard_below_tail_noop_witness:
  "Discard (Discard (snd (Write (NewAdaptiveRingBuffer 4 64) (replicate 40 0))) 39) 39
     = Discard (snd (Write (NewAdaptiveRingBuffer 4 64) (replicate 40 0))) 39"
proof (rule Discard_below_tail_noop)
  have "ring_rep (snd (Write (NewAdaptiveRingBuffer 4 64) (replicate 40 0))) (replicate 40 0)"
    using Write_keeps(1) [OF NewAdaptiveRingBuffer_rep, of 4 64 "replicate 40 0"]
    by (simp add: MaxInt64_def)
  from Discard_keeps(2) [OF this, of 39]
  show "39 \<le> Tail (Discard (snd (Write (NewAdaptiveRingBuffer 4 64) (replicate 40 0))) 39)" by simp
qed

text \<open>
  \<open>Discard\<close> past the head is not a no-op: it drops every byte the ring holds, while the
  head stays where it is.
\<close>

theorem Discard_past_head_empties:
  assumes "ring_rep r h" and "Head r \<le> before"
  shows "Len (Discard r before) = 0 \<and> Head (Discard r before) = Head r \<and>
         Tail (Discard r before) = Head r"
proof -
  from assms(1) have "Head r = int (length h)" "Tail r \<le> Head r"
    by (auto simp: ring_rep_def Head_def Tail_def)
  moreover have "Head (Discard r before) = Head r"
    by (simp add: Head_def Discard_def Let_def)
  ultimately show ?thesis using Discard_keeps(2) [OF assms(1), of before] assms(2)
    by (simp add: Tail_def Head_def Len_def)
qed

theorem Discard_past_head_empties_witness:
  "Len (Discard (snd (Write (NewRingBuffer 64) (replicate 11 7))) 100) = 0"
proof -
  have "ring_rep (snd (Write (NewRingBuffer 64) (replicate 11 7))) (replicate 11 7)"
    using Write_keeps(1) [OF NewRingBuffer_rep, of 64 "replicate 11 7"] by (simp add: MaxInt64_def)
  moreover from this have "Head (snd (Write (NewRingBuffer 64) (replicate 11 7))) \<le> 100"
    by (simp add: ring_rep_def Head_def)
  ultimately show ?thesis using Discard_past_head_empties by blast
qed

end
