(* ===== verification/Resume.thy ===== *)
theory Resume
  imports Ring
begin

text \<open>
  Per-stream resume state (\<open>lib/resume/stream.go\<close>).
  The state bundles a ring with three counters; its correctness is that a resumed stream
  loses and repeats nothing. The lemmas use the ring through the facts of the
  locale \<open>resend_log\<close>. The counters are atomics and the ring is behind its mutex; a run is a
  sequence of calls, in the order in which the agent's per-stream goroutines make them.
\<close>

subsection \<open>Counters and state\<close>

definition CheckpointPeriodMs :: int where "CheckpointPeriodMs = 100"

record Counters =
  SentPos :: int
  RecvPos :: int
  PeerAckPos :: int

record ResumeState =
  rs_id :: "64 word"
  rs_ring :: RingBuffer
  rs_counters :: Counters

definition NewState :: "64 word \<Rightarrow> int \<Rightarrow> ResumeState" where
  "NewState i ringCap =
     \<lparr>rs_id = i, rs_ring = NewRingBuffer ringCap,
      rs_counters = \<lparr>SentPos = 0, RecvPos = 0, PeerAckPos = 0\<rparr>\<rparr>"

definition Sent :: "ResumeState \<Rightarrow> int" where "Sent s = SentPos (rs_counters s)"
definition Received :: "ResumeState \<Rightarrow> int" where "Received s = RecvPos (rs_counters s)"
definition PeerAck :: "ResumeState \<Rightarrow> int" where "PeerAck s = PeerAckPos (rs_counters s)"

definition OnWrite :: "ResumeState \<Rightarrow> byte list \<Rightarrow> ResumeState" where
  "OnWrite s p =
     (if length p = 0 then s
      else (let s = s\<lparr>rs_ring := snd (Write (rs_ring s) p)\<rparr>
            in s\<lparr>rs_counters := (rs_counters s)\<lparr>SentPos := i64 (SentPos (rs_counters s) + int (length p))\<rparr>\<rparr>))"

definition OnRead :: "ResumeState \<Rightarrow> int \<Rightarrow> ResumeState" where
  "OnRead s n =
     (if n \<le> 0 then s
      else s\<lparr>rs_counters := (rs_counters s)\<lparr>RecvPos := i64 (RecvPos (rs_counters s) + n)\<rparr>\<rparr>)"

definition OnCheckpointFromPeer :: "ResumeState \<Rightarrow> int \<Rightarrow> ResumeState" where
  "OnCheckpointFromPeer s peerAck =
     (let prev = PeerAckPos (rs_counters s) in
      if peerAck > prev then
        (let s = s\<lparr>rs_counters := (rs_counters s)\<lparr>PeerAckPos := peerAck\<rparr>\<rparr>
         in s\<lparr>rs_ring := Discard (rs_ring s) peerAck\<rparr>)
      else s)"

definition ResumePayload :: "ResumeState \<Rightarrow> int \<times> int" where
  "ResumePayload s = (Sent s, Received s)"

definition RetransmitFrom :: "ResumeState \<Rightarrow> int \<Rightarrow> byte list res" where
  "RetransmitFrom s peerPos = BytesFrom (rs_ring s) peerPos"

subsection \<open>Runs of a stream\<close>

datatype resume_event = EvWrite "byte list" | EvRead int | EvCheckpoint int

fun resume_step :: "ResumeState \<Rightarrow> resume_event \<Rightarrow> ResumeState" where
  "resume_step s (EvWrite p) = OnWrite s p"
| "resume_step s (EvRead n) = OnRead s n"
| "resume_step s (EvCheckpoint a) = OnCheckpointFromPeer s a"

definition resume_run :: "ResumeState \<Rightarrow> resume_event list \<Rightarrow> ResumeState" where
  "resume_run s es = foldl resume_step s es"

fun written :: "resume_event list \<Rightarrow> byte list" where
  "written [] = []"
| "written (EvWrite p # es) = p @ written es"
| "written (_ # es) = written es"

fun consumed :: "resume_event list \<Rightarrow> int" where
  "consumed [] = 0"
| "consumed (EvRead n # es) = max 0 n + consumed es"
| "consumed (_ # es) = consumed es"

text \<open>What the events do to the ring, as a sequence of log operations.\<close>

fun ring_ops :: "int \<Rightarrow> resume_event list \<Rightarrow> (byte list + int) list" where
  "ring_ops ack [] = []"
| "ring_ops ack (EvWrite p # es) = (if p = [] then [] else [Inl p]) @ ring_ops ack es"
| "ring_ops ack (EvRead n # es) = ring_ops ack es"
| "ring_ops ack (EvCheckpoint a # es) = (if a > ack then Inr a # ring_ops a es else ring_ops ack es)"

lemma resume_run_simps [simp]:
  "resume_run s [] = s" "resume_run s (e # es) = resume_run (resume_step s e) es"
  by (simp_all add: resume_run_def)

lemma resume_run_ring:
  "rs_ring (resume_run s es) = ring_run (rs_ring s) (ring_ops (PeerAck s) es)"
proof (induction es arbitrary: s)
  case (Cons e es)
  then show ?case
    by (cases e) (auto simp: OnWrite_def OnRead_def OnCheckpointFromPeer_def Let_def PeerAck_def)
qed simp

lemma ring_ops_written: "log_written (ring_ops ack es) = written es"
  by (induction ack es rule: ring_ops.induct) auto

lemma ring_ops_discards: "Inr b \<in> set (ring_ops ack es) \<Longrightarrow> EvCheckpoint b \<in> set es"
  by (induction ack es rule: ring_ops.induct) (auto split: if_splits)

lemma NewState_simps [simp]:
  "rs_ring (NewState i c) = NewRingBuffer c" "PeerAck (NewState i c) = 0" "Sent (NewState i c) = 0"
  "Received (NewState i c) = 0"
  by (simp_all add: NewState_def PeerAck_def Sent_def Received_def)

lemma NewRingBuffer_simps [simp]:
  "0 < c \<Longrightarrow> rb_maxCap (NewRingBuffer c) = c" "Tail (NewRingBuffer c) = 0"
  by (simp_all add: NewRingBuffer_def Tail_def Let_def)

lemma RetransmitFrom_retained:
  assumes "0 < ringCap" and "ringCap \<le> MaxInt64" and "int (length (written es)) \<le> MaxInt64"
    and "0 \<le> pos" and "\<And>a. EvCheckpoint a \<in> set es \<Longrightarrow> a \<le> pos"
    and "int (length (written es)) - pos \<le> ringCap"
  shows "RetransmitFrom (resume_run (NewState i ringCap) es) pos = Inr (drop (nat pos) (written es))"
proof -
  have r0: "ring_rep (NewRingBuffer ringCap) []" using assms(2) by (rule NewRingBuffer_rep)
  have "BytesFrom (ring_run (NewRingBuffer ringCap) (ring_ops 0 es)) pos
      = Inr (drop (nat pos) ([] @ log_written (ring_ops 0 es)))"
    using assms ring_ops_discards
    by (intro ring_log.bytes_complete [OF r0]) (auto simp: ring_ops_written)
  then show ?thesis by (simp add: RetransmitFrom_def resume_run_ring ring_ops_written)
qed

text \<open>
  Resume is complete: as long as the peer has acknowledged nothing beyond what it asks
  for and the unacknowledged bytes fit the ring, \<open>RetransmitFrom\<close> gives exactly the bytes
  written from that position on, after any interleaving of writes, reads and checkpoints.
\<close>

theorem RetransmitFrom_complete:
  assumes "0 < ringCap" and "ringCap \<le> MaxInt64" and "int (length (written es)) \<le> MaxInt64"
    and "0 \<le> pos" and "\<And>a. EvCheckpoint a \<in> set es \<Longrightarrow> a \<le> pos"
    and "int (length (written es)) - pos \<le> ringCap"
  shows "RetransmitFrom (resume_run (NewState i ringCap) es) pos = Inr (drop (nat pos) (written es))"
  using assms by (rule RetransmitFrom_retained)

theorem RetransmitFrom_complete_witness:
  "RetransmitFrom (resume_run (NewState 7 64)
     [EvWrite [1, 2, 3], EvRead 5, EvCheckpoint 2, EvWrite [4, 5]]) 3 = Inr [4, 5]"
  using RetransmitFrom_complete [of 64 "[EvWrite [1, 2, 3], EvRead 5, EvCheckpoint 2, EvWrite [4, 5]]" 3 7]
  by (simp add: MaxInt64_def)

lemma resume_run_rep:
  assumes "ringCap \<le> MaxInt64" and "int (length (written es)) \<le> MaxInt64"
  shows "ring_rep (rs_ring (resume_run (NewState i ringCap) es)) (written es)"
  using ring_log.log_run_rep [OF NewRingBuffer_rep [OF assms(1)], of "ring_ops 0 es"] assms(2)
  by (simp add: resume_run_ring ring_ops_written)

text \<open>
  Resume is sound: \<open>RetransmitFrom\<close> never hands out wrong bytes. Whatever checkpoints the
  peer sends (stale, repeated, beyond the end), a successful answer for a position is the
  stream from that position to the end, and the only error is \<open>ErrBeforeRing\<close>.
\<close>

theorem RetransmitFrom_sound:
  assumes "ringCap \<le> MaxInt64" and "int (length (written es)) \<le> MaxInt64"
  shows "RetransmitFrom (resume_run (NewState i ringCap) es) pos
           \<in> {Inl ErrBeforeRing, Inr (drop (nat pos) (written es))}"
proof -
  note rep = resume_run_rep [OF assms, of i]
  show ?thesis
  proof (cases "pos < Tail (rs_ring (resume_run (NewState i ringCap) es))")
    case True
    with ring_log.bytes_before [OF rep] show ?thesis by (simp add: RetransmitFrom_def)
  next
    case False
    with ring_log.bytes_in [OF rep] show ?thesis by (simp add: RetransmitFrom_def)
  qed
qed

theorem RetransmitFrom_sound_witness:
  "RetransmitFrom (resume_run (NewState 7 2) [EvWrite [1, 2, 3], EvCheckpoint 9, EvWrite [4]]) 0
     \<in> {Inl ErrBeforeRing, Inr [1, 2, 3, 4]}"
  using RetransmitFrom_sound [of 2 "[EvWrite [1, 2, 3], EvCheckpoint 9, EvWrite [4]]" 7 0]
  by (simp add: MaxInt64_def)

subsection \<open>Counters\<close>

lemma Sent_run:
  assumes "int (length (written es)) + Sent s \<le> MaxInt64" and "0 \<le> Sent s"
  shows "Sent (resume_run s es) = Sent s + int (length (written es))"
  using assms
proof (induction es arbitrary: s)
  case (Cons e es)
  have step: "Sent (resume_step s e) = Sent s + int (length (written [e]))"
    using Cons.prems
    by (cases e) (auto simp: OnWrite_def OnRead_def OnCheckpointFromPeer_def Let_def Sent_def i64_nonneg)
  have app: "written (e # es) = written [e] @ written es" by (cases e) simp_all
  from Cons.IH [of "resume_step s e"] Cons.prems step app show ?case by simp
qed simp

lemma consumed_nonneg: "0 \<le> consumed es"
  by (induction es rule: consumed.induct) auto

lemma Received_run:
  assumes "consumed es + Received s \<le> MaxInt64" and "0 \<le> Received s"
  shows "Received (resume_run s es) = Received s + consumed es"
  using assms
proof (induction es arbitrary: s)
  case (Cons e es)
  have app: "consumed (e # es) = consumed [e] + consumed es" by (cases e) simp_all
  have step: "Received (resume_step s e) = Received s + consumed [e]"
    using Cons.prems app consumed_nonneg [of es]
    by (cases e)
       (auto simp: OnWrite_def OnRead_def OnCheckpointFromPeer_def Let_def Received_def max_def i64_nonneg)
  from Cons.IH [of "resume_step s e"] Cons.prems step app consumed_nonneg [of "[e]"] show ?case by simp
qed simp

text \<open>
  Failover is exactly-once: two agents run a stream, the receiver has consumed a prefix of
  what the sender wrote and its checkpoints never claimed more than that. After the
  reconnect the receiver's \<open>ResumePayload\<close> names the position, and appending what the sender's
  \<open>RetransmitFrom\<close> returns for it to what the receiver already has gives the sender's stream:
  nothing is lost, nothing is delivered twice.
\<close>

theorem failover_exactly_once:
  fixes snd_events rcv_events i ringCap ringCap'
  defines "sender \<equiv> resume_run (NewState i ringCap) snd_events"
    and "receiver \<equiv> resume_run (NewState i ringCap') rcv_events"
  assumes "0 < ringCap" and "ringCap \<le> MaxInt64" and "int (length (written snd_events)) \<le> MaxInt64"
    and prefix: "consumed rcv_events \<le> int (length (written snd_events))"
    and honest: "\<And>a. EvCheckpoint a \<in> set snd_events \<Longrightarrow> a \<le> consumed rcv_events"
    and room: "int (length (written snd_events)) - consumed rcv_events \<le> ringCap"
  shows "\<exists>gap. RetransmitFrom sender (snd (ResumePayload receiver)) = Inr gap \<and>
           take (nat (consumed rcv_events)) (written snd_events) @ gap = written snd_events \<and>
           fst (ResumePayload sender) = int (length (written snd_events))"
proof -
  have "Received receiver = consumed rcv_events"
    using Received_run [of rcv_events "NewState i ringCap'"] assms by simp
  moreover have "Sent sender = int (length (written snd_events))"
    using Sent_run [of snd_events "NewState i ringCap"] assms by simp
  moreover have "RetransmitFrom sender (consumed rcv_events)
      = Inr (drop (nat (consumed rcv_events)) (written snd_events))"
    unfolding sender_def using assms consumed_nonneg by (intro RetransmitFrom_retained) simp_all
  ultimately show ?thesis by (simp add: ResumePayload_def)
qed

theorem failover_exactly_once_witness:
  "\<exists>gap. RetransmitFrom
       (resume_run (NewState 7 64) [EvWrite [1, 2, 3], EvCheckpoint 1, EvWrite [4, 5]])
       (snd (ResumePayload (resume_run (NewState 7 64) [EvRead 1, EvWrite [9], EvRead 1]))) = Inr gap \<and>
     take (nat (consumed [EvRead 1, EvWrite [9], EvRead 1])) [1, 2, 3, 4, 5] @ gap = [1, 2, 3, 4, 5]"
  using failover_exactly_once [of 64 "[EvWrite [1, 2, 3], EvCheckpoint 1, EvWrite [4, 5]]"
      "[EvRead 1, EvWrite [9], EvRead 1]" 7 64]
  by (simp add: MaxInt64_def)

text \<open>
  A checkpoint beyond what was sent is believed: it empties the ring, so bytes the peer
  never received can no longer be retransmitted, and it is remembered as \<open>PeerAckPos\<close>, so
  later honest checkpoints are ignored until they exceed it.
\<close>

theorem OnCheckpoint_beyond_sent_loses_data:
  assumes "ringCap \<le> MaxInt64" and "int (length (written es)) \<le> MaxInt64"
    and "\<And>b. EvCheckpoint b \<in> set es \<Longrightarrow> b < a" and "0 < a"
    and "int (length (written es)) \<le> a" and "pos < int (length (written es))"
  shows "RetransmitFrom (resume_run (NewState i ringCap) (es @ [EvCheckpoint a])) pos = Inl ErrBeforeRing \<and>
         (\<forall>b \<le> a. OnCheckpointFromPeer (resume_run (NewState i ringCap) (es @ [EvCheckpoint a])) b
                    = resume_run (NewState i ringCap) (es @ [EvCheckpoint a]))"
proof -
  let ?s = "resume_run (NewState i ringCap) es"
  have ack: "PeerAck (resume_run s es) < a" if "PeerAck s < a" "\<And>b. EvCheckpoint b \<in> set es \<Longrightarrow> b < a" for s es
    using that
  proof (induction es arbitrary: s)
    case (Cons e es)
    have "PeerAck (resume_step s e) < a"
      using Cons.prems
      by (cases e) (auto simp: OnWrite_def OnRead_def OnCheckpointFromPeer_def Let_def PeerAck_def)
    with Cons show ?case by simp
  qed simp
  have "PeerAck ?s < a" using assms by (intro ack) simp_all
  then have s': "resume_run (NewState i ringCap) (es @ [EvCheckpoint a])
      = (?s\<lparr>rs_counters := (rs_counters ?s)\<lparr>PeerAckPos := a\<rparr>\<rparr>)\<lparr>rs_ring := Discard (rs_ring ?s) a\<rparr>"
    by (simp add: resume_run_def OnCheckpointFromPeer_def Let_def PeerAck_def)
  note rep = resume_run_rep [OF assms(1,2), of i]
  have "Tail (Discard (rs_ring ?s) a) = int (length (written es))"
    using Discard_keeps(2) [OF rep, of a] ring_log.tail_range [OF rep] assms by simp
  then have "BytesFrom (Discard (rs_ring ?s) a) pos = Inl ErrBeforeRing"
    using ring_log.bytes_before [OF Discard_keeps(1) [OF rep, of a]] assms by simp
  then show ?thesis by (auto simp: s' RetransmitFrom_def OnCheckpointFromPeer_def Let_def)
qed

theorem OnCheckpoint_beyond_sent_loses_data_witness:
  "RetransmitFrom (resume_run (NewState 7 64) [EvWrite [1, 2, 3], EvCheckpoint 100]) 0 = Inl ErrBeforeRing"
  using OnCheckpoint_beyond_sent_loses_data [of 64 "[EvWrite [1, 2, 3]]" 100 0 7]
  by (simp add: MaxInt64_def)

end
