(* ===== verification/Resume_Concurrent.thy ===== *)
theory Resume_Concurrent
  imports Resume
begin

text \<open>
  The resume state of a stream under concurrent calls. The counters of \<open>lib/resume/stream.go\<close> are atomics
  "shared between the data-plane goroutines and the control-plane sender" and the ring has a mutex of
  its own, so what is atomic is one load, one add or store of a counter, and one call of the ring. A
  write is the write to the ring and the add to \<open>SentPos\<close>; a checkpoint is the load and the test, the
  store, and the discard; a resume payload is two loads. A schedule is any sequence of actions of any
  calls.
\<close>

subsection \<open>Actions\<close>

datatype stream_call =
    CSent nat \<comment> \<open>in the ring, not yet counted\<close>
  | CStore int \<comment> \<open>ahead of the loaded position, not yet stored\<close>
  | CDiscard int \<comment> \<open>stored, not yet freed\<close>
  | CRecv int \<comment> \<open>a payload with its first position\<close>

text \<open>
  \<open>ss_payloads\<close> are the results of \<open>ResumePayload\<close>. The rest are ghosts: what the ring was asked to do, the
  positions of all checkpoints and the number of bytes read.
\<close>

record stream_sys =
  ss_state :: ResumeState
  ss_calls :: "stream_call list"
  ss_payloads :: "(int \<times> int) list"
  ss_ops :: "(byte list + int) list"
  ss_acks :: "int list"
  ss_reads :: int

datatype stream_label =
    SWrite "byte list"
  | SRead int
  | SCheckpoint int
  | SPayload
  | SContinue nat \<comment> \<open>the next action of a pending call\<close>

fun stream_continue :: "stream_call \<Rightarrow> stream_sys \<Rightarrow> stream_sys" where
  "stream_continue (CSent n) y =
     (let s = ss_state y
      in y\<lparr>ss_state := s\<lparr>rs_counters := (rs_counters s)\<lparr>SentPos := i64 (SentPos (rs_counters s) + int n)\<rparr>\<rparr>\<rparr>)"
| "stream_continue (CStore a) y =
     (let s = ss_state y
      in y\<lparr>ss_state := s\<lparr>rs_counters := (rs_counters s)\<lparr>PeerAckPos := a\<rparr>\<rparr>, ss_calls := ss_calls y @ [CDiscard a]\<rparr>)"
| "stream_continue (CDiscard a) y =
     (let s = ss_state y in y\<lparr>ss_state := s\<lparr>rs_ring := Discard (rs_ring s) a\<rparr>, ss_ops := ss_ops y @ [Inr a]\<rparr>)"
| "stream_continue (CRecv m) y = y\<lparr>ss_payloads := ss_payloads y @ [(m, Received (ss_state y))]\<rparr>"

fun stream_exec :: "stream_label \<Rightarrow> stream_sys \<Rightarrow> stream_sys" where
  "stream_exec (SWrite p) y =
     (if length p = 0 then y
      else (let s = ss_state y
            in y\<lparr>ss_state := s\<lparr>rs_ring := snd (Write (rs_ring s) p)\<rparr>, ss_calls := ss_calls y @ [CSent (length p)],
                 ss_ops := ss_ops y @ [Inl p]\<rparr>))"
| "stream_exec (SRead n) y = y\<lparr>ss_state := OnRead (ss_state y) n, ss_reads := ss_reads y + max 0 n\<rparr>"
| "stream_exec (SCheckpoint peerAck) y =
     (let prev = PeerAckPos (rs_counters (ss_state y)); y = y\<lparr>ss_acks := peerAck # ss_acks y\<rparr>
      in if peerAck > prev then y\<lparr>ss_calls := ss_calls y @ [CStore peerAck]\<rparr> else y)"
| "stream_exec SPayload y = y\<lparr>ss_calls := ss_calls y @ [CRecv (Sent (ss_state y))]\<rparr>"
| "stream_exec (SContinue k) y =
     (if k < length (ss_calls y)
      then stream_continue (ss_calls y ! k) (y\<lparr>ss_calls := drop_nth k (ss_calls y)\<rparr>)
      else y)"

definition stream_init :: "64 word \<Rightarrow> int \<Rightarrow> stream_sys" where
  "stream_init i ringCap =
     \<lparr>ss_state = NewState i ringCap, ss_calls = [], ss_payloads = [], ss_ops = [], ss_acks = [], ss_reads = 0\<rparr>"

definition stream_run :: "64 word \<Rightarrow> int \<Rightarrow> stream_label list \<Rightarrow> stream_sys" where
  "stream_run i ringCap ls = fold stream_exec ls (stream_init i ringCap)"

text \<open>The bytes of the stream, in the order in which they entered the ring.\<close>

abbreviation stream_log :: "stream_sys \<Rightarrow> byte list" where
  "stream_log y \<equiv> log_written (ss_ops y)"

fun uncounted :: "stream_call list \<Rightarrow> nat" where
  "uncounted [] = 0"
| "uncounted (CSent n # cs) = n + uncounted cs"
| "uncounted (_ # cs) = uncounted cs"

subsection \<open>Invariant\<close>

fun call_ok :: "stream_sys \<Rightarrow> stream_call \<Rightarrow> bool" where
  "call_ok y (CStore a) \<longleftrightarrow> a \<in> set (ss_acks y)"
| "call_ok y (CDiscard a) \<longleftrightarrow> a \<in> set (ss_acks y)"
| "call_ok y (CRecv m) \<longleftrightarrow> (\<exists>n \<le> length (stream_log y). m = i64 (int n))"
| "call_ok y _ \<longleftrightarrow> True"

definition payload_ok :: "stream_sys \<Rightarrow> int \<times> int \<Rightarrow> bool" where
  "payload_ok y p \<longleftrightarrow> (\<exists>n \<le> length (stream_log y). fst p = i64 (int n)) \<and> (\<exists>r \<ge> 0. r \<le> ss_reads y \<and> snd p = i64 r)"

definition stream_inv :: "int \<Rightarrow> stream_sys \<Rightarrow> bool" where
  "stream_inv ringCap y \<longleftrightarrow>
     rs_ring (ss_state y) = ring_run (NewRingBuffer ringCap) (ss_ops y) \<and>
     uncounted (ss_calls y) \<le> length (stream_log y) \<and>
     Sent (ss_state y) = i64 (int (length (stream_log y) - uncounted (ss_calls y))) \<and>
     0 \<le> ss_reads y \<and> Received (ss_state y) = i64 (ss_reads y) \<and>
     (\<forall>a. Inr a \<in> set (ss_ops y) \<longrightarrow> a \<in> set (ss_acks y)) \<and>
     (\<forall>c \<in> set (ss_calls y). call_ok y c) \<and> (\<forall>p \<in> set (ss_payloads y). payload_ok y p)"

lemma log_run_append: "log_run put discard r (xs @ ys) = log_run put discard (log_run put discard r xs) ys"
  by (induction xs arbitrary: r) simp_all

lemma log_written_append [simp]: "log_written (xs @ ys) = log_written xs @ log_written ys"
  by (induction xs) simp_all

lemma uncounted_append [simp]: "uncounted (xs @ ys) = uncounted xs + uncounted ys"
  by (induction xs rule: uncounted.induct) simp_all

lemma uncounted_nth:
  assumes "k < length cs"
  shows "uncounted cs = uncounted [cs ! k] + uncounted (drop_nth k cs)"
  unfolding drop_nth_def by (subst id_take_nth_drop [OF assms]) (cases "cs ! k"; simp)

text \<open>The positions of earlier calls and payloads stay what they are when the stream grows.\<close>

definition stream_extends :: "stream_sys \<Rightarrow> stream_sys \<Rightarrow> bool" where
  "stream_extends y y' \<longleftrightarrow> length (stream_log y) \<le> length (stream_log y') \<and> set (ss_acks y) \<subseteq> set (ss_acks y') \<and> ss_reads y \<le> ss_reads y'"

lemma extends_ok:
  assumes "stream_extends y y'"
  shows "call_ok y c \<Longrightarrow> call_ok y' c" and "payload_ok y p \<Longrightarrow> payload_ok y' p"
proof -
  show "call_ok y' c" if "call_ok y c" using assms that by (cases c) (auto simp: stream_extends_def intro: order_trans)
  show "payload_ok y' p" if "payload_ok y p"
    using assms that unfolding payload_ok_def stream_extends_def by (meson order_trans)
qed

lemma log_run_snoc [simp]:
  "log_run put discard r (xs @ [Inl p]) = put (log_run put discard r xs) p"
  "log_run put discard r (xs @ [Inr a]) = discard (log_run put discard r xs) a"
  by (simp_all add: log_run_append)

lemma stream_inv_start:
  assumes "stream_inv ringCap y" and "\<nexists>k. l = SContinue k"
  shows "stream_inv ringCap (stream_exec l y)"
proof -
  let ?y = "stream_exec l y"
  have ext: "stream_extends y ?y" using assms(2) by (cases l) (auto simp: stream_extends_def Let_def)
  have old: "\<forall>c \<in> set (ss_calls y). call_ok ?y c" "\<forall>p \<in> set (ss_payloads y). payload_ok ?y p"
    using assms(1) extends_ok [OF ext] by (auto simp: stream_inv_def)
  have sent: "\<exists>n \<le> length (stream_log y). Sent (ss_state y) = i64 (int n)"
    using assms(1) unfolding stream_inv_def by (metis diff_le_self)
  show ?thesis
  proof (cases l)
    case (SRead n)
    have "Received (OnRead (ss_state y) n) = i64 (ss_reads y + max 0 n)"
      using assms(1) by (auto simp: stream_inv_def OnRead_def Received_def max_def i64_add_left)
    then show ?thesis using assms(1) old SRead by (simp add: stream_inv_def) (simp add: OnRead_def Sent_def)
  next
    case (SWrite p)
    then show ?thesis using assms(1) old by (auto simp: stream_inv_def Let_def Sent_def Received_def)
  next
    case (SCheckpoint a)
    then show ?thesis using assms(1) old by (auto simp: stream_inv_def Let_def)
  next
    case SPayload
    then show ?thesis using assms(1) old sent by (auto simp: stream_inv_def)
  qed (use assms(2) in simp)
qed

text \<open>Counting a write that was not counted yet keeps the counter at the stream's length less the uncounted ones.\<close>

lemma count_write:
  assumes "n + u \<le> (l :: nat)"
  shows "i64 (i64 (int (l - (n + u))) + int n) = i64 (int (l - u))"
proof -
  have "int (l - (n + u)) + int n = int (l - u)" using assms by linarith
  then show ?thesis by (simp only: i64_add_left)
qed

lemma stream_inv_continue:
  assumes "stream_inv ringCap y" and k: "k < length (ss_calls y)"
  shows "stream_inv ringCap (stream_exec (SContinue k) y)"
proof -
  let ?y = "stream_exec (SContinue k) y" and ?rest = "drop_nth k (ss_calls y)"
  have ext: "stream_extends y ?y" using k by (cases "ss_calls y ! k") (auto simp: stream_extends_def Let_def)
  have rest: "\<forall>c \<in> set ?rest. call_ok ?y c"
    using assms(1) extends_ok(1) [OF ext] by (auto simp: stream_inv_def dest: in_drop_nth)
  have pay: "\<forall>p \<in> set (ss_payloads y). payload_ok ?y p"
    using assms(1) extends_ok(2) [OF ext] by (auto simp: stream_inv_def)
  have c: "call_ok y (ss_calls y ! k)" using assms(1) k by (simp add: stream_inv_def)
  note u = uncounted_nth [OF k]
  have I: "rs_ring (ss_state y) = ring_run (NewRingBuffer ringCap) (ss_ops y)"
    "uncounted (ss_calls y) \<le> length (stream_log y)"
    "Sent (ss_state y) = i64 (int (length (stream_log y) - uncounted (ss_calls y)))"
    "0 \<le> ss_reads y" "Received (ss_state y) = i64 (ss_reads y)" "\<forall>a. Inr a \<in> set (ss_ops y) \<longrightarrow> a \<in> set (ss_acks y)"
    using assms(1) by (simp_all add: stream_inv_def)
  show ?thesis
  proof (cases "ss_calls y ! k")
    case (CSent n)
    have y: "?y = stream_continue (CSent n) (y\<lparr>ss_calls := ?rest\<rparr>)" using k CSent by simp
    have le: "n + uncounted ?rest \<le> length (stream_log y)" using I(2) u CSent by simp
    from count_write [OF le] show ?thesis using I le rest pay u CSent unfolding y
      by (auto simp: stream_inv_def Let_def Sent_def Received_def)
  next
    case (CStore a)
    have y: "?y = stream_continue (CStore a) (y\<lparr>ss_calls := ?rest\<rparr>)" using k CStore by simp
    show ?thesis using I rest pay u c CStore unfolding y
      by (auto simp: stream_inv_def Let_def Sent_def Received_def)
  next
    case (CDiscard a)
    have y: "?y = stream_continue (CDiscard a) (y\<lparr>ss_calls := ?rest\<rparr>)" using k CDiscard by simp
    show ?thesis using I rest pay u c CDiscard unfolding y
      by (auto simp: stream_inv_def Let_def Sent_def Received_def)
  next
    case (CRecv m)
    have y: "?y = stream_continue (CRecv m) (y\<lparr>ss_calls := ?rest\<rparr>)" using k CRecv by simp
    have "payload_ok ?y (m, Received (ss_state y))" using c I(4,5) CRecv unfolding y by (auto simp: payload_ok_def)
    then show ?thesis using I rest pay u CRecv unfolding y
      by (auto simp: stream_inv_def)
  qed
qed

interpretation streaming: interleaving stream_exec "stream_inv ringCap"
proof
  fix y l assume y: "stream_inv ringCap y"
  show "stream_inv ringCap (stream_exec l y)"
  proof (cases "\<exists>k. l = SContinue k")
    case True
    then obtain k where "l = SContinue k" by blast
    then show ?thesis using stream_inv_continue [OF y, of k] y by (cases "k < length (ss_calls y)") simp_all
  next
    case False
    then show ?thesis by (rule stream_inv_start [OF y])
  qed
qed

lemma stream_inv_run: "stream_inv ringCap (stream_run i ringCap ls)"
  unfolding stream_run_def by (rule streaming.run) (simp add: stream_inv_def stream_init_def i64_def)

subsection \<open>Properties\<close>

text \<open>
  C17. Resume is sound under every interleaving of the calls of a stream: whatever checkpoints arrive and
  however the actions of writes, reads, checkpoints and payloads interleave, \<open>RetransmitFrom\<close> answers
  with the stream from the position on (the bytes in the order in which they entered the ring) or with
  \<open>ErrBeforeRing\<close>; \<open>SentPos\<close> is behind the stream by exactly the bytes of the writes that are not yet
  counted; and no \<open>ResumePayload\<close> has claimed more than was written or more than was read.
\<close>

theorem resume_concurrent_sound:
  fixes i ringCap ls
  defines "y \<equiv> stream_run i ringCap ls"
  assumes "ringCap \<le> MaxInt64" and "int (length (stream_log y)) \<le> MaxInt64" and "ss_reads y \<le> MaxInt64"
  shows "RetransmitFrom (ss_state y) pos \<in> {Inl ErrBeforeRing, Inr (drop (nat pos) (stream_log y))} \<and>
         Sent (ss_state y) = int (length (stream_log y)) - int (uncounted (ss_calls y)) \<and>
         list_all (\<lambda>(m, r). 0 \<le> m \<and> m \<le> int (length (stream_log y)) \<and> 0 \<le> r \<and> r \<le> ss_reads y) (ss_payloads y)"
proof (intro conjI)
  have inv: "stream_inv ringCap y" unfolding y_def by (rule stream_inv_run)
  have rep: "ring_rep (rs_ring (ss_state y)) (stream_log y)"
    using ring_log.log_run_rep [OF NewRingBuffer_rep [OF assms(2)], of "ss_ops y"] inv assms(3) by (simp add: stream_inv_def)
  show "RetransmitFrom (ss_state y) pos \<in> {Inl ErrBeforeRing, Inr (drop (nat pos) (stream_log y))}"
    using ring_log.bytes_before [OF rep, of pos] ring_log.bytes_in [OF rep, of pos]
    by (cases "pos < Tail (rs_ring (ss_state y))") (simp_all add: RetransmitFrom_def)
  have id: "i64 k = k" if "0 \<le> k" "k \<le> MaxInt64" for k using that by (simp add: i64_nonneg)
  show "Sent (ss_state y) = int (length (stream_log y)) - int (uncounted (ss_calls y))"
    using inv assms(3) by (simp add: stream_inv_def id of_nat_diff)
  show "list_all (\<lambda>(m, r). 0 \<le> m \<and> m \<le> int (length (stream_log y)) \<and> 0 \<le> r \<and> r \<le> ss_reads y) (ss_payloads y)"
    using inv assms(3,4) by (auto simp: stream_inv_def list_all_iff payload_ok_def id)
qed

text \<open>Two writes, the second counted first, with a payload and a checkpoint in between.\<close>

definition stream_demo :: "stream_label list" where
  "stream_demo = [SWrite [1, 2], SWrite [3], SContinue 1, SPayload, SRead 4, SCheckpoint 1, SContinue 2, SContinue 2, SContinue 1]"

lemma stream_demo_state:
  "ss_calls (stream_run 7 64 stream_demo) = [CSent 2] \<and> stream_log (stream_run 7 64 stream_demo) = [1, 2, 3] \<and>
   ss_reads (stream_run 7 64 stream_demo) = 4 \<and> ss_acks (stream_run 7 64 stream_demo) = [1] \<and>
   ss_payloads (stream_run 7 64 stream_demo) = [(1, 4)]"
  by (simp add: stream_demo_def stream_run_def stream_init_def NewState_def NewRingBuffer_def OnRead_def Sent_def Received_def
      i64_def Let_def)

theorem resume_concurrent_sound_witness:
  "RetransmitFrom (ss_state (stream_run 7 64 stream_demo)) 2 \<in> {Inl ErrBeforeRing, Inr [3]} \<and>
   Sent (ss_state (stream_run 7 64 stream_demo)) = 1"
  using resume_concurrent_sound [of 64 7 stream_demo 2] stream_demo_state by (simp add: MaxInt64_def)

text \<open>
  C3. Failover is exactly-once under concurrency: the sender's stream is used by any schedule of calls, the
  receiver's by any other. If the position a \<open>ResumePayload\<close> of the receiver has named is within the
  sender's stream, no checkpoint the sender got claims more than it and the bytes beyond it fit the ring,
  then \<open>RetransmitFrom\<close> for that position gives the missing bytes: appended to what the receiver has,
  they are the sender's stream.
\<close>

theorem failover_concurrent:
  fixes i ringCap ls
  defines "y \<equiv> stream_run i ringCap ls"
  assumes "0 < ringCap" and "ringCap \<le> MaxInt64" and "int (length (stream_log y)) \<le> MaxInt64"
    and "(m, pos) \<in> set (ss_payloads (stream_run i ringCap' ls'))" and "ss_reads (stream_run i ringCap' ls') \<le> MaxInt64"
    and "pos \<le> int (length (stream_log y))" and honest: "\<And>a. a \<in> set (ss_acks y) \<Longrightarrow> a \<le> pos"
    and room: "int (length (stream_log y)) - pos \<le> ringCap"
  shows "0 \<le> pos \<and> (\<exists>gap. RetransmitFrom (ss_state y) pos = Inr gap \<and> take (nat pos) (stream_log y) @ gap = stream_log y)"
proof -
  let ?z = "stream_run i ringCap' ls'"
  have inv: "stream_inv ringCap y" unfolding y_def by (rule stream_inv_run)
  obtain r where r: "0 \<le> r" "r \<le> ss_reads ?z" "pos = i64 r"
    using stream_inv_run [of ringCap' i ls'] assms(5) by (auto simp: stream_inv_def payload_ok_def)
  then have p: "0 \<le> pos" using assms(6) by (simp add: i64_nonneg)
  have acks: "\<forall>b. Inr b \<in> set (ss_ops y) \<longrightarrow> b \<le> pos" using inv honest by (auto simp: stream_inv_def)
  have "BytesFrom (ring_run (NewRingBuffer ringCap) (ss_ops y)) pos = Inr (drop (nat pos) ([] @ stream_log y))"
    by (rule ring_log.bytes_complete [OF NewRingBuffer_rep [OF assms(3)] _ _ acks]) (use assms p in simp_all)
  then show ?thesis using inv p by (simp add: stream_inv_def RetransmitFrom_def)
qed

theorem failover_concurrent_witness:
  "\<exists>gap. RetransmitFrom (ss_state (stream_run 7 64 stream_demo)) 2 = Inr gap \<and> take 2 [1, 2, 3] @ gap = [1, 2, 3 :: byte]"
proof -
  let ?rcv = "[SRead 2, SPayload, SWrite [9], SContinue 0]"
  have "(0, 2) \<in> set (ss_payloads (stream_run 7 16 ?rcv))" "ss_reads (stream_run 7 16 ?rcv) = 2"
    by (simp_all add: stream_run_def stream_init_def NewState_def NewRingBuffer_def OnRead_def Sent_def Received_def i64_def Let_def)
  then show ?thesis using failover_concurrent [of 64 7 stream_demo 0 2 16 ?rcv] stream_demo_state by (simp add: MaxInt64_def)
qed

text \<open>
  Two concurrent checkpoints can move \<open>PeerAckPos\<close> back: the load, the test and the store are not one
  action. The ring has freed what the larger position acknowledges, and \<open>PeerAck\<close> reports the smaller.
\<close>

theorem peer_ack_goes_back:
  "PeerAck (ss_state (stream_run 7 64 [SWrite [1, 2, 3], SContinue 0, SCheckpoint 1, SCheckpoint 3, SContinue 1, SContinue 1])) = 3 \<and>
   PeerAck (ss_state (stream_run 7 64 [SWrite [1, 2, 3], SContinue 0, SCheckpoint 1, SCheckpoint 3, SContinue 1, SContinue 1, SContinue 0])) = 1"
  by (simp add: stream_run_def stream_init_def NewState_def PeerAck_def Let_def)

text \<open>A whole call is the schedule of its actions.\<close>

lemma whole_stream_calls:
  assumes "ss_calls y = []"
  shows "ss_state (fold stream_exec [SWrite p, SContinue 0] y) = OnWrite (ss_state y) p"
    and "ss_state (fold stream_exec [SCheckpoint a, SContinue 0, SContinue 0] y) = OnCheckpointFromPeer (ss_state y) a"
    and "ss_payloads (fold stream_exec [SPayload, SContinue 0] y) = ss_payloads y @ [ResumePayload (ss_state y)]"
  using assms by (simp_all add: OnWrite_def OnCheckpointFromPeer_def ResumePayload_def Let_def)

end
