(* ===== verification/Metrics.thy ===== *)
theory Metrics
  imports Prelude "HOL-Library.List_Lexorder" "HOL-Library.Char_ord"
begin

text \<open>
  \<open>lib/observe\<close>: counters, gauges, histograms, the registry that owns them by name, and the
  JSONL dumper. Metric objects live at addresses, because two callers that ask for the same name
  share one object. A \<open>time.Duration\<close> is an int64 of nanoseconds.
\<close>

type_synonym Duration = int

subsection \<open>Counter and Gauge\<close>

record Counter = counter_v :: int

definition Counter_Add :: "int \<Rightarrow> Counter \<Rightarrow> Counter" where
  "Counter_Add n c = c\<lparr>counter_v := i64 (counter_v c + n)\<rparr>"

definition Counter_Inc :: "Counter \<Rightarrow> Counter" where
  "Counter_Inc c = Counter_Add 1 c"

definition Counter_Value :: "Counter \<Rightarrow> int" where
  "Counter_Value c = counter_v c"

record Gauge = gauge_v :: int

definition Gauge_Set :: "int \<Rightarrow> Gauge \<Rightarrow> Gauge" where
  "Gauge_Set n g = g\<lparr>gauge_v := n\<rparr>"

definition Gauge_Inc :: "Gauge \<Rightarrow> Gauge" where
  "Gauge_Inc g = g\<lparr>gauge_v := i64 (gauge_v g + 1)\<rparr>"

definition Gauge_Dec :: "Gauge \<Rightarrow> Gauge" where
  "Gauge_Dec g = g\<lparr>gauge_v := i64 (gauge_v g - 1)\<rparr>"

definition Gauge_Value :: "Gauge \<Rightarrow> int" where
  "Gauge_Value g = gauge_v g"

subsection \<open>Histogram\<close>

definition DefaultDurationBounds :: "Duration list" where
  "DefaultDurationBounds =
     [1000, 10000, 100000, 1000000, 10000000, 100000000, 1000000000, 10000000000]"

record Histogram =
  h_bounds :: "Duration list"
  h_counts :: "int list"
  h_sumNs :: int
  h_n :: int

definition NewHistogram :: "Duration list \<Rightarrow> Histogram" where
  "NewHistogram bounds =
     (let bounds = (if bounds = [] then DefaultDurationBounds else bounds)
      in \<lparr>h_bounds = bounds, h_counts = replicate (length bounds + 1) 0, h_sumNs = 0, h_n = 0\<rparr>)"

text \<open>The index the loop of \<open>Observe\<close> stops at: the first bound the sample fits under, or the last bucket.\<close>

fun bucket :: "Duration list \<Rightarrow> Duration \<Rightarrow> nat" where
  "bucket [] d = 0"
| "bucket (b # bs) d = (if d \<le> b then 0 else Suc (bucket bs d))"

text \<open>The three atomic adds of \<open>Observe\<close>.\<close>

definition observe_n :: "Histogram \<Rightarrow> Histogram" where
  "observe_n h = h\<lparr>h_n := i64 (h_n h + 1)\<rparr>"

definition observe_sum :: "Duration \<Rightarrow> Histogram \<Rightarrow> Histogram" where
  "observe_sum d h = h\<lparr>h_sumNs := i64 (h_sumNs h + d)\<rparr>"

definition observe_bucket :: "Duration \<Rightarrow> Histogram \<Rightarrow> Histogram" where
  "observe_bucket d h =
     (let i = bucket (h_bounds h) d
      in if i < length (h_bounds h) then h\<lparr>h_counts := (h_counts h)[i := i64 (h_counts h ! i + 1)]\<rparr>
         else (let j = length (h_counts h) - 1 in h\<lparr>h_counts := (h_counts h)[j := i64 (h_counts h ! j + 1)]\<rparr>))"

definition Observe :: "Duration \<Rightarrow> Histogram \<Rightarrow> Histogram" where
  "Observe d h = observe_bucket d (observe_sum d (observe_n h))"

record HistogramSnapshot =
  hs_Bounds :: "Duration list"
  hs_Counts :: "int list"
  hs_SumNs :: int
  hs_N :: int

definition Histogram_Snapshot :: "Histogram \<Rightarrow> HistogramSnapshot" where
  "Histogram_Snapshot h =
     \<lparr>hs_Bounds = h_bounds h, hs_Counts = h_counts h, hs_SumNs = h_sumNs h, hs_N = h_n h\<rparr>"

text \<open>
  \<open>Quantile\<close>. The argument is a \<open>float64\<close>: its type is left open, \<open>in_open_unit\<close> is the guard
  \<open>0 < q < 1\<close> and \<open>scale n q\<close> is \<open>int64(float64(n) * q)\<close>. Go's integer division truncates.
\<close>

definition go_div :: "int \<Rightarrow> int \<Rightarrow> int" where
  "go_div a b = (if (a < 0) = (b < 0) then \<bar>a\<bar> div \<bar>b\<bar> else - (\<bar>a\<bar> div \<bar>b\<bar>))"

fun quantile_loop :: "HistogramSnapshot \<Rightarrow> int \<Rightarrow> nat \<Rightarrow> int \<Rightarrow> int list \<Rightarrow> Duration" where
  "quantile_loop snap target i cum [] = 0"
| "quantile_loop snap target i cum (c # cs) =
     (let cum = i64 (cum + c) in
      if cum \<ge> target then
        (if i < length (hs_Bounds snap) then hs_Bounds snap ! i
         else if c > 0 then go_div (hs_SumNs snap) (hs_N snap)
         else last (hs_Bounds snap))
      else quantile_loop snap target (i + 1) cum cs)"

definition quantile_of :: "(int \<Rightarrow> 'q \<Rightarrow> int) \<Rightarrow> 'q \<Rightarrow> HistogramSnapshot \<Rightarrow> Duration" where
  "quantile_of scale q snap =
     (if hs_N snap = 0 then 0 else quantile_loop snap (scale (hs_N snap) q) 0 0 (hs_Counts snap))"

definition Quantile :: "('q \<Rightarrow> bool) \<Rightarrow> (int \<Rightarrow> 'q \<Rightarrow> int) \<Rightarrow> 'q \<Rightarrow> Histogram \<Rightarrow> Duration" where
  "Quantile in_open_unit scale q h =
     (if \<not> in_open_unit q then 0 else quantile_of scale q (Histogram_Snapshot h))"

subsection \<open>Registry\<close>

text \<open>One of the three maps of the registry with the objects it points to.\<close>

record 'm pool =
  pool_names :: "(string \<times> nat) list"
  pool_objs :: "nat \<Rightarrow> 'm option"
  pool_next :: nat

definition new_pool :: "'m pool" where
  "new_pool = \<lparr>pool_names = [], pool_objs = (\<lambda>_. None), pool_next = 0\<rparr>"

text \<open>The part under the read lock, and the part under the write lock, which looks again.\<close>

definition pool_find :: "string \<Rightarrow> 'm pool \<Rightarrow> nat option" where
  "pool_find name r = map_of (pool_names r) name"

definition pool_ensure :: "'m \<Rightarrow> string \<Rightarrow> 'm pool \<Rightarrow> nat \<times> 'm pool" where
  "pool_ensure fresh name r =
     (case pool_find name r of
        Some p \<Rightarrow> (p, r)
      | None \<Rightarrow>
          (pool_next r,
           \<lparr>pool_names = (name, pool_next r) # pool_names r,
            pool_objs = (pool_objs r)(pool_next r \<mapsto> fresh), pool_next = pool_next r + 1\<rparr>))"

record Registry =
  reg_c :: "Counter pool"
  reg_g :: "Gauge pool"
  reg_h :: "Histogram pool"

definition NewRegistry :: Registry where
  "NewRegistry = \<lparr>reg_c = new_pool, reg_g = new_pool, reg_h = new_pool\<rparr>"

text \<open>A call with nothing in between its two parts; \<open>get_under_lock\<close> is the second part alone.\<close>

definition counter_under_lock :: "string \<Rightarrow> Registry \<Rightarrow> nat \<times> Registry" where
  "counter_under_lock name r =
     (let (p, c) = pool_ensure \<lparr>counter_v = 0\<rparr> name (reg_c r) in (p, r\<lparr>reg_c := c\<rparr>))"

definition Registry_Counter :: "string \<Rightarrow> Registry \<Rightarrow> nat \<times> Registry" where
  "Registry_Counter name r =
     (case pool_find name (reg_c r) of Some p \<Rightarrow> (p, r) | None \<Rightarrow> counter_under_lock name r)"

definition gauge_under_lock :: "string \<Rightarrow> Registry \<Rightarrow> nat \<times> Registry" where
  "gauge_under_lock name r =
     (let (p, g) = pool_ensure \<lparr>gauge_v = 0\<rparr> name (reg_g r) in (p, r\<lparr>reg_g := g\<rparr>))"

definition Registry_Gauge :: "string \<Rightarrow> Registry \<Rightarrow> nat \<times> Registry" where
  "Registry_Gauge name r =
     (case pool_find name (reg_g r) of Some p \<Rightarrow> (p, r) | None \<Rightarrow> gauge_under_lock name r)"

definition histogram_under_lock :: "string \<Rightarrow> Duration list \<Rightarrow> Registry \<Rightarrow> nat \<times> Registry" where
  "histogram_under_lock name bounds r =
     (let (p, h) = pool_ensure (NewHistogram bounds) name (reg_h r) in (p, r\<lparr>reg_h := h\<rparr>))"

definition Registry_Histogram :: "string \<Rightarrow> Duration list \<Rightarrow> Registry \<Rightarrow> nat \<times> Registry" where
  "Registry_Histogram name bounds r =
     (case pool_find name (reg_h r) of Some p \<Rightarrow> (p, r) | None \<Rightarrow> histogram_under_lock name bounds r)"

text \<open>\<open>c.Inc()\<close> through the pointer.\<close>

definition pool_update :: "nat \<Rightarrow> ('m \<Rightarrow> 'm) \<Rightarrow> 'm pool \<Rightarrow> 'm pool" where
  "pool_update p f r = r\<lparr>pool_objs := (pool_objs r)(p := map_option f (pool_objs r p))\<rparr>"

record Snapshot =
  sn_TsUnixMs :: ms
  sn_Counters :: "(string \<times> int) list"
  sn_Gauges :: "(string \<times> int) list"
  sn_Histograms :: "(string \<times> HistogramSnapshot) list"

definition sortedKeys :: "(string \<times> nat) list \<Rightarrow> string list" where
  "sortedKeys m = sort (map fst m)"

definition pool_snapshot :: "('m \<Rightarrow> 'v) \<Rightarrow> 'm pool \<Rightarrow> (string \<times> 'v) list" where
  "pool_snapshot view r =
     List.map_filter (\<lambda>name. case Option.bind (pool_find name r) (pool_objs r) of
                               None \<Rightarrow> None | Some m \<Rightarrow> Some (name, view m)) (sortedKeys (pool_names r))"

definition Registry_Snapshot :: "ms \<Rightarrow> Registry \<Rightarrow> Snapshot" where
  "Registry_Snapshot now r =
     \<lparr>sn_TsUnixMs = now, sn_Counters = pool_snapshot Counter_Value (reg_c r),
      sn_Gauges = pool_snapshot Gauge_Value (reg_g r), sn_Histograms = pool_snapshot Histogram_Snapshot (reg_h r)\<rparr>"

subsection \<open>Dumper\<close>

text \<open>
  The file is the list of lines appended to it. The operating system's answers are arguments:
  an error of \<open>MkdirAll\<close>, of \<open>OpenFile\<close> and of each encode. \<open>Run\<close> is driven by what its \<open>select\<close>
  sees: ticks, each with the registry and the clock at that moment, until the context is done.
\<close>

record Dumper =
  d_path :: string
  d_interval :: Duration
  d_open :: bool
  d_file :: "Snapshot list"

definition NewDumper :: "string \<Rightarrow> Duration \<Rightarrow> Snapshot list \<Rightarrow> Dumper" where
  "NewDumper path interval file =
     \<lparr>d_path = path, d_interval = (if interval \<le> 0 then 10000000000 else interval), d_open = False, d_file = file\<rparr>"

definition openIfNeeded :: "string \<Rightarrow> goerr option \<Rightarrow> goerr option \<Rightarrow> Dumper \<Rightarrow> goerr option \<times> Dumper" where
  "openIfNeeded dir mkdir_err open_err d =
     (if d_open d then (None, d)
      else
        (case (if dir \<noteq> '''' \<and> dir \<noteq> ''.'' then mkdir_err else None) of
           Some e \<Rightarrow> (Some (Wrap ''observe: mkdir'' e), d)
         | None \<Rightarrow>
             (case open_err of
                Some e \<Rightarrow> (Some (Wrap ''observe: open'' e), d)
              | None \<Rightarrow> (None, d\<lparr>d_open := True\<rparr>))))"

definition writeOne :: "goerr option \<Rightarrow> ms \<Rightarrow> Registry \<Rightarrow> Dumper \<Rightarrow> goerr option \<times> Dumper" where
  "writeOne enc_err now reg d =
     (case enc_err of
        Some e \<Rightarrow> (Some (Wrap ''observe: encode'' e), d)
      | None \<Rightarrow> (None, d\<lparr>d_file := d_file d @ [Registry_Snapshot now reg]\<rparr>))"

definition dumper_close :: "Dumper \<Rightarrow> Dumper" where
  "dumper_close d = (if d_open d then d\<lparr>d_open := False\<rparr> else d)"

datatype dump_event = Tick "goerr option" ms Registry | Cancelled goerr

text \<open>The result is None while the loop is still waiting, and the error it returned otherwise.\<close>

fun dump_loop :: "dump_event list \<Rightarrow> Dumper \<Rightarrow> goerr option \<times> Dumper" where
  "dump_loop [] d = (None, d)"
| "dump_loop (Cancelled e # evs) d = (Some e, d)"
| "dump_loop (Tick enc_err now reg # evs) d =
     (case writeOne enc_err now reg d of
        (Some e, d) \<Rightarrow> (Some e, d)
      | (None, d) \<Rightarrow> dump_loop evs d)"

definition Dumper_Run ::
  "string \<Rightarrow> goerr option \<Rightarrow> goerr option \<Rightarrow> goerr option \<times> ms \<times> Registry \<Rightarrow> dump_event list \<Rightarrow> Dumper
     \<Rightarrow> goerr option \<times> Dumper" where
  "Dumper_Run dir mkdir_err open_err first evs d =
     (case openIfNeeded dir mkdir_err open_err d of
        (Some e, d) \<Rightarrow> (Some e, d)
      | (None, d) \<Rightarrow>
          (case (let (enc_err, now, reg) = first in writeOne enc_err now reg d) of
             (Some e, d) \<Rightarrow> (Some e, dumper_close d)
           | (None, d) \<Rightarrow>
               (case dump_loop evs d of
                  (None, d) \<Rightarrow> (None, d)
                | (Some e, d) \<Rightarrow> (Some e, dumper_close d))))"

subsection \<open>Histograms count their samples\<close>

lemma bucket_le: "bucket bs d \<le> length bs"
  by (induction bs) auto

lemma Observe_simps [simp]:
  "h_bounds (Observe d h) = h_bounds h" "h_n (Observe d h) = i64 (h_n h + 1)"
  "h_sumNs (Observe d h) = i64 (h_sumNs h + d)"
  by (simp_all add: Observe_def observe_n_def observe_sum_def observe_bucket_def Let_def)

lemma Observe_counts:
  "length (h_counts h) = length (h_bounds h) + 1 \<Longrightarrow>
     h_counts (Observe d h) = (h_counts h)[bucket (h_bounds h) d := i64 (h_counts h ! bucket (h_bounds h) d + 1)]"
  using bucket_le [of "h_bounds h" d] by (auto simp: Observe_def observe_n_def observe_sum_def observe_bucket_def Let_def)

lemma i64_of_nat_Suc: "i64 (i64 (int n) + 1) = i64 (int (Suc n))"
proof -
  have "int (Suc n) = int n + 1" by simp
  then show ?thesis by (simp only: i64_add_left)
qed

lemma observe_all:
  fixes ds :: "Duration list"
  assumes "bs \<noteq> []"
  defines "h \<equiv> foldr Observe ds (NewHistogram bs)"
  shows "h_bounds h = bs" and "h_n h = i64 (int (length ds))" and "length (h_counts h) = length bs + 1"
    and "i \<le> length bs \<Longrightarrow> h_counts h ! i = i64 (int (length (filter (\<lambda>d. bucket bs d = i) ds)))"
  unfolding h_def
proof (induction ds)
  case Nil
  { case 1 then show ?case using assms(1) by (simp add: NewHistogram_def)
  next case 2 then show ?case by (simp add: NewHistogram_def Let_def i64_def)
  next case 3 then show ?case using assms(1) by (simp add: NewHistogram_def)
  next case 4 then show ?case using assms(1) by (simp add: NewHistogram_def i64_def del: replicate.simps) }
next
  case (Cons d ds)
  note ih = Cons.IH
  { case 1 then show ?case using ih(1) by simp
  next case 2 then show ?case using ih(2) i64_of_nat_Suc [of "length ds"] by simp
  next case 3 then show ?case using ih(1,3) by (simp add: Observe_counts)
  next case 4 then show ?case using ih(1,3,4) bucket_le [of bs d]
      by (auto simp: Observe_counts nth_list_update i64_of_nat_Suc add.commute [of 1]) }
qed

lemma bucket_char:
  assumes "sorted_wrt (<) bs" and "i \<le> length bs"
  shows "bucket bs d = i \<longleftrightarrow> (i < length bs \<longrightarrow> d \<le> bs ! i) \<and> (i > 0 \<longrightarrow> bs ! (i - 1) < d)"
  using assms
proof (induction bs arbitrary: i)
  case (Cons b bs)
  then have "b < x" if "x \<in> set bs" for x using that by auto
  then have *: "j < length bs \<Longrightarrow> b < bs ! j" for j by simp
  show ?case
  proof (cases i)
    case (Suc j)
    have "(0 < j \<longrightarrow> bs ! (j - 1) < d) \<Longrightarrow> (b # bs) ! j < d \<Longrightarrow> b < d"
      using * [of "j - 1"] Cons.prems(2) Suc by (cases j) force+
    then show ?thesis using Cons Suc by (auto simp: nth_Cons' )
  qed auto
qed simp

text \<open>
  A histogram with increasing bounds counts every sample in the bucket its documentation
  names: after any sequence of fewer than \<open>2^63\<close> observations, the count of bucket i is the
  number of samples at most bound i and above bound i-1, the last bucket has those above every
  bound, and n is the number of samples.
\<close>

theorem histogram_counts:
  assumes "sorted_wrt (<) bs" and "bs \<noteq> []" and "int (length ds) \<le> MaxInt64" and "i \<le> length bs"
  shows "h_counts (fold Observe ds (NewHistogram bs)) ! i =
           int (length (filter (\<lambda>d. (i < length bs \<longrightarrow> d \<le> bs ! i) \<and> (i > 0 \<longrightarrow> bs ! (i - 1) < d)) ds)) \<and>
         h_n (fold Observe ds (NewHistogram bs)) = int (length ds)"
proof -
  have small: "int (length (filter P ds)) \<le> MaxInt64" for P
    using assms(3) length_filter_le [of P ds] by linarith
  have flt: "length (filter P (rev ds)) = length (filter P ds)" for P by (simp add: rev_filter [symmetric])
  show ?thesis
    using observe_all(2) [OF assms(2), of "rev ds"] observe_all(4) [OF assms(2), of i "rev ds"] assms(3,4) small bucket_char [OF assms(1,4)]
    by (simp add: foldr_conv_fold flt i64_nonneg)
qed

theorem histogram_counts_witness:
  "h_counts (fold Observe [5, 15, 25, 7] (NewHistogram [10, 20])) ! 0 = 2"
  using histogram_counts [of "[10, 20]" "[5, 15, 25, 7]" 0] by (simp add: MaxInt64_def)

text \<open>
  The median of one slow request is reported as the smallest bound: the target rank
  is truncated, so for a single sample it is 0 and the loop stops at the first bucket, even when
  that bucket is empty, whatever the sample was. (\<open>scale 1 q = 0\<close> is truncation of a value
  between 0 and 1.)
\<close>

theorem Quantile_single_sample:
  assumes "in_open_unit q" and "scale 1 q = 0" and "bs \<noteq> []"
  shows "Quantile in_open_unit scale q (Observe d (NewHistogram bs)) = hd bs"
proof -
  obtain b bs' where bs: "bs = b # bs'" using assms(3) by (cases bs) auto
  let ?h = "Observe d (NewHistogram bs)"
  have n: "h_n ?h = 1" "h_bounds ?h = bs" "length (h_counts ?h) = length bs + 1"
    using observe_all(1,2,3) [OF assms(3), of "[d]"] by (simp_all add: i64_def)
  then obtain c cs where c: "h_counts ?h = c # cs" by (cases "h_counts ?h") auto
  have "c = i64 (int (length (filter (\<lambda>x. bucket bs x = 0) [d])))"
    using observe_all(4) [OF assms(3), of 0 "[d]"] c by simp
  then have "i64 c \<ge> 0" by (simp add: i64_def)
  then show ?thesis using assms n c bs by (simp add: Quantile_def quantile_of_def Histogram_Snapshot_def Let_def)
qed

theorem Quantile_single_sample_witness:
  "Quantile (\<lambda>q. 0 < q \<and> q < (100 :: int)) (\<lambda>n q. n * q div 100) 50 (Observe 5000000000 (NewHistogram DefaultDurationBounds)) = 1000"
  using Quantile_single_sample [of "\<lambda>q. 0 < q \<and> q < (100 :: int)" 50 "\<lambda>n q. n * q div 100" DefaultDurationBounds 5000000000]
  by (simp add: DefaultDurationBounds_def)

subsection \<open>Get or create\<close>

locale named_objects =
  fixes lookup_name :: "string \<Rightarrow> 'r \<Rightarrow> nat option" and get :: "string \<Rightarrow> 'r \<Rightarrow> nat \<times> 'r"
  assumes get_hit: "lookup_name n r = Some p \<Longrightarrow> get n r = (p, r)"
    and get_found: "lookup_name n (snd (get n r)) = Some (fst (get n r))"
    and get_stable: "lookup_name m r = Some p \<Longrightarrow> lookup_name m (snd (get n r)) = Some p"
begin

lemma gets_stable: "lookup_name m r = Some p \<Longrightarrow> lookup_name m (fold (\<lambda>n r. snd (get n r)) ns r) = Some p"
  by (induction ns arbitrary: r) (auto intro: get_stable)

text \<open>A second caller, after any other calls, gets the object the first one got.\<close>

lemma same_object:
  assumes "get n r = (p, r')"
  shows "get n (fold (\<lambda>n r. snd (get n r)) ns r') = (p, fold (\<lambda>n r. snd (get n r)) ns r')"
proof -
  have "lookup_name n r' = Some p" using get_found [of n r] assms by simp
  then show ?thesis by (intro get_hit gets_stable)
qed

end

lemma pool_ensure_laws:
  "pool_find n r = Some p \<Longrightarrow> pool_ensure f n r = (p, r)"
  "pool_find n (snd (pool_ensure f n r)) = Some (fst (pool_ensure f n r))"
  "pool_find m r = Some p \<Longrightarrow> pool_find m (snd (pool_ensure f n r)) = Some p"
  by (auto simp: pool_ensure_def pool_find_def split: option.splits)

interpretation counters: named_objects "\<lambda>n r. pool_find n (reg_c r)" counter_under_lock
  by unfold_locales (auto simp: counter_under_lock_def pool_ensure_laws split_beta)

interpretation gauges: named_objects "\<lambda>n r. pool_find n (reg_g r)" gauge_under_lock
  by unfold_locales (auto simp: gauge_under_lock_def pool_ensure_laws split_beta)

interpretation histograms: named_objects "\<lambda>n r. pool_find n (reg_h r)" "\<lambda>n. histogram_under_lock n bounds"
  by unfold_locales (auto simp: histogram_under_lock_def pool_ensure_laws split_beta)

text \<open>
  Everyone who asks for a counter gets the same one: if the creation part of a call returned
  an object for a name, then after any further creations a new call returns that object, on the
  path under the read lock and also on the path of a caller that missed the name before it was
  created and now looks again under the write lock; neither changes the registry, so no
  increment is lost to a second object.
\<close>

theorem registry_one_counter_per_name:
  assumes "counter_under_lock name r = (p, r')"
  shows "Registry_Counter name (fold (\<lambda>n r. snd (counter_under_lock n r)) ns r')
           = (p, fold (\<lambda>n r. snd (counter_under_lock n r)) ns r') \<and>
         counter_under_lock name (fold (\<lambda>n r. snd (counter_under_lock n r)) ns r')
           = (p, fold (\<lambda>n r. snd (counter_under_lock n r)) ns r')"
proof -
  have "pool_find name (reg_c r') = Some p" using counters.get_found [of name r] assms by simp
  from counters.gets_stable [OF this, of ns] show ?thesis
    using counters.same_object [OF assms, of ns] by (simp add: Registry_Counter_def)
qed

theorem registry_one_counter_per_name_witness:
  "counter_under_lock ''audit_events_total'' (fold (\<lambda>n r. snd (counter_under_lock n r)) [''x'', ''y'']
      (snd (counter_under_lock ''audit_events_total'' NewRegistry)))
    = (0, fold (\<lambda>n r. snd (counter_under_lock n r)) [''x'', ''y''] (snd (counter_under_lock ''audit_events_total'' NewRegistry)))"
proof -
  have c: "counter_under_lock ''audit_events_total'' NewRegistry = (0, snd (counter_under_lock ''audit_events_total'' NewRegistry))"
    by (simp add: counter_under_lock_def NewRegistry_def new_pool_def pool_ensure_def pool_find_def)
  show ?thesis using registry_one_counter_per_name [OF c, of "[''x'', ''y'']"] by blast
qed

text \<open>First registration wins: a histogram's bounds are those of the first call for its name.\<close>

lemma histogram_first_bounds_win:
  assumes "histogram_under_lock name bounds r = (p, r')"
  shows "histogram_under_lock name bounds' r' = (p, r')"
proof -
  have "pool_find name (reg_h r') = Some p" using histograms.get_found [of name bounds r] assms by simp
  then show ?thesis by (rule histograms.get_hit)
qed

subsection \<open>Snapshots and dumps\<close>

text \<open>The pool's invariant: one address per name and an object behind every address.\<close>

definition pool_wf :: "'m pool \<Rightarrow> bool" where
  "pool_wf r \<longleftrightarrow> distinct (map fst (pool_names r)) \<and> (\<forall>p \<in> snd ` set (pool_names r). pool_objs r p \<noteq> None)"

lemma pool_wf_new [simp]: "pool_wf new_pool"
  by (simp add: pool_wf_def new_pool_def)

lemma pool_wf_ensure: "pool_wf r \<Longrightarrow> pool_wf (snd (pool_ensure f n r))"
  by (auto simp: pool_wf_def pool_ensure_def pool_find_def map_of_eq_None_iff split: option.splits)

lemma pool_wf_update: "pool_wf r \<Longrightarrow> pool_wf (pool_update p f r)"
  by (auto simp: pool_wf_def pool_update_def)

lemma map_filter_total:
  "(\<And>x. x \<in> set xs \<Longrightarrow> f x = Some (g x)) \<Longrightarrow> List.map_filter f xs = map g xs"
  by (induction xs) (auto simp: List.map_filter_def)

lemma pool_snapshot_map:
  assumes "pool_wf r"
  shows "pool_snapshot view r =
    map (\<lambda>n. (n, view (the (pool_objs r (the (pool_find n r)))))) (sort (map fst (pool_names r)))"
  unfolding pool_snapshot_def sortedKeys_def
proof (rule map_filter_total)
  fix n assume "n \<in> set (sort (map fst (pool_names r)))"
  then obtain p where p: "pool_find n r = Some p" 
    by (cases "pool_find n r") (auto simp: pool_find_def map_of_eq_None_iff)
  then have "p \<in> snd ` set (pool_names r)" by (auto simp: pool_find_def dest: map_of_SomeD intro: rev_image_eqI)
  then obtain m where "pool_objs r p = Some m" using assms by (auto simp: pool_wf_def)
  with p show "(case Option.bind (pool_find n r) (pool_objs r) of None \<Rightarrow> None | Some m \<Rightarrow> Some (n, view m)) =
      Some (n, view (the (pool_objs r (the (pool_find n r)))))" by simp
qed

lemma snapshot_sorted:
  assumes "pool_wf r"
  shows "sorted (map fst (pool_snapshot view r))" and "distinct (map fst (pool_snapshot view r))"
    and "set (map fst (pool_snapshot view r)) = set (map fst (pool_names r))"
  using assms by (simp_all add: pool_snapshot_map comp_def pool_wf_def)

text \<open>Every dump appends: what was in the file before is a prefix of what is in it after.\<close>

lemma dump_loop_appends: "\<exists>new. d_file (snd (dump_loop evs d)) = d_file d @ new"
proof (induction evs d rule: dump_loop.induct)
  case (3 enc_err now reg evs d)
  then show ?case by (cases enc_err) (auto simp: writeOne_def)
qed auto

lemma Dumper_Run_appends: "\<exists>new. d_file (snd (Dumper_Run dir e1 e2 first evs d)) = d_file d @ new"
proof -
  obtain r1 d1 where o: "openIfNeeded dir e1 e2 d = (r1, d1)" by fastforce
  then have f1: "d_file d1 = d_file d" by (auto simp: openIfNeeded_def split: option.splits if_splits)
  obtain enc now reg where fst: "first = (enc, now, reg)" by (cases first)
  obtain r2 d2 where w: "writeOne enc now reg d1 = (r2, d2)" by fastforce
  then obtain n1 where f2: "d_file d2 = d_file d1 @ n1" by (auto simp: writeOne_def split: option.splits)
  obtain r3 d3 where l: "dump_loop evs d2 = (r3, d3)" by fastforce
  then obtain n2 where f3: "d_file d3 = d_file d2 @ n2" using dump_loop_appends [of evs d2] by auto
  have c: "d_file (dumper_close x) = d_file x" for x by (simp add: dumper_close_def)
  show ?thesis using o fst w l f1 f2 f3 c
    by (cases r1; cases r2; cases r3) (simp_all add: Dumper_Run_def)
qed

end
