(* ===== verification/Metrics_Concurrent.thy ===== *)
theory Metrics_Concurrent
  imports Metrics "HOL-Library.Multiset"
begin

text \<open>
  A histogram of \<open>lib/observe/metric.go\<close> under concurrent calls. Its fields are atomics and there is no
  lock: \<open>Observe\<close> is three atomic adds, \<open>Snapshot\<close> is one load per field and bucket. A schedule is any
  sequence of actions of any number of observers and snapshots.

  When no observer is under way the histogram is what the samples give one after the other, in any
  order. A snapshot that overlaps with observers is not a state the histogram ever had: its fields
  may disagree, within the bounds shown here, and \<open>Quantile\<close> inherits that.
\<close>

subsection \<open>Actions\<close>

datatype hist_call =
    OSum Duration \<comment> \<open>n added\<close>
  | OBucket Duration \<comment> \<open>n and the sum added\<close>
  | LoadN int \<comment> \<open>the sum loaded\<close>
  | LoadCounts int int "int list" \<comment> \<open>the sum, n and these counts loaded\<close>

text \<open>\<open>hy_started\<close>, \<open>hy_summed\<close> and \<open>hy_counted\<close> are ghosts: the samples whose first, second, third add is done.\<close>

record hist_sys =
  hy_hist :: Histogram
  hy_calls :: "hist_call list"
  hy_snaps :: "HistogramSnapshot list"
  hy_started :: "Duration list"
  hy_summed :: "Duration list"
  hy_counted :: "Duration list"

datatype hist_label = HObserve Duration | HSnapshot | HContinue nat

text \<open>The loads of the buckets, one by one; the snapshot is complete when all are loaded.\<close>

definition load_counts :: "int \<Rightarrow> int \<Rightarrow> int list \<Rightarrow> hist_sys \<Rightarrow> hist_sys" where
  "load_counts s n cs y =
     (let h = hy_hist y in
      if length cs < length (h_counts h)
      then y\<lparr>hy_calls := hy_calls y @ [LoadCounts s n (cs @ [h_counts h ! length cs])]\<rparr>
      else y\<lparr>hy_snaps := hy_snaps y @ [\<lparr>hs_Bounds = h_bounds h, hs_Counts = cs, hs_SumNs = s, hs_N = n\<rparr>]\<rparr>)"

fun hist_continue :: "hist_call \<Rightarrow> hist_sys \<Rightarrow> hist_sys" where
  "hist_continue (OSum d) y =
     y\<lparr>hy_hist := observe_sum d (hy_hist y), hy_calls := hy_calls y @ [OBucket d], hy_summed := hy_summed y @ [d]\<rparr>"
| "hist_continue (OBucket d) y = y\<lparr>hy_hist := observe_bucket d (hy_hist y), hy_counted := hy_counted y @ [d]\<rparr>"
| "hist_continue (LoadN s) y = y\<lparr>hy_calls := hy_calls y @ [LoadCounts s (h_n (hy_hist y)) []]\<rparr>"
| "hist_continue (LoadCounts s n cs) y = load_counts s n cs y"

fun hist_exec :: "hist_label \<Rightarrow> hist_sys \<Rightarrow> hist_sys" where
  "hist_exec (HObserve d) y =
     y\<lparr>hy_hist := observe_n (hy_hist y), hy_calls := hy_calls y @ [OSum d], hy_started := hy_started y @ [d]\<rparr>"
| "hist_exec HSnapshot y = y\<lparr>hy_calls := hy_calls y @ [LoadN (h_sumNs (hy_hist y))]\<rparr>"
| "hist_exec (HContinue k) y =
     (if k < length (hy_calls y)
      then hist_continue (hy_calls y ! k) (y\<lparr>hy_calls := drop_nth k (hy_calls y)\<rparr>)
      else y)"

definition hist_init :: "Duration list \<Rightarrow> hist_sys" where
  "hist_init bs = \<lparr>hy_hist = NewHistogram bs, hy_calls = [], hy_snaps = [], hy_started = [], hy_summed = [], hy_counted = []\<rparr>"

definition hist_run :: "Duration list \<Rightarrow> hist_label list \<Rightarrow> hist_sys" where
  "hist_run bs ls = fold hist_exec ls (hist_init bs)"

subsection \<open>Invariant\<close>

fun to_sum :: "hist_call \<Rightarrow> Duration list" where
  "to_sum (OSum d) = [d]"
| "to_sum _ = []"

fun to_count :: "hist_call \<Rightarrow> Duration list" where
  "to_count (OBucket d) = [d]"
| "to_count _ = []"

definition in_bucket :: "Duration list \<Rightarrow> nat \<Rightarrow> Duration list \<Rightarrow> nat" where
  "in_bucket bs i ds = length (filter (\<lambda>d. bucket bs d = i) ds)"

text \<open>Loaded values are values the fields had: at most as many samples as now.\<close>

definition loaded :: "nat \<Rightarrow> int \<Rightarrow> bool" where
  "loaded now v \<longleftrightarrow> (\<exists>n \<le> now. v = i64 (int n))"

definition counts_loaded :: "Duration list \<Rightarrow> hist_sys \<Rightarrow> int list \<Rightarrow> bool" where
  "counts_loaded bs y cs \<longleftrightarrow> length cs \<le> length bs + 1 \<and> (\<forall>i < length cs. loaded (in_bucket bs i (hy_counted y)) (cs ! i))"

fun snapping_ok :: "Duration list \<Rightarrow> hist_sys \<Rightarrow> hist_call \<Rightarrow> bool" where
  "snapping_ok bs y (LoadCounts s n cs) \<longleftrightarrow> loaded (length (hy_started y)) n \<and> counts_loaded bs y cs"
| "snapping_ok bs y _ \<longleftrightarrow> True"

definition snap_ok :: "Duration list \<Rightarrow> hist_sys \<Rightarrow> HistogramSnapshot \<Rightarrow> bool" where
  "snap_ok bs y s \<longleftrightarrow> hs_Bounds s = bs \<and> loaded (length (hy_started y)) (hs_N s) \<and> length (hs_Counts s) = length bs + 1 \<and>
     counts_loaded bs y (hs_Counts s)"

definition hist_inv :: "Duration list \<Rightarrow> hist_sys \<Rightarrow> bool" where
  "hist_inv bs y \<longleftrightarrow>
     h_bounds (hy_hist y) = bs \<and> h_n (hy_hist y) = i64 (int (length (hy_started y))) \<and>
     h_sumNs (hy_hist y) = i64 (sum_list (hy_summed y)) \<and> length (h_counts (hy_hist y)) = length bs + 1 \<and>
     (\<forall>i \<le> length bs. h_counts (hy_hist y) ! i = i64 (int (in_bucket bs i (hy_counted y)))) \<and>
     mset (hy_started y) = mset (hy_summed y) + mset (concat (map to_sum (hy_calls y))) \<and>
     mset (hy_summed y) = mset (hy_counted y) + mset (concat (map to_count (hy_calls y))) \<and>
     (\<forall>c \<in> set (hy_calls y). snapping_ok bs y c) \<and> (\<forall>s \<in> set (hy_snaps y). snap_ok bs y s)"

definition hist_extends :: "hist_sys \<Rightarrow> hist_sys \<Rightarrow> bool" where
  "hist_extends y y' \<longleftrightarrow> (\<exists>a b. hy_started y' = hy_started y @ a \<and> hy_counted y' = hy_counted y @ b)"

lemma loaded_mono: "loaded n v \<Longrightarrow> n \<le> m \<Longrightarrow> loaded m v"
  by (auto simp: loaded_def intro: order_trans)

lemma extends_loaded:
  assumes "hist_extends y y'"
  shows "snapping_ok bs y c \<Longrightarrow> snapping_ok bs y' c" and "snap_ok bs y s \<Longrightarrow> snap_ok bs y' s"
proof -
  have st: "length (hy_started y) \<le> length (hy_started y')" and bk: "in_bucket bs i (hy_counted y) \<le> in_bucket bs i (hy_counted y')" for i
    using assms by (auto simp: hist_extends_def in_bucket_def)
  have cl: "counts_loaded bs y cs \<Longrightarrow> counts_loaded bs y' cs" for cs
    using loaded_mono [OF _ bk] by (auto simp: counts_loaded_def)
  show "snapping_ok bs y' c" if "snapping_ok bs y c" using that cl loaded_mono [OF _ st] by (cases c) auto
  show "snap_ok bs y' s" if "snap_ok bs y s" using that cl loaded_mono [OF _ st] by (auto simp: snap_ok_def)
qed

lemma observe_parts [simp]:
  "h_bounds (observe_n h) = h_bounds h" "h_n (observe_n h) = i64 (h_n h + 1)" "h_sumNs (observe_n h) = h_sumNs h"
  "h_counts (observe_n h) = h_counts h"
  "h_bounds (observe_sum d h) = h_bounds h" "h_n (observe_sum d h) = h_n h" "h_sumNs (observe_sum d h) = i64 (h_sumNs h + d)"
  "h_counts (observe_sum d h) = h_counts h"
  "h_bounds (observe_bucket d h) = h_bounds h" "h_n (observe_bucket d h) = h_n h" "h_sumNs (observe_bucket d h) = h_sumNs h"
  by (simp_all add: observe_n_def observe_sum_def observe_bucket_def Let_def)

lemma observe_bucket_counts:
  "length (h_counts h) = length (h_bounds h) + 1 \<Longrightarrow>
     h_counts (observe_bucket d h) = (h_counts h)[bucket (h_bounds h) d := i64 (h_counts h ! bucket (h_bounds h) d + 1)]"
  using bucket_le [of "h_bounds h" d] by (auto simp: observe_bucket_def Let_def)

lemma mset_calls_nth:
  assumes "k < length cs"
  shows "mset (concat (map f cs)) = mset (f (cs ! k)) + mset (concat (map f (drop_nth k cs)))"
  unfolding drop_nth_def by (subst id_take_nth_drop [OF assms]) simp

lemma hist_inv_start:
  assumes "hist_inv bs y" and "\<nexists>k. l = HContinue k"
  shows "hist_inv bs (hist_exec l y)"
proof -
  let ?y = "hist_exec l y"
  have ext: "hist_extends y ?y" using assms(2) by (cases l) (auto simp: hist_extends_def)
  have old: "\<forall>c \<in> set (hy_calls y). snapping_ok bs ?y c" "\<forall>s \<in> set (hy_snaps y). snap_ok bs ?y s"
    using assms(1) extends_loaded [OF ext] by (auto simp: hist_inv_def)
  show ?thesis
  proof (cases l)
    case (HObserve d)
    then show ?thesis using assms(1) old i64_of_nat_Suc [of "length (hy_started y)"] by (auto simp: hist_inv_def)
  next
    case HSnapshot
    then show ?thesis using assms(1) old by (auto simp: hist_inv_def)
  qed (use assms(2) in simp)
qed

text \<open>What the continuation of a call starts from: the fields, the samples under way, and what was loaded before.\<close>

lemma hist_inv_parts:
  assumes "hist_inv bs y" and k: "k < length (hy_calls y)" and y': "y' = hist_exec (HContinue k) y"
  shows "h_bounds (hy_hist y) = bs" "h_n (hy_hist y) = i64 (int (length (hy_started y)))"
    and "h_sumNs (hy_hist y) = i64 (sum_list (hy_summed y))" "length (h_counts (hy_hist y)) = length bs + 1"
    and "\<forall>i \<le> length bs. h_counts (hy_hist y) ! i = i64 (int (in_bucket bs i (hy_counted y)))"
    and "mset (hy_started y) = mset (hy_summed y) + mset (to_sum (hy_calls y ! k)) + mset (concat (map to_sum (drop_nth k (hy_calls y))))"
    and "mset (hy_summed y) = mset (hy_counted y) + mset (to_count (hy_calls y ! k)) + mset (concat (map to_count (drop_nth k (hy_calls y))))"
    and "\<forall>c \<in> set (drop_nth k (hy_calls y)). snapping_ok bs y' c" "\<forall>s \<in> set (hy_snaps y). snap_ok bs y' s"
    and "snapping_ok bs y (hy_calls y ! k)" "y' = hist_continue (hy_calls y ! k) (y\<lparr>hy_calls := drop_nth k (hy_calls y)\<rparr>)"
proof -
  have ext: "hist_extends y y'"
    unfolding y' using k by (cases "hy_calls y ! k") (auto simp: hist_extends_def load_counts_def Let_def)
  show "\<forall>c \<in> set (drop_nth k (hy_calls y)). snapping_ok bs y' c"
    using assms(1) extends_loaded(1) [OF ext] by (auto simp: hist_inv_def dest: in_drop_nth)
  show "\<forall>s \<in> set (hy_snaps y). snap_ok bs y' s" using assms(1) extends_loaded(2) [OF ext] by (auto simp: hist_inv_def)
  show "mset (hy_started y) = mset (hy_summed y) + mset (to_sum (hy_calls y ! k)) + mset (concat (map to_sum (drop_nth k (hy_calls y))))"
    "mset (hy_summed y) = mset (hy_counted y) + mset (to_count (hy_calls y ! k)) + mset (concat (map to_count (drop_nth k (hy_calls y))))"
    using assms(1) mset_calls_nth [OF k, of to_sum] mset_calls_nth [OF k, of to_count] unfolding hist_inv_def by simp_all
qed (use assms in \<open>simp_all add: hist_inv_def\<close>)

lemma hist_inv_observer:
  assumes "hist_inv bs y" and k: "k < length (hy_calls y)" and "hy_calls y ! k = OSum d \<or> hy_calls y ! k = OBucket d"
  shows "hist_inv bs (hist_exec (HContinue k) y)"
proof -
  let ?y = "hist_exec (HContinue k) y"
  note I = hist_inv_parts [OF assms(1,2) refl]
  from assms(3) show ?thesis
  proof
    assume c: "hy_calls y ! k = OSum d"
    show ?thesis using I(1-9) unfolding I(11) by (auto simp: hist_inv_def c i64_add_left)
  next
    assume c: "hy_calls y ! k = OBucket d"
    have "h_counts (observe_bucket d (hy_hist y)) ! i = i64 (int (in_bucket bs i (hy_counted y @ [d])))" if "i \<le> length bs" for i
      using I(1,4,5) that i64_of_nat_Suc [of "in_bucket bs i (hy_counted y)"] bucket_le [of bs d]
      by (auto simp: observe_bucket_counts nth_list_update in_bucket_def)
    moreover have "length (h_counts (observe_bucket d (hy_hist y))) = length bs + 1" using I(1,4) by (simp add: observe_bucket_counts)
    ultimately show ?thesis using I(1-3,6-9) unfolding I(11) by (auto simp: hist_inv_def c)
  qed
qed

lemma hist_inv_load:
  assumes "hist_inv bs y" and k: "k < length (hy_calls y)" and l: "hy_calls y ! k = LoadCounts s n cs"
  shows "hist_inv bs (hist_exec (HContinue k) y)"
proof -
  let ?y = "hist_exec (HContinue k) y"
  note I = hist_inv_parts [OF assms(1,2) refl]
  show ?thesis
  proof (cases "length cs < length (h_counts (hy_hist y))")
    case True
    have "loaded (in_bucket bs (length cs) (hy_counted y)) (h_counts (hy_hist y) ! length cs)"
      using I(4,5) True by (auto simp: loaded_def)
    then have "snapping_ok bs ?y (LoadCounts s n (cs @ [h_counts (hy_hist y) ! length cs]))"
      using I(4,10) True unfolding I(11)
      by (auto simp: l load_counts_def counts_loaded_def nth_append less_Suc_eq)
    then show ?thesis using I(1-9) True unfolding I(11) by (auto simp: hist_inv_def load_counts_def l)
  next
    case False
    have "snap_ok bs ?y \<lparr>hs_Bounds = h_bounds (hy_hist y), hs_Counts = cs, hs_SumNs = s, hs_N = n\<rparr>"
      using I(1,4,10) False unfolding I(11) by (auto simp: l load_counts_def snap_ok_def counts_loaded_def)
    then show ?thesis using I(1-9) False unfolding I(11) by (auto simp: hist_inv_def load_counts_def l)
  qed
qed

lemma hist_inv_continue:
  assumes "hist_inv bs y" and k: "k < length (hy_calls y)"
  shows "hist_inv bs (hist_exec (HContinue k) y)"
proof (cases "hy_calls y ! k")
  case (LoadN s)
  note I = hist_inv_parts [OF assms refl]
  have "snapping_ok bs (hist_exec (HContinue k) y) (LoadCounts s (h_n (hy_hist y)) [])"
    using I(2) unfolding I(11) by (auto simp: LoadN loaded_def counts_loaded_def)
  then show ?thesis using I(1-9) unfolding I(11) by (auto simp: hist_inv_def LoadN)
qed (use hist_inv_observer [OF assms] hist_inv_load [OF assms] in blast)+

interpretation observing: interleaving hist_exec "hist_inv bs"
proof
  fix y l assume y: "hist_inv bs y"
  show "hist_inv bs (hist_exec l y)"
  proof (cases "\<exists>k. l = HContinue k")
    case True
    then obtain k where "l = HContinue k" by blast
    then show ?thesis using hist_inv_continue [OF y, of k] y by (cases "k < length (hy_calls y)") simp_all
  next
    case False
    then show ?thesis by (rule hist_inv_start [OF y])
  qed
qed

lemma hist_inv_run:
  assumes "bs \<noteq> []"
  shows "hist_inv bs (hist_run bs ls)"
  unfolding hist_run_def
  by (rule observing.run) (use assms in
    \<open>simp add: hist_inv_def hist_init_def NewHistogram_def in_bucket_def i64_def Let_def del: replicate.simps\<close>)

subsection \<open>Properties\<close>

lemma observe_all_sum:
  assumes "h_sumNs h = i64 s"
  shows "h_sumNs (foldr Observe ds h) = i64 (s + sum_list ds)"
proof (induction ds)
  case (Cons d ds)
  have "h_sumNs (foldr Observe (d # ds) h) = i64 (h_sumNs (foldr Observe ds h) + d)" by (simp add: Observe_def)
  also have "\<dots> = i64 (s + sum_list (d # ds))" unfolding Cons.IH i64_add_left by (simp add: algebra_simps)
  finally show ?case .
qed (simp add: assms)

text \<open>
  C27. Concurrent observers lose nothing: whatever the schedule of observers and snapshots, when no observer
  is under way the histogram is the one that the samples give when they are observed one after the
  other, in any order.
\<close>

theorem histogram_concurrent_exact:
  assumes "bs \<noteq> []" and "list_all (\<lambda>c. to_sum c = [] \<and> to_count c = []) (hy_calls (hist_run bs ls))"
    and "mset ds = mset (hy_started (hist_run bs ls))"
  shows "hy_hist (hist_run bs ls) = fold Observe ds (NewHistogram bs)"
proof -
  let ?y = "hist_run bs ls" and ?h = "foldr Observe (rev ds) (NewHistogram bs)"
  have idle: "concat (map to_sum (hy_calls ?y)) = []" "concat (map to_count (hy_calls ?y)) = []"
    using assms(2) by (auto simp: list_all_iff)
  have I: "h_bounds (hy_hist ?y) = bs" "h_n (hy_hist ?y) = i64 (int (length (hy_started ?y)))"
    "h_sumNs (hy_hist ?y) = i64 (sum_list (hy_summed ?y))" "length (h_counts (hy_hist ?y)) = length bs + 1"
    "\<And>i. i \<le> length bs \<Longrightarrow> h_counts (hy_hist ?y) ! i = i64 (int (in_bucket bs i (hy_counted ?y)))"
    "mset (hy_started ?y) = mset (hy_summed ?y)" "mset (hy_summed ?y) = mset (hy_counted ?y)"
    using hist_inv_run [OF assms(1), of ls] unfolding hist_inv_def idle by simp_all
  note obs = observe_all [OF assms(1), where ds = "rev ds"]
  have len: "length (hy_started ?y) = length ds" using assms(3) by (metis size_mset)
  have "sum_list (hy_summed ?y) = sum_list ds" using I(6) assms(3) by (metis sum_mset_sum_list)
  moreover have "h_sumNs (NewHistogram bs) = i64 0" by (simp add: NewHistogram_def Let_def i64_def)
  then have "h_sumNs ?h = i64 (sum_list ds)" using observe_all_sum [of "NewHistogram bs" 0 "rev ds"] by simp
  moreover have "in_bucket bs i (hy_counted ?y) = length (filter (\<lambda>d. bucket bs d = i) (rev ds))" for i
    using I(6,7) assms(3) unfolding in_bucket_def by (metis mset_filter mset_rev size_mset)
  then have "h_counts (hy_hist ?y) = h_counts ?h" using I(4,5) obs(3,4) by (intro nth_equalityI) simp_all
  ultimately have "hy_hist ?y = ?h" using I(1-3) obs(1,2) len by simp
  then show ?thesis by (simp add: foldr_conv_fold)
qed

text \<open>Two observers whose adds interleave, and a snapshot in the middle.\<close>

definition hist_demo :: "hist_label list" where
  "hist_demo = [HObserve 3, HObserve 20, HContinue 1, HSnapshot, HContinue 1, HContinue 1, HContinue 0, HContinue 0,
                HContinue 0, HContinue 0, HContinue 0]"

lemma hist_demo_state:
  "hy_calls (hist_run [10] hist_demo) = [] \<and> hy_started (hist_run [10] hist_demo) = [3, 20] \<and>
   hy_counted (hist_run [10] hist_demo) = [20, 3] \<and>
   hy_snaps (hist_run [10] hist_demo) = [\<lparr>hs_Bounds = [10], hs_Counts = [0, 1], hs_SumNs = 20, hs_N = 2\<rparr>]"
  by (simp add: hist_demo_def hist_run_def hist_init_def NewHistogram_def observe_n_def observe_sum_def observe_bucket_def
      load_counts_def i64_def Let_def)

theorem histogram_concurrent_exact_witness:
  "hy_hist (hist_run [10] hist_demo) = fold Observe [20, 3] (NewHistogram [10])"
  using histogram_concurrent_exact [of "[10]" hist_demo "[20, 3]"] hist_demo_state by simp

text \<open>
  A snapshot never invents samples: whatever the schedule, in every snapshot taken so far n is at most
  the number of samples whose observation has begun, and the count of a bucket is at most the number of
  those samples that belong there (as long as fewer than \<open>2^63\<close> were observed).
\<close>

theorem snapshot_bounds:
  assumes "bs \<noteq> []" and "int (length (hy_started (hist_run bs ls))) \<le> MaxInt64" and "s \<in> set (hy_snaps (hist_run bs ls))"
    and "i \<le> length bs"
  shows "0 \<le> hs_N s \<and> hs_N s \<le> int (length (hy_started (hist_run bs ls))) \<and>
         0 \<le> hs_Counts s ! i \<and> hs_Counts s ! i \<le> int (in_bucket bs i (hy_started (hist_run bs ls)))"
proof -
  let ?y = "hist_run bs ls"
  have inv: "hist_inv bs ?y" by (rule hist_inv_run [OF assms(1)])
  then have s: "snap_ok bs ?y s" using assms(3) unfolding hist_inv_def by blast
  have "mset (hy_counted ?y) \<subseteq># mset (hy_started ?y)" using inv unfolding hist_inv_def by (metis mset_subset_eq_add_left subset_mset.order_trans)
  then have le: "in_bucket bs i (hy_counted ?y) \<le> in_bucket bs i (hy_started ?y)"
    unfolding in_bucket_def by (metis mset_filter multiset_filter_mono size_mset size_mset_mono)
  have small: "in_bucket bs i (hy_started ?y) \<le> length (hy_started ?y)" by (simp add: in_bucket_def)
  obtain n where n: "n \<le> length (hy_started ?y)" "hs_N s = i64 (int n)" using s by (auto simp: snap_ok_def loaded_def)
  obtain c where c: "c \<le> in_bucket bs i (hy_counted ?y)" "hs_Counts s ! i = i64 (int c)"
    using s assms(4) unfolding snap_ok_def counts_loaded_def loaded_def by (metis Suc_eq_plus1 le_imp_less_Suc)
  have "i64 (int k) = int k" if "k \<le> length (hy_started ?y)" for k
    using that assms(2) by (intro i64_nonneg) simp_all
  then show ?thesis using n c le small by simp
qed

theorem snapshot_bounds_witness:
  "hs_Counts \<lparr>hs_Bounds = [10], hs_Counts = [0, 1], hs_SumNs = 20, hs_N = 2\<rparr> ! 1 \<le> int (in_bucket [10] 1 [3, 20])"
  using snapshot_bounds [of "[10]" hist_demo "\<lparr>hs_Bounds = [10], hs_Counts = [0, 1], hs_SumNs = 20, hs_N = 2\<rparr>" 1] hist_demo_state
  by (simp add: MaxInt64_def)

text \<open>
  A torn snapshot: two samples are under way, n counts them and no bucket does. \<open>Quantile\<close> then runs off
  the end of the buckets and returns 0, which it documents as "no observations".
\<close>

theorem quantile_of_torn_snapshot:
  assumes "0 < scale 2 q"
  shows "\<exists>s. hy_snaps (hist_run [10] [HObserve 3, HObserve 20, HSnapshot, HContinue 2, HContinue 2, HContinue 2, HContinue 2]) = [s] \<and>
           hs_N s = 2 \<and> hs_Counts s = [0, 0] \<and> quantile_of scale q s = 0"
  using assms
  by (simp add: hist_run_def hist_init_def NewHistogram_def observe_n_def load_counts_def quantile_of_def i64_def Let_def)

text \<open>A whole call is the schedule of its actions.\<close>

lemma whole_Observe:
  "hy_calls y = [] \<Longrightarrow> hy_hist (fold hist_exec [HObserve d, HContinue 0, HContinue 0] y) = Observe d (hy_hist y)"
  by (simp add: Observe_def)

end
