(* ===== verification/Stream_ID.thy ===== *)
theory Stream_ID
  imports Prelude "HOL-Library.List_Lexorder" "HOL-Library.Char_ord"
begin

unbundle bit_operations_syntax

text \<open>
  Stream ids, \<open>lib/resume/streamid.go\<close>. The process state is the monotonic counter; the
  seeded hash of the process (\<open>hash/maphash\<close>) is a parameter \<open>sum64\<close> applied to the bytes
  written into it. The lemmas show that no two calls of a process hash the same bytes, that
  the order of the agents does not matter, and that the hex rendering is faithful.
\<close>

definition string_bytes :: "string \<Rightarrow> byte list" where
  "string_bytes s = map of_char s"

definition le_bytes :: "64 word \<Rightarrow> byte list" where
  "le_bytes c = map (\<lambda>i. ucast (drop_bit (8 * i) c)) [0..<8]"

definition stream_id_preimage :: "string \<Rightarrow> string \<Rightarrow> string \<Rightarrow> 64 word \<Rightarrow> 64 word \<Rightarrow> byte list" where
  "stream_id_preimage tenant agentA agentB c now =
     (let (a, b) = (if agentA > agentB then (agentB, agentA) else (agentA, agentB)) in
      string_bytes tenant @ string_bytes ''|'' @ string_bytes a @ string_bytes ''|'' @ string_bytes b
      @ le_bytes c @ le_bytes now)"

definition NewStreamID ::
  "(byte list \<Rightarrow> 64 word) \<Rightarrow> 64 word \<Rightarrow> 64 word \<Rightarrow> string \<Rightarrow> string \<Rightarrow> string \<Rightarrow> 64 word \<times> 64 word" where
  "NewStreamID sum64 now monotonicCounter tenant agentA agentB =
     (let c = monotonicCounter + 1
      in (sum64 (stream_id_preimage tenant agentA agentB c now), c))"

definition hex :: string where "hex = ''0123456789abcdef''"

definition StreamID_String :: "64 word \<Rightarrow> string" where
  "StreamID_String s = map (\<lambda>i. hex ! unat (drop_bit i s AND 0xf)) (rev (map (\<lambda>k. 4 * k) [0..<16]))"

subsection \<open>Lemmas\<close>

lemma length_le_bytes [simp]: "length (le_bytes c) = 8"
  by (simp add: le_bytes_def)

lemma le_bytes_inj: "le_bytes c = le_bytes d \<Longrightarrow> c = d"
proof (rule bit_word_eqI)
  fix n assume e: "le_bytes c = le_bytes d" and n: "n < LENGTH(64)"
  define i where "i = n div 8"
  have i: "i < 8" "n = 8 * i + n mod 8" using n by (simp_all add: i_def)
  have "(ucast (drop_bit (8 * i) c) :: byte) = ucast (drop_bit (8 * i) d)"
    using arg_cong [OF e, of "\<lambda>xs. xs ! i"] i(1) by (simp add: le_bytes_def)
  then have "bit (ucast (drop_bit (8 * i) c) :: byte) (n mod 8)
      = bit (ucast (drop_bit (8 * i) d) :: byte) (n mod 8)" by simp
  then show "bit c n \<longleftrightarrow> bit d n" using i(2) by (simp add: bit_simps)
qed

text \<open>
  No two stream ids of one process are hashes of the same bytes: if two calls of
  \<open>NewStreamID\<close> feed equal bytes to the hash, they were made with the same counter value and
  the same clock value, whatever tenants and agents they name. In particular the ids of A->B
  and B->A made by two calls are hashes of different inputs.
\<close>

theorem stream_id_preimage_distinct:
  assumes "stream_id_preimage t a b c now = stream_id_preimage t' a' b' c' now'"
  shows "c = c' \<and> now = now'"
proof -
  let ?p = "stream_id_preimage t a b c now" and ?q = "stream_id_preimage t' a' b' c' now'"
  have tail: "drop (length (stream_id_preimage t a b c now) - 16) (stream_id_preimage t a b c now)
      = le_bytes c @ le_bytes now" for t a b c now
    by (simp add: stream_id_preimage_def Let_def split: prod.splits)
  from assms have "le_bytes c @ le_bytes now = le_bytes c' @ le_bytes now'"
    using tail [of t a b c now] tail [of t' a' b' c' now'] by simp
  then show ?thesis by (auto dest: le_bytes_inj)
qed

theorem stream_id_preimage_distinct_witness:
  "stream_id_preimage ''acme'' ''a'' ''b'' 1 5 \<noteq> stream_id_preimage ''acme'' ''b'' ''a'' 2 5"
  using stream_id_preimage_distinct [of "''acme''" "''a''" "''b''" 1 5 "''acme''" "''b''" "''a''" 2 5]
  by auto

text \<open>
  The agent pair is unordered: with the same counter and clock, \<open>NewStreamID\<close> gives the
  same id for (A, B) and (B, A).
\<close>

theorem NewStreamID_symmetric:
  "NewStreamID sum64 now c tenant a b = NewStreamID sum64 now c tenant b a"
  by (cases "a = b") (auto simp: NewStreamID_def stream_id_preimage_def Let_def)

lemma hex_inj: "i < 16 \<Longrightarrow> j < 16 \<Longrightarrow> hex ! i = hex ! j \<longleftrightarrow> i = j"
  by (rule nth_eq_iff_index_eq) (simp_all add: hex_def)

lemma nibble_mask: "(0xf :: 'a::len word) = mask 4"
  by (simp add: mask_eq_exp_minus_1)

lemma nibble_less: "unat (x AND 0xf :: 'a::len word) < 16"
proof -
  have "unat (take_bit 4 x) < 2 ^ 4"
    by (simp only: unsigned_take_bit_eq take_bit_nat_less_exp)
  then show ?thesis by (simp only: nibble_mask flip: take_bit_eq_mask) simp
qed

lemma nibbles_determine:
  fixes s t :: "'a::len word"
  assumes "\<And>k. 4 * k < LENGTH('a) \<Longrightarrow>
      hex ! unat (drop_bit (4 * k) s AND 0xf) = hex ! unat (drop_bit (4 * k) t AND 0xf)"
  shows "s = t"
proof (rule bit_word_eqI)
  fix n assume n: "n < LENGTH('a)"
  define k where "k = n div 4"
  have k: "4 * k < LENGTH('a)" "n = 4 * k + n mod 4" using n by (simp_all add: k_def)
  from assms [OF k(1)] have "drop_bit (4 * k) s AND mask 4 = drop_bit (4 * k) t AND mask 4"
    by (simp add: hex_inj nibble_less word_unat_eq_iff flip: nibble_mask)
  then have "bit (drop_bit (4 * k) s AND mask 4) (n mod 4) = bit (drop_bit (4 * k) t AND mask 4) (n mod 4)"
    by simp
  moreover have "n mod 4 < LENGTH('a)" using n mod_less_eq_dividend [of n 4] by linarith
  ultimately show "bit s n \<longleftrightarrow> bit t n" using k(2) by (simp add: bit_simps)
qed

text \<open>
  The hex rendering of a stream id is 16 characters long and injective: two streams with
  different ids never share a log key.
\<close>

theorem StreamID_String_inj:
  "length (StreamID_String s) = 16 \<and> (StreamID_String s = StreamID_String t \<longleftrightarrow> s = t)"
proof (intro conjI iffI)
  show "length (StreamID_String s) = 16" by (simp add: StreamID_String_def)
  assume e: "StreamID_String s = StreamID_String t"
  show "s = t"
  proof (rule nibbles_determine)
    fix k assume "4 * k < LENGTH(64)"
    then show "hex ! unat (drop_bit (4 * k) s AND 0xf) = hex ! unat (drop_bit (4 * k) t AND 0xf)"
      using e by (auto simp: StreamID_String_def)
  qed
qed simp

end
