(* ===== verification/Identity.thy ===== *)
theory Identity
  imports Stream_ID
begin

unbundle bit_operations_syntax

text \<open>
  OutRelay identities, \<open>lib/identity/name.go\<close>: roles, names, their URI form and its parser.
  \<open>net/url.Parse\<close> and the \<open>google/uuid\<close> package are parameters: a parser of URLs into
  \<open>(Scheme, Host, Path)\<close>, a parser and a printer of UUIDs. What the code relies on is
  stated as \<open>url_lib_ok\<close> (an identity-shaped string is split at its separators) and
  \<open>uuid_lib_ok\<close> (printing is inverted by parsing and gives lower-case hex and hyphens).
\<close>

type_synonym uuid = "128 word"

definition Scheme :: string where "Scheme = ''outrelay''"

datatype Role = RoleUnknown | RoleAgent | RoleRelay | RoleOther int

fun Role_String :: "Role \<Rightarrow> string" where
  "Role_String RoleAgent = ''agent''"
| "Role_String RoleRelay = ''relay''"
| "Role_String _ = ''unknown''"

definition ErrInvalidScheme :: goerr where
  "ErrInvalidScheme = Sentinel ''identity: not an outrelay URI''"
definition ErrInvalidTenant :: goerr where
  "ErrInvalidTenant = Sentinel ''identity: invalid tenant''"
definition ErrInvalidPath :: goerr where
  "ErrInvalidPath = Sentinel ''identity: invalid path component''"
definition ErrInvalidUUID :: goerr where
  "ErrInvalidUUID = Sentinel ''identity: invalid agent uuid''"
definition ErrInvalidRelayID :: goerr where
  "ErrInvalidRelayID = Sentinel ''identity: invalid relay id''"

text \<open>The pattern \<open>^[a-z0-9][a-z0-9-]{0,62}$\<close> of tenants and relay ids.\<close>

definition lower_alnum :: "char \<Rightarrow> bool" where
  "lower_alnum c \<longleftrightarrow> (CHR ''a'' \<le> c \<and> c \<le> CHR ''z'') \<or> (CHR ''0'' \<le> c \<and> c \<le> CHR ''9'')"

fun dns_label :: "string \<Rightarrow> bool" where
  "dns_label [] \<longleftrightarrow> False"
| "dns_label (c # cs) \<longleftrightarrow> lower_alnum c \<and> length cs \<le> 62 \<and>
     list_all (\<lambda>d. lower_alnum d \<or> d = CHR ''-'') cs"

definition IsValidTenant :: "string \<Rightarrow> bool" where "IsValidTenant s \<longleftrightarrow> dns_label s"

definition IsValidRelayID :: "string \<Rightarrow> bool" where "IsValidRelayID s \<longleftrightarrow> dns_label s"

record Name =
  nm_role :: Role
  nm_tenant :: string
  nm_agent :: uuid
  nm_relay :: string

definition agent_name :: "string \<Rightarrow> uuid \<Rightarrow> Name" where
  "agent_name tenant u = \<lparr>nm_role = RoleAgent, nm_tenant = tenant, nm_agent = u, nm_relay = ''''\<rparr>"

definition relay_name :: "string \<Rightarrow> string \<Rightarrow> Name" where
  "relay_name region i = \<lparr>nm_role = RoleRelay, nm_tenant = region, nm_agent = 0, nm_relay = i\<rparr>"

fun Name_String :: "(uuid \<Rightarrow> string) \<Rightarrow> Name \<Rightarrow> string" where
  "Name_String uuid_string n =
     (case nm_role n of
        RoleAgent \<Rightarrow> Scheme @ ''://'' @ nm_tenant n @ ''/agent/'' @ uuid_string (nm_agent n)
      | RoleRelay \<Rightarrow> Scheme @ ''://'' @ nm_tenant n @ ''/relay/'' @ nm_relay n
      | _ \<Rightarrow> '''')"

record URL =
  u_scheme :: string
  u_host :: string
  u_path :: string

definition Name_URL :: "(string \<Rightarrow> URL res) \<Rightarrow> (uuid \<Rightarrow> string) \<Rightarrow> Name \<Rightarrow> URL option" where
  "Name_URL url_parse uuid_string n =
     (case url_parse (Name_String uuid_string n) of Inr u \<Rightarrow> Some u | Inl _ \<Rightarrow> None)"

definition NewAgent :: "uuid \<Rightarrow> string \<Rightarrow> Name res" where
  "NewAgent fresh_uuid tenant =
     (if \<not> IsValidTenant tenant then Inl ErrInvalidTenant else Inr (agent_name tenant fresh_uuid))"

definition NewRelay :: "string \<Rightarrow> string \<Rightarrow> Name res" where
  "NewRelay region i =
     (if \<not> IsValidTenant region then Inl ErrInvalidTenant
      else if \<not> IsValidRelayID i then Inl ErrInvalidRelayID
      else Inr (relay_name region i))"

definition parseURL :: "(string \<Rightarrow> uuid res) \<Rightarrow> URL \<Rightarrow> Name res" where
  "parseURL uuid_parse u =
     (if u_scheme u \<noteq> Scheme then Inl ErrInvalidScheme
      else if \<not> IsValidTenant (u_host u) then Inl ErrInvalidTenant
      else (let parts = Split (TrimPrefix (u_path u) ''/'') (CHR ''/'') in
        if length parts \<noteq> 2 \<or> parts ! 1 = '''' then Inl ErrInvalidPath
        else if parts ! 0 = ''agent'' then
          (case uuid_parse (parts ! 1) of
             Inl _ \<Rightarrow> Inl (Wrap ''uuid'' ErrInvalidUUID)
           | Inr i \<Rightarrow> Inr (agent_name (u_host u) i))
        else if parts ! 0 = ''relay'' then
          (if \<not> IsValidRelayID (parts ! 1) then Inl ErrInvalidRelayID
           else Inr (relay_name (u_host u) (parts ! 1)))
        else Inl ErrInvalidPath))"

definition Parse :: "(string \<Rightarrow> URL res) \<Rightarrow> (string \<Rightarrow> uuid res) \<Rightarrow> string \<Rightarrow> Name res" where
  "Parse url_parse uuid_parse s =
     (case url_parse s of
        Inl e \<Rightarrow> Inl (Wrap ''identity: parse'' e)
      | Inr u \<Rightarrow> parseURL uuid_parse u)"

definition FromURL :: "(string \<Rightarrow> uuid res) \<Rightarrow> URL \<Rightarrow> Name res" where
  "FromURL uuid_parse u = parseURL uuid_parse u"

subsection \<open>What is relied on of the two libraries\<close>

definition path_char :: "char \<Rightarrow> bool" where
  "path_char c \<longleftrightarrow> lower_alnum c \<or> c = CHR ''-'' \<or> c = CHR ''/''"

definition uuid_lib_ok :: "(string \<Rightarrow> uuid res) \<Rightarrow> (uuid \<Rightarrow> string) \<Rightarrow> bool" where
  "uuid_lib_ok uuid_parse uuid_string \<longleftrightarrow>
     (\<forall>u. uuid_parse (uuid_string u) = Inr u \<and> uuid_string u \<noteq> [] \<and>
          list_all (\<lambda>c. path_char c \<and> c \<noteq> CHR ''/'') (uuid_string u))"

definition url_lib_ok :: "(string \<Rightarrow> URL res) \<Rightarrow> bool" where
  "url_lib_ok url_parse \<longleftrightarrow>
     (\<forall>host path. dns_label host \<longrightarrow> list_all path_char path \<longrightarrow>
        url_parse (Scheme @ ''://'' @ host @ ''/'' @ path)
          = Inr \<lparr>u_scheme = Scheme, u_host = host, u_path = ''/'' @ path\<rparr>)"

subsection \<open>Well-formed names\<close>

definition name_wf :: "Name \<Rightarrow> bool" where
  "name_wf n \<longleftrightarrow> IsValidTenant (nm_tenant n) \<and>
     (n = agent_name (nm_tenant n) (nm_agent n) \<or>
      n = relay_name (nm_tenant n) (nm_relay n) \<and> IsValidRelayID (nm_relay n))"

lemma name_wf_cases:
  assumes "name_wf n"
  obtains (agent) t u where "n = agent_name t u" "dns_label t"
  | (relay) t i where "n = relay_name t i" "dns_label t" "dns_label i"
  using assms by (auto simp: name_wf_def IsValidTenant_def IsValidRelayID_def)

lemma New_wf:
  "NewAgent u t = Inr n \<Longrightarrow> name_wf n" "NewRelay t i = Inr n \<Longrightarrow> name_wf n"
  by (auto simp: NewAgent_def NewRelay_def name_wf_def agent_name_def relay_name_def split: if_splits)

lemma dns_label_chars: "dns_label s \<Longrightarrow> list_all (\<lambda>c. lower_alnum c \<or> c = CHR ''-'') s"
  by (cases s) auto

lemma dns_label_no_slash: "dns_label s \<Longrightarrow> CHR ''/'' \<notin> set s"
proof
  assume "dns_label s" "CHR ''/'' \<in> set s"
  with dns_label_chars have "lower_alnum (CHR ''/'') \<or> CHR ''/'' = CHR ''-''"
    by (auto simp: list_all_iff)
  then show False by (simp add: lower_alnum_def)
qed

lemma dns_label_path: "dns_label s \<Longrightarrow> list_all path_char s"
  using dns_label_chars by (auto simp: list_all_iff path_char_def)

lemma parseURL_wf: "parseURL uuid_parse u = Inr n \<Longrightarrow> name_wf n"
  by (auto simp: parseURL_def name_wf_def agent_name_def relay_name_def Let_def
      split: if_splits sum.splits)

lemma path_literals: "list_all path_char ''agent/''" "list_all path_char ''relay/''"
  by (simp_all add: path_char_def lower_alnum_def)

lemma split_agent: "CHR ''/'' \<notin> set s \<Longrightarrow> Split (''agent/'' @ s) (CHR ''/'') = [''agent'', s]"
  using Split_append_sep [of "CHR ''/''" "''agent''" s] by (simp add: Split_no_sep)

lemma split_relay: "CHR ''/'' \<notin> set s \<Longrightarrow> Split (''relay/'' @ s) (CHR ''/'') = [''relay'', s]"
  using Split_append_sep [of "CHR ''/''" "''relay''" s] by (simp add: Split_no_sep)

lemma Parse_Name_String:
  assumes url: "url_lib_ok url_parse" and uuid: "uuid_lib_ok uuid_parse uuid_string" and wf: "name_wf n"
  shows "Parse url_parse uuid_parse (Name_String uuid_string n) = Inr n"
  using wf
proof (cases rule: name_wf_cases)
  case (agent t u)
  let ?s = "uuid_string u"
  have s: "uuid_parse ?s = Inr u" "?s \<noteq> []" "list_all path_char ?s" "CHR ''/'' \<notin> set ?s"
    using uuid by (auto simp: uuid_lib_ok_def list_all_iff)
  have "list_all path_char (''agent/'' @ ?s)" using path_literals s by simp
  then have "url_parse (Scheme @ ''://'' @ t @ ''/'' @ (''agent/'' @ ?s))
      = Inr \<lparr>u_scheme = Scheme, u_host = t, u_path = ''/'' @ (''agent/'' @ ?s)\<rparr>"
    using url agent(2) unfolding url_lib_ok_def by blast
  moreover have "Name_String uuid_string n = Scheme @ ''://'' @ t @ ''/'' @ (''agent/'' @ ?s)"
    using agent by (simp add: agent_name_def)
  ultimately show ?thesis
    using agent s split_agent [OF s(4)]
    by (simp add: Parse_def parseURL_def IsValidTenant_def)
next
  case (relay t i)
  have i: "list_all path_char i" "CHR ''/'' \<notin> set i" "i \<noteq> []"
    using relay(3) dns_label_path dns_label_no_slash by auto
  have "list_all path_char (''relay/'' @ i)" using path_literals i by simp
  then have "url_parse (Scheme @ ''://'' @ t @ ''/'' @ (''relay/'' @ i))
      = Inr \<lparr>u_scheme = Scheme, u_host = t, u_path = ''/'' @ (''relay/'' @ i)\<rparr>"
    using url relay(2) unfolding url_lib_ok_def by blast
  moreover have "Name_String uuid_string n = Scheme @ ''://'' @ t @ ''/'' @ (''relay/'' @ i)"
    using relay by (simp add: relay_name_def)
  ultimately show ?thesis
    using relay i split_relay [OF i(2)]
    by (simp add: Parse_def parseURL_def IsValidTenant_def IsValidRelayID_def)
qed

subsection \<open>An instance of the two libraries\<close>

text \<open>
  The contracts can be met: splitting at the first slash after the scheme, and the 32 hex
  digits of a UUID (the hyphens of the canonical form play no role in the proofs).
\<close>

definition url_parse_ex :: "string \<Rightarrow> URL res" where
  "url_parse_ex s =
     (if take 11 s = ''outrelay://'' then
        Inr \<lparr>u_scheme = Scheme, u_host = takeWhile (\<lambda>c. c \<noteq> CHR ''/'') (drop 11 s),
             u_path = dropWhile (\<lambda>c. c \<noteq> CHR ''/'') (drop 11 s)\<rparr>
      else Inl (Fresh ''url''))"

definition uuid_string_ex :: "uuid \<Rightarrow> string" where
  "uuid_string_ex u = map (\<lambda>k. hex ! unat (drop_bit (4 * k) u AND 0xf)) [0..<32]"

definition uuid_parse_ex :: "string \<Rightarrow> uuid res" where
  "uuid_parse_ex s = (if s \<in> range uuid_string_ex then Inr (inv uuid_string_ex s) else Inl (Fresh ''uuid''))"

lemma url_lib_ex: "url_lib_ok url_parse_ex"
proof -
  have "takeWhile (\<lambda>c. c \<noteq> CHR ''/'') (h @ CHR ''/'' # p) = h"
    "dropWhile (\<lambda>c. c \<noteq> CHR ''/'') (h @ CHR ''/'' # p) = CHR ''/'' # p" if "dns_label h" for h p
    using dns_label_no_slash [OF that] by (induction h) auto
  then show ?thesis by (simp add: url_lib_ok_def url_parse_ex_def Scheme_def)
qed

lemma uuid_string_ex_inj: "inj uuid_string_ex"
proof (rule injI, rule nibbles_determine)
  fix s t :: uuid and k
  assume "uuid_string_ex s = uuid_string_ex t" and "4 * k < LENGTH(128)"
  then show "hex ! unat (drop_bit (4 * k) s AND 0xf) = hex ! unat (drop_bit (4 * k) t AND 0xf)"
    by (auto simp: uuid_string_ex_def)
qed

lemma hex_path_char: "i < 16 \<Longrightarrow> path_char (hex ! i) \<and> hex ! i \<noteq> CHR ''/''"
proof -
  assume "i < 16"
  then have "hex ! i \<in> set hex" by (intro nth_mem) (simp add: hex_def)
  moreover have "list_all (\<lambda>c. path_char c \<and> c \<noteq> CHR ''/'') hex"
    by (simp add: hex_def path_char_def lower_alnum_def)
  ultimately show ?thesis by (simp add: list_all_iff)
qed

lemma uuid_lib_ex: "uuid_lib_ok uuid_parse_ex uuid_string_ex"
proof -
  have "list_all (\<lambda>c. path_char c \<and> c \<noteq> CHR ''/'') (uuid_string_ex u)" for u
    by (simp add: uuid_string_ex_def list_all_iff hex_path_char nibble_less)
  moreover have "uuid_parse_ex (uuid_string_ex u) = Inr u" for u
    by (simp add: uuid_parse_ex_def uuid_string_ex_inj)
  moreover have "uuid_string_ex u \<noteq> []" for u by (simp add: uuid_string_ex_def)
  ultimately show ?thesis by (simp add: uuid_lib_ok_def)
qed

subsection \<open>Properties\<close>

text \<open>
  C22. Round trip of identities: every name built by \<open>NewAgent\<close> or \<open>NewRelay\<close> is read back
  unchanged by \<open>Parse\<close> from its URI form, given libraries that print and parse UUIDs and URLs
  faithfully. So the name in a certificate's URI SAN is the name the relay evaluates.
\<close>

theorem identity_roundtrip:
  assumes "url_lib_ok url_parse" and "uuid_lib_ok uuid_parse uuid_string"
    and "NewAgent u tenant = Inr n \<or> NewRelay tenant i = Inr n"
  shows "Parse url_parse uuid_parse (Name_String uuid_string n) = Inr n"
  using assms New_wf Parse_Name_String by blast

theorem identity_roundtrip_witness:
  "Parse url_parse_ex uuid_parse_ex (Name_String uuid_string_ex (agent_name ''acme'' 1))
     = Inr (agent_name ''acme'' 1)"
  by (rule identity_roundtrip [OF url_lib_ex uuid_lib_ex, of 1 "''acme''" _ "''r1''"])
     (simp add: NewAgent_def IsValidTenant_def lower_alnum_def)

text \<open>
  C23. Only well-formed names come out of the parser: whatever the URL and UUID libraries do,
  a name returned by \<open>Parse\<close> or \<open>FromURL\<close> has a valid tenant, is an agent with an empty relay
  id or a relay with a valid relay id and no agent id, and never has an unknown role.
\<close>

theorem Parse_well_formed:
  "(Parse url_parse uuid_parse s = Inr n \<longrightarrow> name_wf n) \<and>
   (FromURL uuid_parse u = Inr m \<longrightarrow> name_wf m \<and> nm_tenant m = u_host u)"
proof (intro conjI impI)
  assume "Parse url_parse uuid_parse s = Inr n"
  then show "name_wf n" by (auto simp: Parse_def parseURL_wf split: sum.splits)
next
  assume m: "FromURL uuid_parse u = Inr m"
  then show "name_wf m" by (auto simp: FromURL_def parseURL_wf)
  from m show "nm_tenant m = u_host u"
    by (auto simp: FromURL_def parseURL_def agent_name_def relay_name_def Let_def
        split: if_splits sum.splits)
qed

theorem Parse_well_formed_witness:
  "\<exists>n. Parse url_parse_ex uuid_parse_ex ''outrelay://eu/relay/r1'' = Inr n \<and> name_wf n \<and>
       FromURL uuid_parse_ex \<lparr>u_scheme = ''outrelay'', u_host = ''eu'', u_path = ''/relay/r1''\<rparr> = Inr n \<and> nm_tenant n = ''eu''"
proof -
  let ?u = "\<lparr>u_scheme = ''outrelay'', u_host = ''eu'', u_path = ''/relay/r1''\<rparr>"
  have f: "FromURL uuid_parse_ex ?u = Inr (relay_name ''eu'' ''r1'')"
    by (simp add: FromURL_def parseURL_def Scheme_def IsValidTenant_def IsValidRelayID_def lower_alnum_def)
  have "url_parse_ex ''outrelay://eu/relay/r1'' = Inr ?u" by (simp add: url_parse_ex_def Scheme_def)
  with f have p: "Parse url_parse_ex uuid_parse_ex ''outrelay://eu/relay/r1'' = Inr (relay_name ''eu'' ''r1'')"
    by (simp add: Parse_def FromURL_def)
  show ?thesis using Parse_well_formed [of url_parse_ex uuid_parse_ex "''outrelay://eu/relay/r1''" _ ?u] p f by fastforce
qed

text \<open>
  Identities are unambiguous: two well-formed names with the same URI are the same name,
  so no agent can present a relay's URI, nor one tenant another tenant's.
\<close>

theorem Name_String_injective:
  assumes "uuid_lib_ok uuid_parse uuid_string" and "name_wf n" and "name_wf m"
    and "Name_String uuid_string n = Name_String uuid_string m"
  shows "n = m"
proof -
  have "Inr n = (Inr m :: Name res)"
    using Parse_Name_String [OF url_lib_ex assms(1,2)] Parse_Name_String [OF url_lib_ex assms(1,3)]
      assms(4) by simp
  then show ?thesis by simp
qed

theorem Name_String_injective_witness:
  "Name_String uuid_string_ex (agent_name ''acme'' 1) \<noteq> Name_String uuid_string_ex (relay_name ''acme'' ''1'')"
proof
  assume e: "Name_String uuid_string_ex (agent_name ''acme'' 1) = Name_String uuid_string_ex (relay_name ''acme'' ''1'')"
  have "name_wf (agent_name ''acme'' 1)" "name_wf (relay_name ''acme'' ''1'')"
    by (simp_all add: name_wf_def agent_name_def relay_name_def IsValidTenant_def IsValidRelayID_def
        lower_alnum_def)
  from Name_String_injective [OF uuid_lib_ex this e] show False
    by (simp add: agent_name_def relay_name_def)
qed

end
