(* ===== verification/Store.thy ===== *)
theory Store
  imports Prelude
begin

text \<open>
  The controller's persistence layer, \<open>pkg/registry/store/sqlite.go\<close>: the five tables, their
  constraints and the SQL statements of every method. A table is the list of its rows. A
  statement runs in an environment that says what the outside world answers: the clock
  (\<open>time.Now().UnixMilli()\<close>) and, if the driver fails, its error, in which case the statement
  has no effect. Where SQL leaves the order of rows open (no \<open>ORDER BY\<close>, or equal sort keys)
  the order in which the engine visits the rows is a parameter \<open>scan\<close>, of which only
  \<open>is_scan\<close> (it visits every row once) is assumed.
\<close>

definition ErrNotFound :: goerr where "ErrNotFound = Sentinel ''store: not found''"

definition UniqueConstraint :: goerr where "UniqueConstraint = Sentinel ''UNIQUE constraint failed''"
definition CheckConstraint :: goerr where "CheckConstraint = Sentinel ''CHECK constraint failed''"

datatype stmt_stage = AtQuery | AtRows

record stmt_env =
  env_now :: ms
  env_fail :: "goerr option"
  env_stage :: stmt_stage

text \<open>
  A query that returns rows can fail when it is sent (\<open>QueryContext\<close>), an error the store
  wraps, or while its rows are read (\<open>rows.Scan\<close>, \<open>rows.Err\<close>), an error it returns as it is.
\<close>

definition query_err :: "stmt_env \<Rightarrow> string \<Rightarrow> goerr \<Rightarrow> goerr" where
  "query_err env what e = (case env_stage env of AtQuery \<Rightarrow> Wrap what e | AtRows \<Rightarrow> e)"

definition is_scan :: "('r list \<Rightarrow> 'r list) \<Rightarrow> bool" where
  "is_scan scan \<longleftrightarrow> (\<forall>rows. mset (scan rows) = mset rows)"

lemma scan_set: "is_scan scan \<Longrightarrow> set (scan rows) = set rows"
  by (metis is_scan_def mset_eq_setD)

subsection \<open>Tables\<close>

record agent_row =
  ag_uri :: string
  ag_tenant :: string
  ag_last_seen :: ms

record service_row =
  sv_id :: string
  sv_tenant :: string
  sv_name :: string
  sv_agent_uri :: string
  sv_relay_id :: string
  sv_local_addr :: string
  sv_health :: string
  sv_updated_at :: ms

record relay_row =
  rl_id :: string
  rl_region :: string
  rl_endpoint :: string
  rl_heartbeat :: ms

record Policy =
  po_id :: string
  po_tenant :: string
  po_caller_pattern :: string
  po_target_pattern :: string
  po_method_pattern :: string
  po_decision :: string
  po_expires :: ms
  po_created_at :: ms
  po_p2p_mode :: string
  po_relay_mode :: string

record audit_row =
  au_ts :: ms
  au_tenant :: string
  au_caller :: string
  au_target :: string
  au_method :: string
  au_decision :: string
  au_reason :: string
  au_stream_id :: string

record Store =
  st_agents :: "agent_row list"
  st_services :: "service_row list"
  st_relays :: "relay_row list"
  st_policies :: "Policy list"
  st_audit :: "audit_row list"

definition empty_store :: Store where
  "empty_store = \<lparr>st_agents = [], st_services = [], st_relays = [], st_policies = [], st_audit = []\<rparr>"

text \<open>
  \<open>Open\<close>: the driver may refuse the DSN or the schema; the schema statements are all
  \<open>IF NOT EXISTS\<close>, so an existing database keeps its rows.
\<close>

definition Open :: "goerr option \<Rightarrow> goerr option \<Rightarrow> Store option \<Rightarrow> Store res" where
  "Open open_err schema_err db =
     (case open_err of Some e \<Rightarrow> Inl (Wrap ''store: open'' e)
      | None \<Rightarrow>
        (case schema_err of Some e \<Rightarrow> Inl (Wrap ''store: apply schema'' e)
         | None \<Rightarrow> Inr (case db of None \<Rightarrow> empty_store | Some s \<Rightarrow> s)))"

subsection \<open>Keyed tables\<close>

definition table_lookup :: "('r \<Rightarrow> 'k) \<Rightarrow> 'k \<Rightarrow> 'r list \<Rightarrow> 'r option" where
  "table_lookup key k rows = find (\<lambda>r. key r = k) rows"

text \<open>\<open>INSERT ... ON CONFLICT(key) DO UPDATE\<close>: the row with the same key is updated in place.\<close>

definition upsert :: "('r \<Rightarrow> 'k) \<Rightarrow> ('r \<Rightarrow> 'r \<Rightarrow> 'r) \<Rightarrow> 'r \<Rightarrow> 'r list \<Rightarrow> 'r list" where
  "upsert key merge row rows =
     (if list_ex (\<lambda>r. key r = key row) rows
      then map (\<lambda>r. if key r = key row then merge r row else r) rows
      else rows @ [row])"

locale upsert_table =
  fixes key :: "'r \<Rightarrow> 'k" and merge :: "'r \<Rightarrow> 'r \<Rightarrow> 'r"
  assumes merge_key: "key old = key row \<Longrightarrow> key (merge old row) = key row"
begin

lemma keys_upsert:
  "map key (upsert key merge row rows) =
     (if key row \<in> key ` set rows then map key rows else map key rows @ [key row])"
  by (auto simp: upsert_def list_ex_iff merge_key intro!: rev_image_eqI)

lemma distinct_upsert: "distinct (map key rows) \<Longrightarrow> distinct (map key (upsert key merge row rows))"
  by (simp only: keys_upsert) (auto simp: image_iff)

lemma lookup_map_other:
  "k \<noteq> key row \<Longrightarrow>
     table_lookup key k (map (\<lambda>r. if key r = key row then merge r row else r) rows) = table_lookup key k rows"
  by (induction rows) (auto simp: table_lookup_def merge_key)

lemma lookup_map_same:
  "table_lookup key (key row) (map (\<lambda>r. if key r = key row then merge r row else r) rows) =
     map_option (\<lambda>old. merge old row) (table_lookup key (key row) rows)"
  by (induction rows) (auto simp: table_lookup_def merge_key)

lemma lookup_none: "table_lookup key k rows = None \<longleftrightarrow> k \<notin> key ` set rows"
  by (auto simp: table_lookup_def find_None_iff)

lemma lookup_append: "table_lookup key k (rows @ [row]) =
    (case table_lookup key k rows of Some r \<Rightarrow> Some r | None \<Rightarrow> if key row = k then Some row else None)"
  by (induction rows) (auto simp: table_lookup_def)

lemma lookup_upsert:
  "table_lookup key k (upsert key merge row rows) =
     (if k = key row
      then Some (case table_lookup key k rows of None \<Rightarrow> row | Some old \<Rightarrow> merge old row)
      else table_lookup key k rows)"
proof (cases "key row \<in> key ` set rows")
  case True
  then have u: "upsert key merge row rows = map (\<lambda>r. if key r = key row then merge r row else r) rows"
    by (auto simp: upsert_def list_ex_iff)
  from True obtain old where "table_lookup key (key row) rows = Some old"
    using lookup_none [of "key row" rows] by auto
  then show ?thesis by (simp add: u lookup_map_other lookup_map_same)
next
  case False
  then have "upsert key merge row rows = rows @ [row]"
    by (auto simp: upsert_def list_ex_iff image_iff)
  moreover from False have "table_lookup key (key row) rows = None" by (simp add: lookup_none)
  ultimately show ?thesis by (auto simp: lookup_append split: option.splits)
qed

lemma lookup_filter:
  "distinct (map key rows) \<Longrightarrow> table_lookup key k (filter P rows) =
     (case table_lookup key k rows of Some r \<Rightarrow> if P r then Some r else None | None \<Rightarrow> None)"
proof (induction rows)
  case (Cons a rows)
  then have "table_lookup key (key a) rows = None" "table_lookup key (key a) (filter P rows) = None"
    by (auto simp: lookup_none)
  with Cons show ?case by (cases "key a = k") (auto simp: table_lookup_def)
qed (simp add: table_lookup_def)

end

subsection \<open>Agents and relays\<close>

definition merge_agent :: "agent_row \<Rightarrow> agent_row \<Rightarrow> agent_row" where
  "merge_agent old excluded = old\<lparr>ag_tenant := ag_tenant excluded, ag_last_seen := ag_last_seen excluded\<rparr>"

definition UpsertAgent :: "stmt_env \<Rightarrow> Store \<Rightarrow> string \<Rightarrow> string \<Rightarrow> goerr option \<times> Store" where
  "UpsertAgent env s tenant agentURI =
     (case env_fail env of
        Some e \<Rightarrow> (Some (Wrap ''store: upsert agent'' e), s)
      | None \<Rightarrow> (None, s\<lparr>st_agents := upsert ag_uri merge_agent
                   \<lparr>ag_uri = agentURI, ag_tenant = tenant, ag_last_seen = env_now env\<rparr> (st_agents s)\<rparr>))"

definition merge_relay :: "relay_row \<Rightarrow> relay_row \<Rightarrow> relay_row" where
  "merge_relay old excluded =
     old\<lparr>rl_region := rl_region excluded, rl_endpoint := rl_endpoint excluded,
         rl_heartbeat := rl_heartbeat excluded\<rparr>"

definition store_UpsertRelay :: "stmt_env \<Rightarrow> Store \<Rightarrow> string \<Rightarrow> string \<Rightarrow> string \<Rightarrow> goerr option \<times> Store" where
  "store_UpsertRelay env s i region endpoint =
     (case env_fail env of
        Some e \<Rightarrow> (Some (Wrap ''store: upsert relay'' e), s)
      | None \<Rightarrow> (None, s\<lparr>st_relays := upsert rl_id merge_relay
                   \<lparr>rl_id = i, rl_region = region, rl_endpoint = endpoint, rl_heartbeat = env_now env\<rparr>
                   (st_relays s)\<rparr>))"

subsection \<open>Services\<close>

text \<open>The Go struct \<open>store.Service\<close>.\<close>

record Service =
  svc_ID :: string
  svc_Tenant :: string
  svc_Name :: string
  svc_AgentURI :: string
  svc_RelayID :: string
  svc_RelayEndpoint :: string
  svc_LocalAddr :: string
  svc_Health :: string
  svc_UpdatedAt :: ms

definition sv_key :: "service_row \<Rightarrow> string \<times> string" where
  "sv_key r = (sv_tenant r, sv_name r)"

definition merge_service :: "service_row \<Rightarrow> service_row \<Rightarrow> service_row" where
  "merge_service old excluded =
     old\<lparr>sv_agent_uri := sv_agent_uri excluded, sv_relay_id := sv_relay_id excluded,
         sv_local_addr := sv_local_addr excluded, sv_health := ''healthy'',
         sv_updated_at := sv_updated_at excluded\<rparr>"

definition service_id :: "string \<Rightarrow> string \<Rightarrow> string" where
  "service_id tenant name = tenant @ ''/'' @ name"

text \<open>
  The upsert names the constraint \<open>UNIQUE(tenant, name)\<close>, which the engine checks first: where a
  row of that \<open>(tenant, name)\<close> exists it is updated and keeps its \<open>id\<close>. A new row whose primary
  key \<open>id\<close> another row has is a constraint violation.
\<close>

definition store_RegisterService :: "stmt_env \<Rightarrow> Store \<Rightarrow> Service \<Rightarrow> string res \<times> Store" where
  "store_RegisterService env s svc =
     (let i = (if svc_ID svc = '''' then service_id (svc_Tenant svc) (svc_Name svc) else svc_ID svc);
          row = \<lparr>sv_id = i, sv_tenant = svc_Tenant svc, sv_name = svc_Name svc,
                 sv_agent_uri = svc_AgentURI svc, sv_relay_id = svc_RelayID svc,
                 sv_local_addr = svc_LocalAddr svc, sv_health = ''healthy'', sv_updated_at = env_now env\<rparr>
      in case env_fail env of
           Some e \<Rightarrow> (Inl (Wrap ''store: register service'' e), s)
         | None \<Rightarrow>
             if \<not> list_ex (\<lambda>r. sv_key r = sv_key row) (st_services s) \<and>
                list_ex (\<lambda>r. sv_id r = i) (st_services s)
             then (Inl (Wrap ''store: register service'' UniqueConstraint), s)
             else (Inr i, s\<lparr>st_services := upsert sv_key merge_service row (st_services s)\<rparr>))"

definition to_Service :: "service_row \<Rightarrow> string \<Rightarrow> Service" where
  "to_Service r endpoint =
     \<lparr>svc_ID = sv_id r, svc_Tenant = sv_tenant r, svc_Name = sv_name r, svc_AgentURI = sv_agent_uri r,
      svc_RelayID = sv_relay_id r, svc_RelayEndpoint = endpoint, svc_LocalAddr = sv_local_addr r,
      svc_Health = sv_health r, svc_UpdatedAt = sv_updated_at r\<rparr>"

text \<open>
  The \<open>LEFT JOIN\<close> with \<open>relay_instances\<close>, the \<open>CASE\<close> of the \<open>ORDER BY\<close> and \<open>LIMIT 1\<close>. Sorting by
  the second key first and then, stably, by the first gives the lexicographic order.
\<close>

definition relay_endpoint :: "Store \<Rightarrow> string \<Rightarrow> string" where
  "relay_endpoint s relayID =
     (case table_lookup rl_id relayID (st_relays s) of None \<Rightarrow> '''' | Some rl \<Rightarrow> rl_endpoint rl)"

definition region_rank :: "Store \<Rightarrow> string \<Rightarrow> service_row \<Rightarrow> nat" where
  "region_rank s callerRegion r =
     (case table_lookup rl_id (sv_relay_id r) (st_relays s) of
        Some rl \<Rightarrow> (if callerRegion \<noteq> '''' \<and> rl_region rl = callerRegion then 0 else 1)
      | None \<Rightarrow> 1)"

definition ResolveService ::
  "stmt_env \<Rightarrow> (service_row list \<Rightarrow> service_row list) \<Rightarrow> Store \<Rightarrow> string \<Rightarrow> string \<Rightarrow> string \<Rightarrow> Service res" where
  "ResolveService env scan s tenant name callerRegion =
     (case env_fail env of
        Some e \<Rightarrow> Inl (Wrap ''store: resolve'' e)
      | None \<Rightarrow>
          (case sort_key (region_rank s callerRegion)
                  (sort_key (\<lambda>r. - sv_updated_at r)
                    (scan (filter (\<lambda>r. sv_tenant r = tenant \<and> sv_name r = name) (st_services s)))) of
             [] \<Rightarrow> Inl ErrNotFound
           | r # _ \<Rightarrow> Inr (to_Service r (relay_endpoint s (sv_relay_id r)))))"

definition owned_by :: "string \<Rightarrow> string \<Rightarrow> string \<Rightarrow> service_row \<Rightarrow> bool" where
  "owned_by tenant agentURI relayID r \<longleftrightarrow>
     sv_tenant r = tenant \<and> sv_agent_uri r = agentURI \<and> sv_relay_id r = relayID"

text \<open>The two statements of \<open>DeregisterAgent\<close>, which are not one transaction.\<close>

definition dereg_select ::
  "stmt_env \<Rightarrow> (service_row list \<Rightarrow> service_row list) \<Rightarrow> Store \<Rightarrow> string \<Rightarrow> string \<Rightarrow> string \<Rightarrow> Service list res" where
  "dereg_select env scan s tenant agentURI relayID =
     (case env_fail env of
        Some e \<Rightarrow> Inl (query_err env ''store: list before deregister'' e)
      | None \<Rightarrow> Inr (map (\<lambda>r. to_Service r '''')
                      (scan (filter (owned_by tenant agentURI relayID) (st_services s)))))"

definition dereg_delete ::
  "stmt_env \<Rightarrow> Store \<Rightarrow> string \<Rightarrow> string \<Rightarrow> string \<Rightarrow> goerr option \<times> Store" where
  "dereg_delete env s tenant agentURI relayID =
     (case env_fail env of
        Some e \<Rightarrow> (Some (Wrap ''store: delete services'' e), s)
      | None \<Rightarrow> (None, s\<lparr>st_services :=
                   filter (\<lambda>r. \<not> owned_by tenant agentURI relayID r) (st_services s)\<rparr>))"

definition store_DeregisterAgent ::
  "stmt_env \<Rightarrow> stmt_env \<Rightarrow> (service_row list \<Rightarrow> service_row list) \<Rightarrow> Store
     \<Rightarrow> string \<Rightarrow> string \<Rightarrow> string \<Rightarrow> Service list res \<times> Store" where
  "store_DeregisterAgent env1 env2 scan s tenant agentURI relayID =
     (case dereg_select env1 scan s tenant agentURI relayID of
        Inl e \<Rightarrow> (Inl e, s)
      | Inr removed \<Rightarrow>
          (case dereg_delete env2 s tenant agentURI relayID of
             (Some e, s') \<Rightarrow> (Inl e, s')
           | (None, s') \<Rightarrow> (Inr removed, s')))"

definition CountServices :: "stmt_env \<Rightarrow> Store \<Rightarrow> nat res" where
  "CountServices env s =
     (case env_fail env of Some e \<Rightarrow> Inl e | None \<Rightarrow> Inr (length (st_services s)))"

subsection \<open>Policies\<close>

definition policy_defaults :: "stmt_env \<Rightarrow> Policy \<Rightarrow> Policy" where
  "policy_defaults env p =
     (let p = (if po_created_at p = 0 then p\<lparr>po_created_at := env_now env\<rparr> else p);
          p = (if po_p2p_mode p = '''' then p\<lparr>po_p2p_mode := ''allowed''\<rparr> else p)
      in (if po_relay_mode p = '''' then p\<lparr>po_relay_mode := ''splice''\<rparr> else p))"

text \<open>The \<open>CHECK\<close> constraints of the schema.\<close>

definition policy_check :: "Policy \<Rightarrow> bool" where
  "policy_check p \<longleftrightarrow> po_decision p \<in> set [''allow'', ''deny''] \<and>
     po_p2p_mode p \<in> set [''allowed'', ''forbidden'', ''required''] \<and>
     po_relay_mode p \<in> set [''splice'', ''forward'']"

definition store_AddPolicy :: "stmt_env \<Rightarrow> Store \<Rightarrow> Policy \<Rightarrow> goerr option \<times> Store" where
  "store_AddPolicy env s p =
     (let p = policy_defaults env p in
      case env_fail env of
        Some e \<Rightarrow> (Some (Wrap ''store: add policy'' e), s)
      | None \<Rightarrow>
          if \<not> policy_check p then (Some (Wrap ''store: add policy'' CheckConstraint), s)
          else if list_ex (\<lambda>q. po_id q = po_id p) (st_policies s)
          then (Some (Wrap ''store: add policy'' UniqueConstraint), s)
          else (None, s\<lparr>st_policies := st_policies s @ [p]\<rparr>))"

definition store_RemovePolicy :: "stmt_env \<Rightarrow> Store \<Rightarrow> string \<Rightarrow> string \<Rightarrow> bool res \<times> Store" where
  "store_RemovePolicy env s tenant i =
     (case env_fail env of
        Some e \<Rightarrow> (Inl (Wrap ''store: remove policy'' e), s)
      | None \<Rightarrow>
          (let hit = (\<lambda>p. po_tenant p = tenant \<and> po_id p = i);
               n = length (filter hit (st_policies s))
           in (Inr (n > 0), s\<lparr>st_policies := filter (\<lambda>p. \<not> hit p) (st_policies s)\<rparr>)))"

definition store_ListPolicies ::
  "stmt_env \<Rightarrow> (Policy list \<Rightarrow> Policy list) \<Rightarrow> Store \<Rightarrow> string \<Rightarrow> Policy list res" where
  "store_ListPolicies env scan s tenant =
     (case env_fail env of
        Some e \<Rightarrow> Inl (query_err env ''store: list policies'' e)
      | None \<Rightarrow> Inr (sort_key po_created_at (scan (filter (\<lambda>p. po_tenant p = tenant) (st_policies s)))))"

subsection \<open>Audit\<close>

definition RecordAudit :: "stmt_env \<Rightarrow> Store \<Rightarrow> audit_row \<Rightarrow> goerr option \<times> Store" where
  "RecordAudit env s ev =
     (let ev = (if au_ts ev = 0 then ev\<lparr>au_ts := env_now env\<rparr> else ev) in
      case env_fail env of
        Some e \<Rightarrow> (Some (Wrap ''store: record audit'' e), s)
      | None \<Rightarrow> (None, s\<lparr>st_audit := st_audit s @ [ev]\<rparr>))"

definition audit_where :: "string \<Rightarrow> string \<Rightarrow> string \<Rightarrow> ms \<Rightarrow> audit_row \<Rightarrow> bool" where
  "audit_where tenant caller target sinceUnixMs ev \<longleftrightarrow>
     au_tenant ev = tenant \<and> (caller \<noteq> '''' \<longrightarrow> au_caller ev = caller) \<and>
     (target \<noteq> '''' \<longrightarrow> au_target ev = target) \<and> (sinceUnixMs > 0 \<longrightarrow> au_ts ev \<ge> sinceUnixMs)"

definition QueryAudit ::
  "stmt_env \<Rightarrow> (audit_row list \<Rightarrow> audit_row list) \<Rightarrow> Store \<Rightarrow> string \<Rightarrow> string \<Rightarrow> string \<Rightarrow> ms \<Rightarrow> int
     \<Rightarrow> audit_row list res" where
  "QueryAudit env scan s tenant caller target sinceUnixMs limit =
     (case env_fail env of
        Some e \<Rightarrow> Inl (query_err env ''store: query audit'' e)
      | None \<Rightarrow>
          (let rows = sort_key (\<lambda>ev. - au_ts ev)
                        (scan (filter (audit_where tenant caller target sinceUnixMs) (st_audit s)))
           in Inr (if limit > 0 then take (nat limit) rows else rows)))"

subsection \<open>The schema's invariant\<close>

definition store_wf :: "Store \<Rightarrow> bool" where
  "store_wf s \<longleftrightarrow> distinct (map ag_uri (st_agents s)) \<and> distinct (map sv_id (st_services s)) \<and>
     distinct (map sv_key (st_services s)) \<and> distinct (map rl_id (st_relays s)) \<and>
     distinct (map po_id (st_policies s)) \<and> list_all policy_check (st_policies s)"

interpretation agents: upsert_table ag_uri merge_agent
  by unfold_locales (simp add: merge_agent_def)

interpretation relays: upsert_table rl_id merge_relay
  by unfold_locales (simp add: merge_relay_def)

interpretation services: upsert_table sv_key merge_service
  by unfold_locales (simp add: merge_service_def sv_key_def)

text \<open>The statements that change the store, and the stores they can produce.\<close>

datatype store_cmd =
    CmdUpsertAgent string string
  | CmdUpsertRelay string string string
  | CmdRegister Service
  | CmdDeregister string string string
  | CmdAddPolicy Policy
  | CmdRemovePolicy string string
  | CmdRecordAudit audit_row

fun store_exec :: "stmt_env \<Rightarrow> Store \<Rightarrow> store_cmd \<Rightarrow> Store" where
  "store_exec env s (CmdUpsertAgent t u) = snd (UpsertAgent env s t u)"
| "store_exec env s (CmdUpsertRelay i r e) = snd (store_UpsertRelay env s i r e)"
| "store_exec env s (CmdRegister svc) = snd (store_RegisterService env s svc)"
| "store_exec env s (CmdDeregister t a r) = snd (dereg_delete env s t a r)"
| "store_exec env s (CmdAddPolicy p) = snd (store_AddPolicy env s p)"
| "store_exec env s (CmdRemovePolicy t i) = snd (store_RemovePolicy env s t i)"
| "store_exec env s (CmdRecordAudit ev) = snd (RecordAudit env s ev)"

inductive store_reach :: "Store \<Rightarrow> bool" where
  reach_empty: "store_reach empty_store"
| reach_exec: "store_reach s \<Longrightarrow> store_reach (store_exec env s c)"

lemma register_ids:
  assumes "distinct (map sv_id rows)"
    and "\<not> (\<not> list_ex (\<lambda>r. sv_key r = sv_key row) rows \<and> list_ex (\<lambda>r. sv_id r = sv_id row) rows)"
  shows "distinct (map sv_id (upsert sv_key merge_service row rows))"
proof (cases "list_ex (\<lambda>r. sv_key r = sv_key row) rows")
  case True
  have "map (sv_id \<circ> (\<lambda>r. if sv_key r = sv_key row then merge_service r row else r)) rows = map sv_id rows"
    by (simp add: merge_service_def)
  with True assms(1) show ?thesis by (simp only: upsert_def if_True map_map)
next
  case False
  with assms show ?thesis by (auto simp: upsert_def list_ex_iff)
qed

lemma store_wf_RegisterService: "store_wf s \<Longrightarrow> store_wf (snd (store_RegisterService env s svc))"
  by (auto simp: store_RegisterService_def store_wf_def Let_def services.distinct_upsert
      intro!: register_ids split: option.splits if_splits)

lemma store_wf_AddPolicy: "store_wf s \<Longrightarrow> store_wf (snd (store_AddPolicy env s p))"
  by (auto simp: store_AddPolicy_def store_wf_def Let_def list_ex_iff list_all_iff split: option.splits)

lemma store_wf_filters:
  "store_wf s \<Longrightarrow> store_wf (s\<lparr>st_policies := filter P (st_policies s)\<rparr>)"
  "store_wf s \<Longrightarrow> store_wf (s\<lparr>st_services := filter Q (st_services s)\<rparr>)"
  by (auto simp: store_wf_def distinct_map_filter_key list_all_iff)

lemma store_wf_audit: "store_wf s \<Longrightarrow> store_wf (s\<lparr>st_audit := xs\<rparr>)"
  by (simp add: store_wf_def)

lemma store_wf_exec: "store_wf s \<Longrightarrow> store_wf (store_exec env s c)"
proof (cases c)
  case (CmdUpsertAgent t u)
  then show "store_wf s \<Longrightarrow> ?thesis"
    by (auto simp: UpsertAgent_def store_wf_def agents.distinct_upsert split: option.splits)
next
  case (CmdUpsertRelay i r e)
  then show "store_wf s \<Longrightarrow> ?thesis"
    by (auto simp: store_UpsertRelay_def store_wf_def relays.distinct_upsert split: option.splits)
qed (auto simp: store_wf_RegisterService store_wf_AddPolicy dereg_delete_def store_RemovePolicy_def
       RecordAudit_def Let_def store_wf_filters store_wf_audit split: option.splits)

lemma store_reach_wf: "store_reach s \<Longrightarrow> store_wf s"
  by (induction rule: store_reach.induct) (simp_all add: store_wf_exec, simp add: store_wf_def empty_store_def)

text \<open>
  The schema's constraints hold in every store the statements can produce, failing
  statements included: primary keys and \<open>UNIQUE(tenant, name)\<close> are unique and every policy row
  has a decision, a P2P mode and a relay mode of the allowed values.
\<close>

theorem store_constraints_hold: "store_reach s \<Longrightarrow> store_wf s"
  by (rule store_reach_wf)

definition ok_env :: "ms \<Rightarrow> stmt_env" where
  "ok_env t = \<lparr>env_now = t, env_fail = None, env_stage = AtQuery\<rparr>"

definition svc_of :: "string \<Rightarrow> string \<Rightarrow> string \<Rightarrow> string \<Rightarrow> string \<Rightarrow> Service" where
  "svc_of tenant name agentURI relayID localAddr =
     \<lparr>svc_ID = '''', svc_Tenant = tenant, svc_Name = name, svc_AgentURI = agentURI,
      svc_RelayID = relayID, svc_RelayEndpoint = '''', svc_LocalAddr = localAddr, svc_Health = '''',
      svc_UpdatedAt = 0\<rparr>"

theorem store_constraints_hold_witness:
  "store_wf (store_exec (ok_env 9) (store_exec (ok_env 5) empty_store
      (CmdRegister (svc_of ''acme'' ''pay'' ''u1'' ''r1'' ''''))) (CmdRegister (svc_of ''acme'' ''pay'' ''u2'' ''r2'' '''')))"
  by (rule store_constraints_hold) (intro store_reach.intros)

subsection \<open>Services: register, resolve, deregister\<close>

lemma is_scan_Nil: "is_scan scan \<Longrightarrow> scan [] = []"
  by (simp add: is_scan_def) (metis mset_zero_iff mset.simps(1))

lemma is_scan_single: "is_scan scan \<Longrightarrow> scan [x] = [x]"
  by (metis is_scan_def mset_single_iff_right)

lemma is_scan_set: "is_scan scan \<Longrightarrow> set (scan xs) = set xs"
  by (metis is_scan_def set_mset_mset)

lemma filter_by_key:
  "distinct (map key rows) \<Longrightarrow>
     filter (\<lambda>r. key r = k) rows = (case table_lookup key k rows of None \<Rightarrow> [] | Some r \<Rightarrow> [r])"
proof (induction rows)
  case (Cons a rows)
  have "filter (\<lambda>r. key r = key a) rows = []"
    using Cons.prems by (auto simp: filter_empty_conv) (metis image_eqI)
  with Cons show ?case by (auto simp: table_lookup_def)
qed (simp add: table_lookup_def)

lemma Resolve_lookup:
  assumes "store_wf s" and "is_scan scan" and "env_fail env = None"
  shows "ResolveService env scan s tenant name region =
     (case table_lookup sv_key (tenant, name) (st_services s) of
        None \<Rightarrow> Inl ErrNotFound
      | Some r \<Rightarrow> Inr (to_Service r (relay_endpoint s (sv_relay_id r))))"
proof -
  have "filter (\<lambda>r. sv_tenant r = tenant \<and> sv_name r = name) (st_services s)
      = filter (\<lambda>r. sv_key r = (tenant, name)) (st_services s)"
    by (simp add: sv_key_def)
  also have "\<dots> = (case table_lookup sv_key (tenant, name) (st_services s) of None \<Rightarrow> [] | Some r \<Rightarrow> [r])"
    using assms(1) by (intro filter_by_key) (simp add: store_wf_def)
  finally show ?thesis using assms(2,3)
    by (simp add: ResolveService_def is_scan_Nil is_scan_single split: option.splits)
qed

text \<open>
  C15. Register then resolve: after a successful registration the service resolves to the
  agent, relay and local address just registered, with the endpoint of that relay and the
  time of the registration; every other binding resolves as before. A second registration of
  the same pair replaces the first, whichever agent or relay made it.
\<close>

theorem register_then_resolve:
  assumes wf: "store_wf s" and scan: "is_scan scan" and env: "env_fail env' = None"
    and reg: "store_RegisterService env s svc = (Inr i, s')"
  shows "\<exists>r. ResolveService env' scan s' (svc_Tenant svc) (svc_Name svc) region = Inr r \<and>
           svc_AgentURI r = svc_AgentURI svc \<and> svc_RelayID r = svc_RelayID svc \<and>
           svc_LocalAddr r = svc_LocalAddr svc \<and> svc_UpdatedAt r = env_now env \<and>
           svc_RelayEndpoint r = relay_endpoint s (svc_RelayID svc) \<and>
           (\<forall>t n. (t, n) \<noteq> (svc_Tenant svc, svc_Name svc) \<longrightarrow>
              ResolveService env' scan s' t n region = ResolveService env' scan s t n region)"
proof -
  have wf': "store_wf s'" using store_wf_RegisterService [OF wf, of env svc] reg by simp
  obtain row where row: "s' = s\<lparr>st_services := upsert sv_key merge_service row (st_services s)\<rparr>"
    "sv_key row = (svc_Tenant svc, svc_Name svc)" "sv_agent_uri row = svc_AgentURI svc"
    "sv_relay_id row = svc_RelayID svc" "sv_local_addr row = svc_LocalAddr svc"
    "sv_updated_at row = env_now env"
    using reg by (auto simp: store_RegisterService_def Let_def sv_key_def split: option.splits if_splits)
  have ep: "relay_endpoint s' = relay_endpoint s" by (simp add: row relay_endpoint_def fun_eq_iff)
  have "ResolveService env' scan s' t n region = ResolveService env' scan s t n region"
    if "(t, n) \<noteq> (svc_Tenant svc, svc_Name svc)" for t n
    unfolding Resolve_lookup [OF wf' scan env] Resolve_lookup [OF wf scan env] ep
    using that row(2) by (auto simp: row(1) services.lookup_upsert)
  moreover have "\<exists>old. table_lookup sv_key (svc_Tenant svc, svc_Name svc) (st_services s') = Some old \<and>
      sv_agent_uri old = svc_AgentURI svc \<and> sv_relay_id old = svc_RelayID svc \<and>
      sv_local_addr old = svc_LocalAddr svc \<and> sv_updated_at old = env_now env"
    using row services.lookup_upsert [of "(svc_Tenant svc, svc_Name svc)" row "st_services s"]
    by (auto simp: merge_service_def split: option.splits)
  ultimately show ?thesis
    using Resolve_lookup [OF wf' scan env, of "svc_Tenant svc" "svc_Name svc" region] ep
    by (auto simp: to_Service_def)
qed

theorem register_then_resolve_witness:
  "\<exists>r. ResolveService (ok_env 9) id (snd (store_RegisterService (ok_env 5) empty_store
          (svc_of ''acme'' ''pay'' ''u1'' ''r1'' ''127.0.0.1:80''))) ''acme'' ''pay'' ''eu'' = Inr r \<and>
       svc_AgentURI r = ''u1'' \<and> svc_RelayID r = ''r1''"
proof -
  have "store_wf empty_store" by (simp add: store_wf_def empty_store_def)
  moreover have "is_scan id" by (simp add: is_scan_def)
  ultimately show ?thesis
    using register_then_resolve [of empty_store id "ok_env 9" "ok_env 5"
        "svc_of ''acme'' ''pay'' ''u1'' ''r1'' ''127.0.0.1:80''" "''acme/pay''"
        "snd (store_RegisterService (ok_env 5) empty_store (svc_of ''acme'' ''pay'' ''u1'' ''r1'' ''127.0.0.1:80''))" "''eu''"]
    by (auto simp: store_RegisterService_def svc_of_def ok_env_def empty_store_def service_id_def Let_def)
qed

text \<open>
  The caller's region never matters: in every store the statements can produce, resolving
  a service gives the same answer for every caller region, because \<open>UNIQUE(tenant, name)\<close>
  leaves at most one provider to choose from.
\<close>

theorem resolve_ignores_region:
  assumes "store_reach s" and "is_scan scan"
  shows "ResolveService env scan s tenant name region = ResolveService env scan s tenant name region'"
proof (cases "env_fail env")
  case None
  then show ?thesis using assms store_reach_wf by (simp add: Resolve_lookup)
qed (simp add: ResolveService_def)

theorem resolve_ignores_region_witness:
  "ResolveService (ok_env 1) id empty_store ''acme'' ''pay'' ''eu''
     = ResolveService (ok_env 1) id empty_store ''acme'' ''pay'' ''us''"
  by (rule resolve_ignores_region) (simp_all add: store_reach.intros is_scan_def)

lemma filter_removed_lookup:
  assumes "store_wf s"
  shows "table_lookup sv_key k (filter (\<lambda>r. \<not> owned_by t a rl r) (st_services s)) =
    (case table_lookup sv_key k (st_services s) of
       Some r \<Rightarrow> if owned_by t a rl r then None else Some r | None \<Rightarrow> None)"
  using assms by (subst services.lookup_filter) (auto simp: store_wf_def split: option.splits)

text \<open>
  C16. Deregistering an agent removes exactly its services on that relay: the returned list has
  each of them once, none of them resolves any more, and every other service of the tenant,
  of other tenants and of the same agent on another relay resolves as before.
\<close>

theorem deregister_exact:
  assumes wf: "store_wf s" and scan: "is_scan scan" and env: "env_fail env' = None"
    and dereg: "store_DeregisterAgent env1 env2 scan s tenant agentURI relayID = (Inr removed, s')"
  shows "mset removed = mset (map (\<lambda>r. to_Service r '''') (filter (owned_by tenant agentURI relayID) (st_services s))) \<and>
         (\<forall>t n. ResolveService env' scan s' t n region =
            (case table_lookup sv_key (t, n) (st_services s) of
               Some r \<Rightarrow> if owned_by tenant agentURI relayID r then Inl ErrNotFound
                         else ResolveService env' scan s t n region
             | None \<Rightarrow> Inl ErrNotFound))"
proof -
  have s': "s' = s\<lparr>st_services := filter (\<lambda>r. \<not> owned_by tenant agentURI relayID r) (st_services s)\<rparr>"
    and rm: "removed = map (\<lambda>r. to_Service r '''') (scan (filter (owned_by tenant agentURI relayID) (st_services s)))"
    using dereg by (auto simp: store_DeregisterAgent_def dereg_select_def dereg_delete_def
        split: option.splits sum.splits prod.splits)
  have wf': "store_wf s'" using wf by (simp add: s' store_wf_filters)
  have "relay_endpoint s' = relay_endpoint s" by (simp add: s' relay_endpoint_def fun_eq_iff)
  then have "ResolveService env' scan s' t n region =
            (case table_lookup sv_key (t, n) (st_services s) of
               Some r \<Rightarrow> if owned_by tenant agentURI relayID r then Inl ErrNotFound
                         else ResolveService env' scan s t n region
             | None \<Rightarrow> Inl ErrNotFound)" for t n
    unfolding Resolve_lookup [OF wf' scan env] Resolve_lookup [OF wf scan env]
    by (auto simp: s' filter_removed_lookup [OF wf] split: option.splits)
  moreover have "mset removed = mset (map (\<lambda>r. to_Service r '''') (filter (owned_by tenant agentURI relayID) (st_services s)))"
    using scan by (simp add: rm is_scan_def)
  ultimately show ?thesis by blast
qed

theorem deregister_exact_witness:
  "ResolveService (ok_env 9) id (snd (store_DeregisterAgent (ok_env 7) (ok_env 8) id
      (snd (store_RegisterService (ok_env 5) empty_store (svc_of ''acme'' ''pay'' ''u1'' ''r1'' '''')))
      ''acme'' ''u1'' ''r1'')) ''acme'' ''pay'' '''' = Inl ErrNotFound"
proof -
  let ?s = "snd (store_RegisterService (ok_env 5) empty_store (svc_of ''acme'' ''pay'' ''u1'' ''r1'' ''''))"
  let ?d = "store_DeregisterAgent (ok_env 7) (ok_env 8) id ?s ''acme'' ''u1'' ''r1''"
  have "store_wf empty_store" by (simp add: store_wf_def empty_store_def)
  then have wf: "store_wf ?s" by (rule store_wf_RegisterService)
  obtain removed where d: "?d = (Inr removed, snd ?d)"
    by (simp add: store_DeregisterAgent_def dereg_select_def dereg_delete_def ok_env_def)
  from deregister_exact [OF wf _ _ d, of "ok_env 9"]
  have "ResolveService (ok_env 9) id (snd ?d) ''acme'' ''pay'' '''' =
      (case table_lookup sv_key (''acme'', ''pay'') (st_services ?s) of
         Some r \<Rightarrow> if owned_by ''acme'' ''u1'' ''r1'' r then Inl ErrNotFound
                   else ResolveService (ok_env 9) id ?s ''acme'' ''pay'' ''''
       | None \<Rightarrow> Inl ErrNotFound)"
    by (simp add: is_scan_def ok_env_def)
  also have "\<dots> = Inl ErrNotFound"
    by (simp add: store_RegisterService_def svc_of_def ok_env_def empty_store_def Let_def upsert_def
        table_lookup_def sv_key_def owned_by_def)
  finally show ?thesis .
qed

subsection \<open>Service ids\<close>

definition canonical_ids :: "Store \<Rightarrow> bool" where
  "canonical_ids s \<longleftrightarrow> list_all (\<lambda>r. sv_id r = service_id (sv_tenant r) (sv_name r)) (st_services s)"

definition slash_free_tenants :: "Store \<Rightarrow> bool" where
  "slash_free_tenants s \<longleftrightarrow> list_all (\<lambda>r. CHR ''/'' \<notin> set (sv_tenant r)) (st_services s)"

lemma service_id_inj:
  assumes "CHR ''/'' \<notin> set t" and "CHR ''/'' \<notin> set t'" and "service_id t n = service_id t' n'"
  shows "t = t' \<and> n = n'"
proof -
  have w: "takeWhile (\<lambda>c. c \<noteq> CHR ''/'') (service_id t n) = t" if "CHR ''/'' \<notin> set t" for t n
    using that by (induction t) (auto simp: service_id_def)
  from w [OF assms(1), of n] w [OF assms(2), of n'] assms(3) have "t = t'" by simp
  with assms(3) show ?thesis by (simp add: service_id_def)
qed

lemma upsert_row_cases:
  assumes "r \<in> set (upsert sv_key merge_service row rows)"
  shows "r = row \<or> (\<exists>old \<in> set rows. sv_id r = sv_id old \<and> sv_key r = sv_key old)"
  using assms by (auto simp: upsert_def merge_service_def sv_key_def split: if_splits)

lemma upsert_list_all:
  assumes "list_all Q rows" and "Q row"
    and frame: "\<And>r old. sv_id r = sv_id old \<Longrightarrow> sv_key r = sv_key old \<Longrightarrow> Q old \<Longrightarrow> Q r"
  shows "list_all Q (upsert sv_key merge_service row rows)"
  unfolding list_all_iff
proof
  fix r assume "r \<in> set (upsert sv_key merge_service row rows)"
  from upsert_row_cases [OF this] show "Q r" using assms by (auto simp: list_all_iff)
qed

lemma canonical_upsert:
  assumes "canonical_ids s" and "sv_id row = service_id (sv_tenant row) (sv_name row)"
  shows "canonical_ids (s\<lparr>st_services := upsert sv_key merge_service row (st_services s)\<rparr>)"
proof -
  have "list_all (\<lambda>r. sv_id r = service_id (sv_tenant r) (sv_name r)) (upsert sv_key merge_service row (st_services s))"
    using assms by (intro upsert_list_all) (auto simp: canonical_ids_def sv_key_def)
  then show ?thesis by (simp add: canonical_ids_def)
qed

lemma slash_free_upsert:
  assumes "slash_free_tenants s" and "CHR ''/'' \<notin> set (sv_tenant row)"
  shows "slash_free_tenants (s\<lparr>st_services := upsert sv_key merge_service row (st_services s)\<rparr>)"
proof -
  have "list_all (\<lambda>r. CHR ''/'' \<notin> set (sv_tenant r)) (upsert sv_key merge_service row (st_services s))"
    using assms by (intro upsert_list_all) (auto simp: slash_free_tenants_def sv_key_def)
  then show ?thesis by (simp add: slash_free_tenants_def)
qed

text \<open>
  With tenants free of slashes registration cannot fail on its own: if the stored
  services have the ids the store computes and slash-free tenants, registering for another
  slash-free tenant succeeds whenever the driver does, and keeps both conditions, so one
  tenant can never block another's registration.
\<close>

theorem register_never_collides:
  assumes "canonical_ids s" and "slash_free_tenants s" and "env_fail env = None"
    and "svc_ID svc = ''''" and "CHR ''/'' \<notin> set (svc_Tenant svc)"
  shows "\<exists>s'. store_RegisterService env s svc = (Inr (service_id (svc_Tenant svc) (svc_Name svc)), s') \<and>
              canonical_ids s' \<and> slash_free_tenants s'"
proof -
  have "list_ex (\<lambda>r. sv_key r = (svc_Tenant svc, svc_Name svc)) (st_services s) \<or>
      \<not> list_ex (\<lambda>r. sv_id r = service_id (svc_Tenant svc) (svc_Name svc)) (st_services s)"
  proof (rule ccontr)
    assume "\<not> ?thesis"
    then obtain r where r: "r \<in> set (st_services s)" "sv_key r \<noteq> (svc_Tenant svc, svc_Name svc)"
      "sv_id r = service_id (svc_Tenant svc) (svc_Name svc)" by (auto simp: list_ex_iff)
    with assms(1,2) have e: "service_id (sv_tenant r) (sv_name r) = service_id (svc_Tenant svc) (svc_Name svc)"
      and t: "CHR ''/'' \<notin> set (sv_tenant r)"
      by (auto simp: canonical_ids_def slash_free_tenants_def list_all_iff)
    from service_id_inj [OF t assms(5) e] r(2) show False by (simp add: sv_key_def)
  qed
  then show ?thesis using assms
    by (auto simp: store_RegisterService_def sv_key_def Let_def canonical_upsert slash_free_upsert)
qed

theorem register_never_collides_witness:
  "\<exists>s'. store_RegisterService (ok_env 5) empty_store (svc_of ''acme'' ''b/c'' ''u1'' ''r1'' '''') = (Inr ''acme/b/c'', s')"
  using register_never_collides [of empty_store "ok_env 5" "svc_of ''acme'' ''b/c'' ''u1'' ''r1'' ''''"]
  by (auto simp: canonical_ids_def slash_free_tenants_def empty_store_def ok_env_def svc_of_def service_id_def)

lemma id_taken:
  assumes "store_wf s" and "canonical_ids s" and "old \<in> set (st_services s)"
    and "sv_id old = service_id t n" and "sv_key old \<noteq> (t, n)"
  shows "\<not> list_ex (\<lambda>q. sv_key q = (t, n)) (st_services s) \<and> list_ex (\<lambda>q. sv_id q = service_id t n) (st_services s)"
proof -
  have inj: "inj_on sv_id (set (st_services s))" using assms(1) by (simp add: store_wf_def distinct_map)
  have "q = old" if q: "q \<in> set (st_services s)" "sv_key q = (t, n)" for q
  proof (rule inj_onD [OF inj _ q(1) assms(3)])
    show "sv_id q = sv_id old" using q assms(2,4) by (simp add: canonical_ids_def list_all_iff sv_key_def)
  qed
  with assms(3-5) show ?thesis by (auto simp: list_ex_iff)
qed

text \<open>
  A tenant with a slash can block another tenant: after \<open>(a/b, c)\<close> is registered, the
  registration of \<open>(a, b/c)\<close> fails with the primary key constraint, because both have the
  service id \<open>a/b/c\<close>. The registry server does not check the tenant's syntax.
\<close>

theorem register_slash_collision:
  assumes "canonical_ids s" and "store_wf s" and "env_fail env' = None"
    and "store_RegisterService env s (svc_of (a @ ''/'' @ b) c u r l) = (Inr i, s')"
  shows "store_RegisterService env' s' (svc_of a (b @ ''/'' @ c) u' r' l')
           = (Inl (Wrap ''store: register service'' UniqueConstraint), s')"
proof -
  obtain row where s': "s' = s\<lparr>st_services := upsert sv_key merge_service row (st_services s)\<rparr>"
    and row: "sv_key row = (a @ ''/'' @ b, c)" "sv_id row = service_id (a @ ''/'' @ b) c"
    using assms(4)
    by (auto simp: store_RegisterService_def svc_of_def sv_key_def Let_def split: option.splits if_splits)
  from services.lookup_upsert [of "sv_key row" row "st_services s"]
  obtain old where "table_lookup sv_key (sv_key row) (st_services s') = Some old"
    by (auto simp: s')
  then have old: "old \<in> set (st_services s')" "sv_key old = (a @ ''/'' @ b, c)"
    using row by (auto simp: table_lookup_def find_Some_iff)
  moreover have "sv_id old = service_id (a @ ''/'' @ b) c"
    using upsert_row_cases [of old row "st_services s"] old row assms(1) s'
    by (auto simp: canonical_ids_def list_all_iff sv_key_def)
  moreover have "store_wf s'" "canonical_ids s'"
    using store_wf_RegisterService [OF assms(2), of env "svc_of (a @ ''/'' @ b) c u r l"] assms(1,4) row
    by (auto simp: s' sv_key_def intro!: canonical_upsert)
  ultimately have "\<not> list_ex (\<lambda>q. sv_key q = (a, b @ ''/'' @ c)) (st_services s') \<and>
      list_ex (\<lambda>q. sv_id q = service_id a (b @ ''/'' @ c)) (st_services s')"
    by (intro id_taken) (auto simp: service_id_def)
  then show ?thesis using assms(3)
    by (simp add: store_RegisterService_def svc_of_def sv_key_def Let_def)
qed

theorem register_slash_collision_witness:
  "fst (store_RegisterService (ok_env 6)
      (snd (store_RegisterService (ok_env 5) empty_store (svc_of ''a/b'' ''c'' ''u1'' ''r1'' '''')))
      (svc_of ''a'' ''b/c'' ''u2'' ''r2'' '''')) = Inl (Wrap ''store: register service'' UniqueConstraint)"
  using register_slash_collision [of empty_store "ok_env 6" "ok_env 5" "''a''" "''b''" "''c''" "''u1''" "''r1''" "''''"
      "''a/b/c''" "snd (store_RegisterService (ok_env 5) empty_store (svc_of ''a/b'' ''c'' ''u1'' ''r1'' ''''))"
      "''u2''" "''r2''" "''''"]
  by (simp add: canonical_ids_def store_wf_def empty_store_def ok_env_def store_RegisterService_def svc_of_def
      service_id_def sv_key_def Let_def upsert_def)

subsection \<open>Policies\<close>

lemma List_rows:
  assumes "is_scan scan" and "env_fail env = None"
  obtains ps where "store_ListPolicies env scan s t = Inr ps" and "sorted (map po_created_at ps)"
    and "mset ps = mset (filter (\<lambda>p. po_tenant p = t) (st_policies s))"
  using assms by (auto simp: store_ListPolicies_def is_scan_def)

text \<open>
  Listing after a successful add: the tenant's list gains exactly the new rule with its
  defaults filled in, in order of creation time; every other tenant's rules are the same.
  Removing by \<open>(tenant, id)\<close> reports whether the rule was there, takes only that rule out, and
  never touches another tenant's rule even when the id matches.
\<close>

theorem policy_rows:
  assumes "store_wf s"
  shows "(store_AddPolicy env s p = (None, s') \<longrightarrow>
            mset (filter (\<lambda>q. po_tenant q = t) (st_policies s')) =
            mset (filter (\<lambda>q. po_tenant q = t) (st_policies s)) +
              (if po_tenant p = t then {#policy_defaults env p#} else {#})) \<and>
         (store_RemovePolicy env s tenant i = (Inr b, s'') \<longrightarrow>
            (b \<longleftrightarrow> (\<exists>q \<in> set (st_policies s). po_tenant q = tenant \<and> po_id q = i)) \<and>
            st_policies s'' = filter (\<lambda>q. \<not> (po_tenant q = tenant \<and> po_id q = i)) (st_policies s) \<and>
            (t \<noteq> tenant \<longrightarrow> filter (\<lambda>q. po_tenant q = t) (st_policies s'') = filter (\<lambda>q. po_tenant q = t) (st_policies s)))"
proof (intro conjI impI)
  have t: "po_tenant (policy_defaults env p) = po_tenant p"
    by (simp add: policy_defaults_def Let_def)
  assume "store_AddPolicy env s p = (None, s')"
  then show "mset (filter (\<lambda>q. po_tenant q = t) (st_policies s')) =
            mset (filter (\<lambda>q. po_tenant q = t) (st_policies s)) +
              (if po_tenant p = t then {#policy_defaults env p#} else {#})"
    by (auto simp: store_AddPolicy_def Let_def t split: option.splits if_splits)
next
  assume r: "store_RemovePolicy env s tenant i = (Inr b, s'')"
  then show p: "st_policies s'' = filter (\<lambda>q. \<not> (po_tenant q = tenant \<and> po_id q = i)) (st_policies s)"
    by (auto simp: store_RemovePolicy_def Let_def split: option.splits)
  from r show "b \<longleftrightarrow> (\<exists>q \<in> set (st_policies s). po_tenant q = tenant \<and> po_id q = i)"
    by (auto simp: store_RemovePolicy_def Let_def filter_empty_conv split: option.splits)
  assume "t \<noteq> tenant"
  then show "filter (\<lambda>q. po_tenant q = t) (st_policies s'') = filter (\<lambda>q. po_tenant q = t) (st_policies s)"
    by (auto simp: p intro!: filter_cong)
qed

definition allow_rule :: Policy where
  "allow_rule = \<lparr>po_id = ''p1'', po_tenant = ''acme'', po_caller_pattern = ''*'', po_target_pattern = ''*'',
     po_method_pattern = '''', po_decision = ''allow'', po_expires = 0, po_created_at = 0,
     po_p2p_mode = '''', po_relay_mode = ''''\<rparr>"

theorem policy_rows_witness:
  "st_policies (snd (store_RemovePolicy (ok_env 6) (snd (store_AddPolicy (ok_env 5) empty_store allow_rule)) ''evil'' ''p1''))
     = st_policies (snd (store_AddPolicy (ok_env 5) empty_store allow_rule))"
proof -
  let ?s = "snd (store_AddPolicy (ok_env 5) empty_store allow_rule)"
  have "store_wf empty_store" by (simp add: store_wf_def empty_store_def)
  then have wf: "store_wf ?s" by (rule store_wf_AddPolicy)
  have "st_policies ?s = [allow_rule\<lparr>po_created_at := 5, po_p2p_mode := ''allowed'', po_relay_mode := ''splice''\<rparr>]"
    by (simp add: store_AddPolicy_def ok_env_def empty_store_def allow_rule_def policy_defaults_def
        policy_check_def Let_def)
  moreover have "store_RemovePolicy (ok_env 6) ?s ''evil'' ''p1''
      = (Inr False, snd (store_RemovePolicy (ok_env 6) ?s ''evil'' ''p1''))"
    using calculation by (simp add: store_RemovePolicy_def ok_env_def allow_rule_def)
  ultimately show ?thesis
    using policy_rows [OF wf, where env = "ok_env 6" and tenant = "''evil''" and i = "''p1''"] by (simp add: allow_rule_def)
qed

subsection \<open>Audit\<close>

lemma sorted_take_drop:
  assumes "sorted (map f xs)" and "x \<in> set (take n xs)" and "y \<in> set (drop n xs)"
  shows "f x \<le> f y"
proof -
  have "sorted (map f (take n xs) @ map f (drop n xs))"
    using assms(1) by (metis append_take_drop_id map_append)
  then show ?thesis using assms(2,3) by (auto simp: sorted_append)
qed

text \<open>
  C33. An audit query answers the newest matching events: every returned event matches the
  filter and is a stored one, the answer is in order of descending time, has the smaller of
  \<open>limit\<close> and the number of matches (all of them for a limit of zero or less), and no matching
  event that was left out is newer than one that was returned.
\<close>

theorem QueryAudit_newest:
  assumes "is_scan scan" and "QueryAudit env scan s tenant caller target since limit = Inr rows"
  shows "sorted (map (\<lambda>ev. - au_ts ev) rows) \<and>
         mset rows \<subseteq># mset (filter (audit_where tenant caller target since) (st_audit s)) \<and>
         length rows = (let n = length (filter (audit_where tenant caller target since) (st_audit s))
                        in if limit > 0 then min (nat limit) n else n) \<and>
         (\<forall>ev \<in># mset (filter (audit_where tenant caller target since) (st_audit s)) - mset rows.
            \<forall>r \<in> set rows. au_ts ev \<le> au_ts r)"
proof -
  let ?hits = "filter (audit_where tenant caller target since) (st_audit s)"
  define all_rows where "all_rows = sort_key (\<lambda>ev. - au_ts ev) (scan ?hits)"
  define n where "n = (if limit > 0 then nat limit else length all_rows)"
  have rows: "rows = take n all_rows" using assms(2)
    by (auto simp: QueryAudit_def all_rows_def n_def Let_def split: option.splits)
  have ms: "mset all_rows = mset ?hits" using assms(1) by (simp add: all_rows_def is_scan_def)
  then have len: "length all_rows = length ?hits" by (metis size_mset)
  have st: "sorted (map (\<lambda>ev. - au_ts ev) all_rows)" by (simp add: all_rows_def)
  have "mset ?hits = mset rows + mset (drop n all_rows)"
    by (metis ms rows append_take_drop_id mset_append)
  then have "mset rows \<subseteq># mset ?hits" and rest: "mset ?hits - mset rows = mset (drop n all_rows)" by simp_all
  moreover have "sorted (map (\<lambda>ev. - au_ts ev) rows)" using st by (simp add: rows sorted_wrt_take flip: take_map)
  moreover have "\<forall>ev \<in># mset ?hits - mset rows. \<forall>r \<in> set rows. au_ts ev \<le> au_ts r"
  proof (intro ballI)
    fix ev r assume "ev \<in># mset ?hits - mset rows" and r: "r \<in> set rows"
    then have "ev \<in> set (drop n all_rows)" by (simp only: rest set_mset_mset)
    with sorted_take_drop [OF st, of r n ev] r show "au_ts ev \<le> au_ts r" by (simp add: rows)
  qed
  ultimately show ?thesis by (simp add: Let_def rows n_def len min.commute)
qed

definition audit_ev :: "ms \<Rightarrow> audit_row" where
  "audit_ev t = \<lparr>au_ts = t, au_tenant = ''acme'', au_caller = ''c'', au_target = ''x'', au_method = '''',
                 au_decision = ''allow'', au_reason = '''', au_stream_id = ''''\<rparr>"

theorem QueryAudit_newest_witness:
  "\<exists>rows. QueryAudit (ok_env 9) id (empty_store\<lparr>st_audit := [audit_ev 3, audit_ev 7, audit_ev 1]\<rparr>) ''acme'' '''' '''' 0 2 = Inr rows \<and>
     sorted (map (\<lambda>ev. - au_ts ev) rows) \<and> length rows = 2 \<and>
     (\<forall>ev \<in># mset [audit_ev 3, audit_ev 7, audit_ev 1] - mset rows. \<forall>r \<in> set rows. au_ts ev \<le> au_ts r)"
proof -
  let ?s = "empty_store\<lparr>st_audit := [audit_ev 3, audit_ev 7, audit_ev 1]\<rparr>"
  obtain rows where q: "QueryAudit (ok_env 9) id ?s ''acme'' '''' '''' 0 2 = Inr rows"
    by (simp add: QueryAudit_def ok_env_def Let_def)
  have "filter (audit_where ''acme'' '''' '''' 0) (st_audit ?s) = [audit_ev 3, audit_ev 7, audit_ev 1]"
    by (simp add: audit_where_def audit_ev_def)
  with QueryAudit_newest [OF _ q] q show ?thesis by (simp add: is_scan_def Let_def)
qed

end
