(* ===== verification/Pki.thy ===== *)
theory Pki
  imports Identity
begin

text \<open>
  \<open>pkg/pki\<close>: the controller's certificate authority (\<open>ca.go\<close>) and the one-shot enrollment tokens
  (\<open>enroll.go\<close>). The X.509, PEM and JWT libraries and the random source are parameters: what they
  return is an argument of the definition that calls them. Times and durations are counts of
  nanoseconds.
\<close>

subsection \<open>Certificates\<close>

datatype KeyUsage = KeyUsageDigitalSignature | KeyUsageKeyEncipherment | KeyUsageCertSign
datatype ExtKeyUsage = ExtKeyUsageServerAuth | ExtKeyUsageClientAuth

text \<open>The fields of \<open>x509.Certificate\<close> the code sets; a URI is nil when \<open>Name.URL\<close> returns nil.\<close>

record Certificate =
  x_SerialNumber :: int
  x_CommonName :: string
  x_NotBefore :: int
  x_NotAfter :: int
  x_KeyUsage :: "KeyUsage list"
  x_ExtKeyUsage :: "ExtKeyUsage list"
  x_BasicConstraintsValid :: bool
  x_IsCA :: bool
  x_MaxPathLen :: int
  x_MaxPathLenZero :: bool
  x_URIs :: "URL option list"
  x_DNSNames :: "string list"

record 'pk CertificateRequest =
  cr_CommonName :: string
  cr_URIs :: "URL list"
  cr_PublicKey :: 'pk

definition Second :: int where "Second = 1000000000"
definition Minute :: int where "Minute = 60 * Second"
definition Hour :: int where "Hour = 60 * Minute"

definition DefaultLeafTTL :: int where "DefaultLeafTTL = Hour"
definition caTTL :: int where "caTTL = 10 * 365 * 24 * Hour"

definition ErrCSRSignature :: goerr where "ErrCSRSignature = Sentinel ''pki: csr signature invalid''"
definition ErrCSRMissingURI :: goerr where "ErrCSRMissingURI = Sentinel ''pki: csr missing identity URI SAN''"
definition ErrCSRURIMismatch :: goerr where
  "ErrCSRURIMismatch = Sentinel ''pki: csr URI SAN does not match issued name''"

record ('sk) CA =
  ca_cert :: Certificate
  ca_key :: 'sk
  ca_certDER :: "byte list"

text \<open>\<open>randomSerial\<close>: \<open>draw max\<close> is the result of \<open>rand.Int(rand.Reader, max)\<close>.\<close>

definition randomSerial :: "(int \<Rightarrow> int res) \<Rightarrow> int res" where
  "randomSerial draw =
     (case draw (2 ^ 128) of Inl e \<Rightarrow> Inl (Wrap ''pki: serial'' e) | Inr n \<Rightarrow> Inr n)"

definition ca_template :: "int \<Rightarrow> int \<Rightarrow> Certificate" where
  "ca_template serial now =
     \<lparr>x_SerialNumber = serial, x_CommonName = ''outrelay-ca'', x_NotBefore = now - Minute, x_NotAfter = now + caTTL,
      x_KeyUsage = [KeyUsageCertSign, KeyUsageDigitalSignature], x_ExtKeyUsage = [], x_BasicConstraintsValid = True,
      x_IsCA = True, x_MaxPathLen = 0, x_MaxPathLenZero = True, x_URIs = [], x_DNSNames = []\<rparr>"

definition NewCA ::
  "('pk \<times> 'sk) res \<Rightarrow> (int \<Rightarrow> int res) \<Rightarrow> int \<Rightarrow> (Certificate \<Rightarrow> Certificate \<Rightarrow> 'pk \<Rightarrow> 'sk \<Rightarrow> byte list res)
     \<Rightarrow> (byte list \<Rightarrow> Certificate res) \<Rightarrow> 'sk CA res" where
  "NewCA genkey draw now create_cert parse_cert =
     (case genkey of
        Inl e \<Rightarrow> Inl (Wrap ''pki: generate ca key'' e)
      | Inr (pub, priv) \<Rightarrow>
          (case randomSerial draw of
             Inl e \<Rightarrow> Inl e
           | Inr serial \<Rightarrow>
               (let tmpl = ca_template serial now in
                case create_cert tmpl tmpl pub priv of
                  Inl e \<Rightarrow> Inl (Wrap ''pki: create ca cert'' e)
                | Inr der \<Rightarrow>
                    (case parse_cert der of
                       Inl e \<Rightarrow> Inl e
                     | Inr cert \<Rightarrow> Inr \<lparr>ca_cert = cert, ca_key = priv, ca_certDER = der\<rparr>))))"

definition hasURI :: "(URL \<Rightarrow> string) \<Rightarrow> URL list \<Rightarrow> string \<Rightarrow> bool" where
  "hasURI url_string uris want = list_ex (\<lambda>u. url_string u = want) uris"

definition leaf_template :: "int \<Rightarrow> string \<Rightarrow> int \<Rightarrow> int \<Rightarrow> URL option \<Rightarrow> Certificate" where
  "leaf_template serial cn now ttl uri =
     \<lparr>x_SerialNumber = serial, x_CommonName = cn, x_NotBefore = now - Minute, x_NotAfter = now + ttl,
      x_KeyUsage = [KeyUsageDigitalSignature, KeyUsageKeyEncipherment],
      x_ExtKeyUsage = [ExtKeyUsageServerAuth, ExtKeyUsageClientAuth], x_BasicConstraintsValid = False,
      x_IsCA = False, x_MaxPathLen = 0, x_MaxPathLenZero = False, x_URIs = [uri], x_DNSNames = [''localhost'']\<rparr>"

record ('pk, 'sk) pki_lib =
  lib_parse_csr :: "byte list \<Rightarrow> 'pk CertificateRequest res"
  lib_check_signature :: "'pk CertificateRequest \<Rightarrow> goerr option"
  lib_create_cert :: "Certificate \<Rightarrow> Certificate \<Rightarrow> 'pk \<Rightarrow> 'sk \<Rightarrow> byte list res"
  lib_create_csr :: "string \<Rightarrow> URL option list \<Rightarrow> 'sk \<Rightarrow> byte list res"
  lib_url_string :: "URL \<Rightarrow> string"
  lib_url_parse :: "string \<Rightarrow> URL res"
  lib_uuid_string :: "uuid \<Rightarrow> string"

definition Sign ::
  "('pk, 'sk) pki_lib \<Rightarrow> (int \<Rightarrow> int res) \<Rightarrow> int \<Rightarrow> 'sk CA \<Rightarrow> byte list \<Rightarrow> Name \<Rightarrow> int \<Rightarrow> byte list res" where
  "Sign lib draw now ca csrDER name ttl =
     (let ttl = (if ttl \<le> 0 then DefaultLeafTTL else ttl) in
      case lib_parse_csr lib csrDER of
        Inl e \<Rightarrow> Inl (Wrap ''pki: parse csr'' e)
      | Inr csr \<Rightarrow>
          (case lib_check_signature lib csr of
             Some e \<Rightarrow> Inl (Wrap ''signature'' ErrCSRSignature)
           | None \<Rightarrow>
               (let expected = Name_String (lib_uuid_string lib) name in
                if \<not> hasURI (lib_url_string lib) (cr_URIs csr) expected
                then (if length (cr_URIs csr) = 0 then Inl ErrCSRMissingURI else Inl ErrCSRURIMismatch)
                else
                  (case randomSerial draw of
                     Inl e \<Rightarrow> Inl e
                   | Inr serial \<Rightarrow>
                       lib_create_cert lib
                         (leaf_template serial expected now ttl (Name_URL (lib_url_parse lib) (lib_uuid_string lib) name))
                         (ca_cert ca) (cr_PublicKey csr) (ca_key ca)))))"

definition CertPEM :: "(string \<Rightarrow> byte list \<Rightarrow> byte list) \<Rightarrow> 'sk CA \<Rightarrow> byte list" where
  "CertPEM pem ca = pem ''CERTIFICATE'' (ca_certDER ca)"

definition KeyPEM :: "(string \<Rightarrow> byte list \<Rightarrow> byte list) \<Rightarrow> ('sk \<Rightarrow> byte list res) \<Rightarrow> 'sk CA \<Rightarrow> byte list res" where
  "KeyPEM pem marshal ca =
     (case marshal (ca_key ca) of Inl e \<Rightarrow> Inl e | Inr der \<Rightarrow> Inr (pem ''PRIVATE KEY'' der))"

definition CertPool :: "'sk CA \<Rightarrow> Certificate list" where
  "CertPool ca = [ca_cert ca]"

definition NewCSR :: "('pk, 'sk) pki_lib \<Rightarrow> ('pk \<times> 'sk) res \<Rightarrow> Name \<Rightarrow> (byte list \<times> 'sk) res" where
  "NewCSR lib genkey name =
     (case genkey of
        Inl e \<Rightarrow> Inl (Wrap ''pki: generate leaf key'' e)
      | Inr (pub, priv) \<Rightarrow>
          (case lib_create_csr lib (Name_String (lib_uuid_string lib) name)
                  [Name_URL (lib_url_parse lib) (lib_uuid_string lib) name] priv of
             Inl e \<Rightarrow> Inl (Wrap ''pki: create csr'' e)
           | Inr der \<Rightarrow> Inr (der, priv)))"

subsection \<open>Enrollment tokens\<close>

definition DefaultEnrollTTL :: int where "DefaultEnrollTTL = 10 * Minute"
definition enrollIssuer :: string where "enrollIssuer = ''outrelay-controller''"
definition enrollAudience :: string where "enrollAudience = ''outrelay-agent''"

definition ErrTokenReplay :: goerr where "ErrTokenReplay = Sentinel ''pki: enrollment token already used''"
definition ErrTokenInvalid :: goerr where "ErrTokenInvalid = Sentinel ''pki: enrollment token invalid''"
definition ErrSigningMethod :: goerr where "ErrSigningMethod = Sentinel ''pki: unexpected jwt signing method''"

record EnrollClaims =
  ec_Tenant :: string
  ec_AgentID :: string
  ec_Issuer :: string
  ec_Audience :: "string list"
  ec_IssuedAt :: int
  ec_NotBefore :: int
  ec_ExpiresAt :: int
  ec_ID :: string

record ('pub, 'priv) Enroller =
  en_pub :: 'pub
  en_priv :: 'priv
  en_used :: "string list" \<comment> \<open>the keys of the map\<close>

definition NewEnroller :: "('pub \<times> 'priv) res \<Rightarrow> ('pub, 'priv) Enroller res" where
  "NewEnroller genkey =
     (case genkey of
        Inl e \<Rightarrow> Inl (Wrap ''pki: generate enroll key'' e)
      | Inr (pub, priv) \<Rightarrow> Inr \<lparr>en_pub = pub, en_priv = priv, en_used = []\<rparr>)"

text \<open>\<open>newJTI\<close>: 16 random bytes through the base64 encoder.\<close>

definition newJTI :: "(byte list \<Rightarrow> string) \<Rightarrow> byte list res \<Rightarrow> string res" where
  "newJTI b64 rnd = (case rnd of Inl e \<Rightarrow> Inl (Wrap ''pki: jti'' e) | Inr b \<Rightarrow> Inr (b64 b))"

text \<open>\<open>date\<close> is \<open>jwt.NewNumericDate\<close>, \<open>sign\<close> is \<open>SignedString\<close> of an EdDSA token.\<close>

definition Issue ::
  "(int \<Rightarrow> int) \<Rightarrow> ('priv \<Rightarrow> EnrollClaims \<Rightarrow> string res) \<Rightarrow> string res \<Rightarrow> int \<Rightarrow> ('pub, 'priv) Enroller
     \<Rightarrow> string \<Rightarrow> int \<Rightarrow> string res" where
  "Issue date sign jti now e tenant ttl =
     (if \<not> IsValidTenant tenant then Inl ErrInvalidTenant
      else
        (let ttl = (if ttl \<le> 0 then DefaultEnrollTTL else ttl) in
         case jti of
           Inl err \<Rightarrow> Inl err
         | Inr i \<Rightarrow>
             (case sign (en_priv e)
                     \<lparr>ec_Tenant = tenant, ec_AgentID = '''', ec_Issuer = enrollIssuer, ec_Audience = [enrollAudience],
                      ec_IssuedAt = date now, ec_NotBefore = date (now - Second), ec_ExpiresAt = date (now + ttl),
                      ec_ID = i\<rparr> of
                Inl err \<Rightarrow> Inl (Wrap ''pki: sign token'' err)
              | Inr tok \<Rightarrow> Inr tok)))"

text \<open>
  \<open>parse token keyfunc issuer audience\<close> is \<open>jwt.ParseWithClaims\<close> with the options of the call: the
  library calls \<open>keyfunc\<close> with the algorithm named in the token's header.
\<close>

definition enroll_keyfunc :: "('pub, 'priv) Enroller \<Rightarrow> string \<Rightarrow> 'pub res" where
  "enroll_keyfunc e alg = (if alg \<noteq> ''EdDSA'' then Inl (Wrap alg ErrSigningMethod) else Inr (en_pub e))"

text \<open>\<open>Verify\<close> up to the mutex, and under it.\<close>

definition Verify_check ::
  "(string \<Rightarrow> (string \<Rightarrow> 'pub res) \<Rightarrow> string \<Rightarrow> string \<Rightarrow> EnrollClaims res) \<Rightarrow> ('pub, 'priv) Enroller \<Rightarrow> string \<Rightarrow> EnrollClaims res" where
  "Verify_check parse e token =
     (case parse token (enroll_keyfunc e) enrollIssuer enrollAudience of
        Inl err \<Rightarrow> Inl (Wrap ''parse'' ErrTokenInvalid)
      | Inr claims \<Rightarrow>
          if ec_ID claims = '''' then Inl (Wrap ''missing jti'' ErrTokenInvalid)
          else if \<not> IsValidTenant (ec_Tenant claims) then Inl (Wrap ''invalid tenant claim'' ErrTokenInvalid)
          else Inr claims)"

definition Verify_use :: "EnrollClaims \<Rightarrow> ('pub, 'priv) Enroller \<Rightarrow> EnrollClaims res \<times> ('pub, 'priv) Enroller" where
  "Verify_use claims e =
     (if ec_ID claims \<in> set (en_used e) then (Inl ErrTokenReplay, e)
      else (Inr claims, e\<lparr>en_used := ec_ID claims # en_used e\<rparr>))"

definition Verify ::
  "(string \<Rightarrow> (string \<Rightarrow> 'pub res) \<Rightarrow> string \<Rightarrow> string \<Rightarrow> EnrollClaims res) \<Rightarrow> ('pub, 'priv) Enroller \<Rightarrow> string
     \<Rightarrow> EnrollClaims res \<times> ('pub, 'priv) Enroller" where
  "Verify parse e token = (case Verify_check parse e token of Inl err \<Rightarrow> (Inl err, e) | Inr claims \<Rightarrow> Verify_use claims e)"

lemmas verify_defs = Verify_def Verify_check_def Verify_use_def

subsection \<open>The issued identity\<close>

lemma Sign_cases:
  assumes "Sign lib draw now ca csrDER name ttl = Inr der"
  obtains csr serial where "lib_parse_csr lib csrDER = Inr csr" and "lib_check_signature lib csr = None"
    and "hasURI (lib_url_string lib) (cr_URIs csr) (Name_String (lib_uuid_string lib) name)"
    and "lib_create_cert lib
           (leaf_template serial (Name_String (lib_uuid_string lib) name) now (if ttl \<le> 0 then DefaultLeafTTL else ttl)
              (Name_URL (lib_url_parse lib) (lib_uuid_string lib) name))
           (ca_cert ca) (cr_PublicKey csr) (ca_key ca) = Inr der"
  using assms by (auto simp: Sign_def Let_def split: sum.splits option.splits if_splits)

lemma Name_URL_names:
  assumes "url_lib_ok url_parse" and "uuid_lib_ok uuid_parse uuid_string" and "name_wf name"
  shows "\<exists>u. Name_URL url_parse uuid_string name = Some u \<and> FromURL uuid_parse u = Inr name"
  using Parse_Name_String [OF assms]
  by (auto simp: Parse_def Name_URL_def FromURL_def split: sum.splits)

text \<open>
  C10. A certificate says who asked: if Sign succeeds for a well-formed name, then the request's
  own signature was valid and it claimed that name among its URIs, and what was signed, with
  the request's public key and the CA's key, is a leaf that names exactly this identity: its
  only URI reads back as the name, whatever other URIs the request had, it is not a CA, and it
  expires after the given lifetime, or after one hour if none was given.
\<close>

theorem Sign_certifies_claimed_name:
  assumes "url_lib_ok (lib_url_parse lib)" and "uuid_lib_ok uuid_parse (lib_uuid_string lib)" and "name_wf name"
    and "Sign lib draw now ca csrDER name ttl = Inr der"
  shows "\<exists>csr tmpl u. lib_parse_csr lib csrDER = Inr csr \<and> lib_check_signature lib csr = None \<and>
           (\<exists>v \<in> set (cr_URIs csr). lib_url_string lib v = Name_String (lib_uuid_string lib) name) \<and>
           lib_create_cert lib tmpl (ca_cert ca) (cr_PublicKey csr) (ca_key ca) = Inr der \<and>
           x_URIs tmpl = [Some u] \<and> FromURL uuid_parse u = Inr name \<and> \<not> x_IsCA tmpl \<and>
           x_NotAfter tmpl = now + (if ttl \<le> 0 then Hour else ttl)"
proof -
  from assms(4) obtain csr serial where c: "lib_parse_csr lib csrDER = Inr csr" "lib_check_signature lib csr = None"
    "hasURI (lib_url_string lib) (cr_URIs csr) (Name_String (lib_uuid_string lib) name)"
    "lib_create_cert lib
           (leaf_template serial (Name_String (lib_uuid_string lib) name) now (if ttl \<le> 0 then DefaultLeafTTL else ttl)
              (Name_URL (lib_url_parse lib) (lib_uuid_string lib) name))
           (ca_cert ca) (cr_PublicKey csr) (ca_key ca) = Inr der" by (rule Sign_cases)
  obtain u where u: "Name_URL (lib_url_parse lib) (lib_uuid_string lib) name = Some u" "FromURL uuid_parse u = Inr name"
    using Name_URL_names [OF assms(1-3)] by blast
  let ?t = "leaf_template serial (Name_String (lib_uuid_string lib) name) now
              (if ttl \<le> 0 then DefaultLeafTTL else ttl) (Some u)"
  have "lib_create_cert lib ?t (ca_cert ca) (cr_PublicKey csr) (ca_key ca) = Inr der" using c(4) u(1) by simp
  moreover have "x_URIs ?t = [Some u]" "\<not> x_IsCA ?t" "x_NotAfter ?t = now + (if ttl \<le> 0 then Hour else ttl)"
    by (simp_all add: leaf_template_def DefaultLeafTTL_def)
  ultimately show ?thesis using c(1,2,3) u(2) by (auto simp: hasURI_def list_ex_iff)
qed

text \<open>
  An instance of the library: keys are numbers, a request is its key followed by its printed
  URI, a certificate is its printed name.
\<close>

definition toy_bytes :: "string \<Rightarrow> byte list" where
  "toy_bytes s = map (\<lambda>c. of_nat (of_char c)) s"

definition toy_string :: "byte list \<Rightarrow> string" where
  "toy_string bs = map (\<lambda>b. char_of (unat b)) bs"

lemma toy_string_bytes [simp]: "toy_string (toy_bytes s) = s"
  by (induction s) (simp_all add: toy_string_def toy_bytes_def unat_of_nat)

definition toy_url_string :: "URL \<Rightarrow> string" where
  "toy_url_string u = u_scheme u @ ''://'' @ u_host u @ u_path u"

definition toy_lib :: "(nat, nat) pki_lib" where
  "toy_lib =
     \<lparr>lib_parse_csr = (\<lambda>der. case url_parse_ex (toy_string (tl der)) of
                                Inl e \<Rightarrow> Inl e
                              | Inr u \<Rightarrow> Inr \<lparr>cr_CommonName = toy_url_string u, cr_URIs = [u], cr_PublicKey = unat (hd der)\<rparr>),
      lib_check_signature = (\<lambda>csr. None),
      lib_create_cert = (\<lambda>tmpl parent pk sk. Inr (toy_bytes (x_CommonName tmpl))),
      lib_create_csr = (\<lambda>cn uris sk. case uris of
           [Some u] \<Rightarrow> Inr (of_nat sk # toy_bytes (toy_url_string u)) | _ \<Rightarrow> Inl (Fresh ''uri'')),
      lib_url_string = toy_url_string, lib_url_parse = url_parse_ex, lib_uuid_string = uuid_string_ex\<rparr>"

definition toy_relay :: Name where "toy_relay = relay_name ''eu'' ''r1''"

definition toy_ca :: "nat CA" where
  "toy_ca = \<lparr>ca_cert = ca_template 1 0, ca_key = 9, ca_certDER = []\<rparr>"

definition toy_der :: "byte list" where
  "toy_der = 7 # toy_bytes ''outrelay://eu/relay/r1''"

lemma toy_name [simp]: "Name_String uuid_string_ex toy_relay = ''outrelay://eu/relay/r1''" "name_wf toy_relay"
  by (simp_all add: toy_relay_def relay_name_def Scheme_def name_wf_def IsValidTenant_def IsValidRelayID_def lower_alnum_def)

lemma toy_sign: "\<exists>der. Sign toy_lib (\<lambda>_. Inr 1) 0 toy_ca toy_der toy_relay 0 = Inr der"
  by (simp add: Sign_def toy_lib_def toy_der_def url_parse_ex_def Scheme_def hasURI_def toy_url_string_def
      randomSerial_def Let_def del: Name_String.simps)

theorem Sign_certifies_claimed_name_witness:
  "\<exists>der csr tmpl u. Sign toy_lib (\<lambda>_. Inr 1) 0 toy_ca toy_der toy_relay 0 = Inr der \<and>
     lib_parse_csr toy_lib toy_der = Inr csr \<and> lib_create_cert toy_lib tmpl (ca_cert toy_ca) (cr_PublicKey csr) (ca_key toy_ca) = Inr der \<and>
     x_URIs tmpl = [Some u] \<and> FromURL uuid_parse_ex u = Inr toy_relay \<and> \<not> x_IsCA tmpl \<and> x_NotAfter tmpl = Hour"
proof -
  obtain der where s: "Sign toy_lib (\<lambda>_. Inr 1) 0 toy_ca toy_der toy_relay 0 = Inr der" using toy_sign by blast
  have l: "url_lib_ok (lib_url_parse toy_lib)" "uuid_lib_ok uuid_parse_ex (lib_uuid_string toy_lib)"
    using url_lib_ex uuid_lib_ex by (simp_all add: toy_lib_def)
  from Sign_certifies_claimed_name [OF l toy_name(2) s] obtain csr tmpl u where
    "lib_parse_csr toy_lib toy_der = Inr csr" "lib_create_cert toy_lib tmpl (ca_cert toy_ca) (cr_PublicKey csr) (ca_key toy_ca) = Inr der"
    "x_URIs tmpl = [Some u]" "FromURL uuid_parse_ex u = Inr toy_relay" "\<not> x_IsCA tmpl" "x_NotAfter tmpl = 0 + (if (0 :: int) \<le> 0 then Hour else 0)"
    by blast
  with s show ?thesis by auto
qed

text \<open>
  What the round trip needs of the libraries beyond the contracts of names: a request parses to
  what it was made of and is signed by its key, and a URL made from a name prints as the name.
\<close>

definition csr_lib_ok :: "('sk \<Rightarrow> 'pk) \<Rightarrow> ('pk, 'sk) pki_lib \<Rightarrow> bool" where
  "csr_lib_ok pub lib \<longleftrightarrow>
     (\<forall>name cn u sk der. name_wf name \<longrightarrow> Name_URL (lib_url_parse lib) (lib_uuid_string lib) name = Some u \<longrightarrow>
        lib_create_csr lib cn [Some u] sk = Inr der \<longrightarrow>
        (\<exists>csr. lib_parse_csr lib der = Inr csr \<and> cr_URIs csr = [u] \<and> cr_PublicKey csr = pub sk \<and>
               lib_check_signature lib csr = None)) \<and>
     (\<forall>name u. name_wf name \<longrightarrow> lib_url_parse lib (Name_String (lib_uuid_string lib) name) = Inr u \<longrightarrow>
        lib_url_string lib u = Name_String (lib_uuid_string lib) name)"

text \<open>
  Enrolment works, and only for the own name: the request NewCSR makes for a name is signed
  for that name, with the public part of the key NewCSR returned, and is refused with the
  mismatch error for every other name, so a request for one identity cannot be turned into a
  certificate for another.
\<close>

theorem NewCSR_Sign:
  assumes "url_lib_ok (lib_url_parse lib)" and "uuid_lib_ok uuid_parse (lib_uuid_string lib)" and "csr_lib_ok pub lib"
    and "name_wf name" and "NewCSR lib (Inr (pub sk, sk)) name = Inr (der, key)" and "draw (2 ^ 128) = Inr serial"
  shows "key = sk \<and>
         (\<exists>tmpl. Sign lib draw now ca der name ttl = lib_create_cert lib tmpl (ca_cert ca) (pub sk) (ca_key ca) \<and>
                 x_CommonName tmpl = Name_String (lib_uuid_string lib) name) \<and>
         (\<forall>other. name_wf other \<longrightarrow> other \<noteq> name \<longrightarrow> Sign lib draw now ca der other ttl = Inl ErrCSRURIMismatch)"
proof -
  let ?s = "Name_String (lib_uuid_string lib)"
  obtain u where u: "Name_URL (lib_url_parse lib) (lib_uuid_string lib) name = Some u"
    using Name_URL_names [OF assms(1,2,4)] by blast
  then have pu: "lib_url_parse lib (?s name) = Inr u" by (auto simp: Name_URL_def split: sum.splits)
  have cs: "lib_create_csr lib (?s name) [Some u] sk = Inr der" and k: "key = sk"
    using assms(5) u by (auto simp: NewCSR_def split: sum.splits)
  from cs u assms(3,4) obtain csr where csr: "lib_parse_csr lib der = Inr csr" "cr_URIs csr = [u]" "cr_PublicKey csr = pub sk"
    "lib_check_signature lib csr = None" unfolding csr_lib_ok_def by blast
  have us: "lib_url_string lib u = ?s name" using assms(3,4) pu unfolding csr_lib_ok_def by blast
  have "Sign lib draw now ca der other ttl = Inl ErrCSRURIMismatch" if "name_wf other" "other \<noteq> name" for other
  proof -
    have "?s other \<noteq> ?s name"
      using that assms(4) Parse_Name_String [OF assms(1,2)] by (metis sum.inject(2))
    then show ?thesis using csr us by (auto simp: Sign_def hasURI_def Let_def)
  qed
  moreover have "\<exists>tmpl. Sign lib draw now ca der name ttl = lib_create_cert lib tmpl (ca_cert ca) (pub sk) (ca_key ca) \<and>
                 x_CommonName tmpl = ?s name"
    using csr us assms(6)
    by (auto simp: Sign_def hasURI_def Let_def randomSerial_def leaf_template_def
        intro!: exI [of _ "leaf_template serial (?s name) now (if ttl \<le> 0 then DefaultLeafTTL else ttl)
              (Name_URL (lib_url_parse lib) (lib_uuid_string lib) name)"])
  ultimately show ?thesis using k by blast
qed

lemma toy_url_roundtrip:
  assumes "name_wf name" and "url_parse_ex (Name_String uuid_string_ex name) = Inr u"
  shows "toy_url_string u = Name_String uuid_string_ex name"
  using assms(2)
  by (auto simp: url_parse_ex_def toy_url_string_def Scheme_def split: if_splits)
     (metis append_take_drop_id append_Cons append_Nil append.assoc)

lemma toy_lib_ok: "csr_lib_ok (\<lambda>sk. unat (of_nat sk :: byte)) toy_lib"
  unfolding csr_lib_ok_def
proof (intro conjI allI impI)
  fix name cn u and sk :: nat and der
  assume n: "name_wf name" and u: "Name_URL (lib_url_parse toy_lib) (lib_uuid_string toy_lib) name = Some u"
    and d: "lib_create_csr toy_lib cn [Some u] sk = Inr der"
  have pu: "url_parse_ex (Name_String uuid_string_ex name) = Inr u"
    using u by (auto simp: Name_URL_def toy_lib_def simp del: Name_String.simps split: sum.splits)
  have "url_parse_ex (toy_string (tl der)) = Inr u" "hd der = of_nat sk"
    using d pu toy_url_roundtrip [OF n pu] by (auto simp: toy_lib_def simp del: Name_String.simps)
  then show "\<exists>csr. lib_parse_csr toy_lib der = Inr csr \<and> cr_URIs csr = [u] \<and>
      cr_PublicKey csr = unat (of_nat sk :: byte) \<and> lib_check_signature toy_lib csr = None"
    by (simp add: toy_lib_def)
next
  fix name u
  assume "name_wf name" "lib_url_parse toy_lib (Name_String (lib_uuid_string toy_lib) name) = Inr u"
  then show "lib_url_string toy_lib u = Name_String (lib_uuid_string toy_lib) name"
    using toy_url_roundtrip by (simp add: toy_lib_def del: Name_String.simps)
qed

theorem NewCSR_Sign_witness:
  "\<exists>der. NewCSR toy_lib (Inr (7, 7)) toy_relay = Inr (der, 7) \<and>
     Sign toy_lib (\<lambda>_. Inr 1) 0 toy_ca der (relay_name ''eu'' ''r2'') 0 = Inl ErrCSRURIMismatch"
proof -
  have l: "url_lib_ok (lib_url_parse toy_lib)" "uuid_lib_ok uuid_parse_ex (lib_uuid_string toy_lib)"
    using url_lib_ex uuid_lib_ex by (simp_all add: toy_lib_def)
  obtain u where "Name_URL (lib_url_parse toy_lib) (lib_uuid_string toy_lib) toy_relay = Some u"
    using Name_URL_names [OF l toy_name(2)] by blast
  then obtain der where d: "NewCSR toy_lib (Inr (unat (of_nat 7 :: byte), 7)) toy_relay = Inr (der, 7)"
    by (simp add: NewCSR_def toy_lib_def del: Name_String.simps)
  have "name_wf (relay_name ''eu'' ''r2'')" "relay_name ''eu'' ''r2'' \<noteq> toy_relay"
    by (simp_all add: toy_relay_def relay_name_def name_wf_def IsValidTenant_def IsValidRelayID_def lower_alnum_def)
  then show ?thesis
    using NewCSR_Sign [OF l toy_lib_ok toy_name(2) d, of "\<lambda>_. Inr 1" 1 0 toy_ca 0] d by auto
qed

subsection \<open>Single use of tokens\<close>

text \<open>A sequence of Verify calls, each with what the JWT library does at that moment.\<close>

primrec verify_all ::
  "((string \<Rightarrow> (string \<Rightarrow> 'pub res) \<Rightarrow> string \<Rightarrow> string \<Rightarrow> EnrollClaims res) \<times> string) list
     \<Rightarrow> ('pub, 'priv) Enroller \<Rightarrow> EnrollClaims res list \<times> ('pub, 'priv) Enroller" where
  "verify_all [] e = ([], e)"
| "verify_all (c # cs) e =
     (let (r, e') = Verify (fst c) e (snd c); (rs, e'') = verify_all cs e' in (r # rs, e''))"

definition accepted :: "EnrollClaims res list \<Rightarrow> string list" where
  "accepted rs = List.map_filter (\<lambda>r. case r of Inl _ \<Rightarrow> None | Inr c \<Rightarrow> Some (ec_ID c)) rs"

lemma accepted_simps [simp]:
  "accepted [] = []" "accepted (Inl e # rs) = accepted rs" "accepted (Inr c # rs) = ec_ID c # accepted rs"
  by (simp_all add: accepted_def)

lemma Verify_step:
  "(\<exists>err. Verify parse e tok = (Inl err, e)) \<or>
   (\<exists>c. Verify parse e tok = (Inr c, e\<lparr>en_used := ec_ID c # en_used e\<rparr>) \<and> ec_ID c \<notin> set (en_used e) \<and>
        IsValidTenant (ec_Tenant c) \<and> parse tok (enroll_keyfunc e) enrollIssuer enrollAudience = Inr c)"
  by (auto simp: verify_defs split: sum.splits)

lemma verify_all_used:
  "set (en_used (snd (verify_all cs e))) = set (en_used e) \<union> set (accepted (fst (verify_all cs e))) \<and>
   distinct (accepted (fst (verify_all cs e))) \<and>
   set (accepted (fst (verify_all cs e))) \<inter> set (en_used e) = {} \<and>
   en_pub (snd (verify_all cs e)) = en_pub e"
proof (induction cs arbitrary: e)
  case (Cons c cs)
  from Verify_step [of "fst c" e "snd c"] show ?case
  proof (elim disjE exE conjE)
    fix err assume "Verify (fst c) e (snd c) = (Inl err, e)"
    then show ?thesis using Cons [of e] by (simp add: split_beta)
  next
    fix cl assume "Verify (fst c) e (snd c) = (Inr cl, e\<lparr>en_used := ec_ID cl # en_used e\<rparr>)" "ec_ID cl \<notin> set (en_used e)"
    then show ?thesis using Cons [of "e\<lparr>en_used := ec_ID cl # en_used e\<rparr>"] by (auto simp: split_beta)
  qed
qed simp

text \<open>
  A token enrolls at most once: in any sequence of Verify calls the accepted token ids are
  all different, and once an id has been accepted every later token that carries it is answered
  with the replay error as long as it is otherwise valid, whatever was verified in between.
\<close>

theorem enroll_single_use:
  assumes "Verify parse e tok = (Inr c, e1)" and "verify_all cs e1 = (rs, e2)"
    and "parse' tok' (enroll_keyfunc e2) enrollIssuer enrollAudience = Inr c'" and "ec_ID c' = ec_ID c"
    and "IsValidTenant (ec_Tenant c')"
  shows "Verify parse' e2 tok' = (Inl ErrTokenReplay, e2) \<and> distinct (ec_ID c # accepted rs)"
proof -
  have e1: "e1 = e\<lparr>en_used := ec_ID c # en_used e\<rparr>" and id: "ec_ID c \<noteq> ''''"
    using assms(1) by (auto simp: verify_defs split: sum.splits if_splits)
  have "ec_ID c \<in> set (en_used e2)" and "distinct (ec_ID c # accepted rs)"
    using verify_all_used [of cs e1] assms(2) by (auto simp: e1)
  then show ?thesis using assms(3-5) id by (simp add: verify_defs)
qed

definition toy_claims :: EnrollClaims where
  "toy_claims = \<lparr>ec_Tenant = ''acme'', ec_AgentID = '''', ec_Issuer = enrollIssuer, ec_Audience = [enrollAudience],
     ec_IssuedAt = 0, ec_NotBefore = 0, ec_ExpiresAt = 600, ec_ID = ''j1''\<rparr>"

definition toy_parse :: "string \<Rightarrow> (string \<Rightarrow> nat res) \<Rightarrow> string \<Rightarrow> string \<Rightarrow> EnrollClaims res" where
  "toy_parse tok keyfunc iss aud =
     (case keyfunc ''EdDSA'' of Inl e \<Rightarrow> Inl e | Inr k \<Rightarrow> if tok = ''t'' then Inr toy_claims else Inl (Fresh ''bad''))"

theorem enroll_single_use_witness:
  "\<exists>e1. Verify toy_parse \<lparr>en_pub = 1, en_priv = (2 :: nat), en_used = []\<rparr> ''t'' = (Inr toy_claims, e1) \<and>
        Verify toy_parse e1 ''t'' = (Inl ErrTokenReplay, e1)"
proof -
  let ?e = "\<lparr>en_pub = 1, en_priv = (2 :: nat), en_used = []\<rparr>"
  have t: "IsValidTenant (ec_Tenant toy_claims)" by (simp add: toy_claims_def IsValidTenant_def lower_alnum_def)
  have p: "toy_parse ''t'' (enroll_keyfunc e) i a = Inr toy_claims" for e :: "(nat, nat) Enroller" and i a
    by (simp add: toy_parse_def enroll_keyfunc_def)
  obtain e1 where v: "Verify toy_parse ?e ''t'' = (Inr toy_claims, e1)"
    using t by (simp add: verify_defs p) (simp add: toy_claims_def Verify_use_def)
  have "verify_all [] e1 = ([], e1)" by simp
  from enroll_single_use [OF v this, of toy_parse "''t''" toy_claims] p t v show ?thesis by auto
qed

subsection \<open>From issue to enrolment\<close>

text \<open>
  What the JWT library promises: a token signed with a private key parses, at time t, to its claims
  when the key function answers with the matching public key, the issuer and the audience are the
  wanted ones and t lies between the two dates, and is refused when one of them fails; a date is
  the second its time lies in. Nothing is said of an empty issuer or audience, which the library
  takes as no check.
\<close>

definition jwt_lib_ok ::
  "('priv \<Rightarrow> 'pub) \<Rightarrow> ('priv \<Rightarrow> EnrollClaims \<Rightarrow> string res)
     \<Rightarrow> (int \<Rightarrow> string \<Rightarrow> (string \<Rightarrow> 'pub res) \<Rightarrow> string \<Rightarrow> string \<Rightarrow> EnrollClaims res) \<Rightarrow> bool" where
  "jwt_lib_ok pub_of sign parse \<longleftrightarrow>
     (\<forall>priv claims tok t keyfunc iss aud. sign priv claims = Inr tok \<longrightarrow> iss \<noteq> '''' \<longrightarrow> aud \<noteq> '''' \<longrightarrow>
        (if keyfunc ''EdDSA'' = Inr (pub_of priv) \<and> ec_Issuer claims = iss \<and> aud \<in> set (ec_Audience claims) \<and>
            ec_NotBefore claims \<le> t \<and> t < ec_ExpiresAt claims
         then parse t tok keyfunc iss aud = Inr claims
         else \<exists>e. parse t tok keyfunc iss aud = Inl e))"

definition date_ok :: "(int \<Rightarrow> int) \<Rightarrow> bool" where
  "date_ok date \<longleftrightarrow> (\<forall>t. date t \<le> t \<and> t < date t + Second)"

lemma enroll_names: "enrollIssuer \<noteq> ''''" "enrollAudience \<noteq> ''''"
  by (simp_all add: enrollIssuer_def enrollAudience_def)

lemma Issue_claims:
  assumes "Issue date sign jti now e tenant ttl = Inr tok"
  obtains i claims where "jti = Inr i" and "sign (en_priv e) claims = Inr tok" and "IsValidTenant tenant"
    and "ec_Tenant claims = tenant" and "ec_ID claims = i" and "ec_Issuer claims = enrollIssuer"
    and "ec_Audience claims = [enrollAudience]" and "ec_NotBefore claims = date (now - Second)"
    and "ec_ExpiresAt claims = date (now + (if ttl \<le> 0 then DefaultEnrollTTL else ttl))"
  using assms by (auto simp: Issue_def Let_def split: sum.splits if_splits)

text \<open>
  C34. A token works from its issue to its end: a token an Enroller issues for a tenant is accepted,
  with that tenant, at every time from the issue until less than a second before its lifetime
  ends, as long as its id was not used; from the end of its lifetime on it is invalid, and an
  Enroller with another key never accepts it.
\<close>

theorem Issue_Verify:
  assumes "jwt_lib_ok pub_of sign parse" and "date_ok date" and "Issue date sign (Inr i) now e tenant ttl = Inr tok"
    and "i \<noteq> ''''" and "i \<notin> set (en_used e')"
  shows "(en_pub e' = pub_of (en_priv e) \<and> now \<le> t \<and> t \<le> now + (if ttl \<le> 0 then DefaultEnrollTTL else ttl) - Second \<longrightarrow>
            (\<exists>c. Verify (parse t) e' tok = (Inr c, e'\<lparr>en_used := i # en_used e'\<rparr>) \<and> ec_Tenant c = tenant \<and> ec_ID c = i)) \<and>
         (now + (if ttl \<le> 0 then DefaultEnrollTTL else ttl) \<le> t \<or> en_pub e' \<noteq> pub_of (en_priv e) \<longrightarrow>
            Verify (parse t) e' tok = (Inl (Wrap ''parse'' ErrTokenInvalid), e'))"
proof -
  let ?until = "now + (if ttl \<le> 0 then DefaultEnrollTTL else ttl)"
  obtain claims where c: "sign (en_priv e) claims = Inr tok" "IsValidTenant tenant" "ec_Tenant claims = tenant" "ec_ID claims = i"
    "ec_Issuer claims = enrollIssuer" "ec_Audience claims = [enrollAudience]" "ec_NotBefore claims = date (now - Second)"
    "ec_ExpiresAt claims = date ?until"
    using Issue_claims [OF assms(3)] by auto
  have lib: "if enroll_keyfunc e' ''EdDSA'' = Inr (pub_of (en_priv e)) \<and> ec_Issuer claims = enrollIssuer \<and>
        enrollAudience \<in> set (ec_Audience claims) \<and> ec_NotBefore claims \<le> t \<and> t < ec_ExpiresAt claims
      then parse t tok (enroll_keyfunc e') enrollIssuer enrollAudience = Inr claims
      else \<exists>e. parse t tok (enroll_keyfunc e') enrollIssuer enrollAudience = Inl e"
    using assms(1) c(1) enroll_names unfolding jwt_lib_ok_def by blast
  have dates: "date (now - Second) \<le> now - Second" "date ?until \<le> ?until" "?until < date ?until + Second"
    using assms(2) unfolding date_ok_def by blast+
  have sec: "0 < Second" by (simp add: Second_def)
  show ?thesis
  proof (intro conjI impI)
    assume t: "en_pub e' = pub_of (en_priv e) \<and> now \<le> t \<and> t \<le> ?until - Second"
    then have "date (now - Second) \<le> t" "t < date ?until" using dates sec by linarith+
    then have "parse t tok (enroll_keyfunc e') enrollIssuer enrollAudience = Inr claims"
      using lib t by (simp add: c enroll_keyfunc_def)
    then show "\<exists>c. Verify (parse t) e' tok = (Inr c, e'\<lparr>en_used := i # en_used e'\<rparr>) \<and> ec_Tenant c = tenant \<and> ec_ID c = i"
      using c assms(4,5) by (simp add: verify_defs)
  next
    assume t: "?until \<le> t \<or> en_pub e' \<noteq> pub_of (en_priv e)"
    then have "\<not> (en_pub e' = pub_of (en_priv e) \<and> t < date ?until)" using dates(2) by linarith
    then obtain err where "parse t tok (enroll_keyfunc e') enrollIssuer enrollAudience = Inl err"
      using lib by (auto simp: c enroll_keyfunc_def split: if_splits)
    then show "Verify (parse t) e' tok = (Inl (Wrap ''parse'' ErrTokenInvalid), e')" by (simp add: verify_defs)
  qed
qed

text \<open>An instance of the library that signs one token.\<close>

definition one_claims :: EnrollClaims where
  "one_claims = \<lparr>ec_Tenant = ''acme'', ec_AgentID = '''', ec_Issuer = enrollIssuer, ec_Audience = [enrollAudience],
     ec_IssuedAt = 0, ec_NotBefore = - Second, ec_ExpiresAt = 10 * Minute, ec_ID = ''j1''\<rparr>"

definition one_sign :: "nat \<Rightarrow> EnrollClaims \<Rightarrow> string res" where
  "one_sign priv claims = (if priv = 2 \<and> claims = one_claims then Inr ''t'' else Inl (Fresh ''sign''))"

definition one_parse :: "int \<Rightarrow> string \<Rightarrow> (string \<Rightarrow> nat res) \<Rightarrow> string \<Rightarrow> string \<Rightarrow> EnrollClaims res" where
  "one_parse t tok keyfunc iss aud =
     (if keyfunc ''EdDSA'' = Inr 3 \<and> iss = enrollIssuer \<and> aud = enrollAudience \<and> - Second \<le> t \<and> t < 10 * Minute
      then Inr one_claims else Inl (Fresh ''token''))"

definition whole_seconds :: "int \<Rightarrow> int" where
  "whole_seconds t = t div Second * Second"

lemma one_lib_ok: "jwt_lib_ok Suc one_sign one_parse" "date_ok whole_seconds"
proof -
  show "jwt_lib_ok Suc one_sign one_parse"
    by (auto simp: jwt_lib_ok_def one_sign_def one_parse_def one_claims_def split: if_splits)
  have "whole_seconds t \<le> t \<and> t < whole_seconds t + Second" for t
  proof -
    have "t div Second * Second + t mod Second = t" by (rule div_mult_mod_eq)
    moreover have "0 \<le> t mod Second" "t mod Second < Second" by (simp_all add: Second_def)
    ultimately show ?thesis unfolding whole_seconds_def by linarith
  qed
  then show "date_ok whole_seconds" by (simp add: date_ok_def)
qed

theorem Issue_Verify_witness:
  "Issue whole_seconds one_sign (Inr ''j1'') 0 \<lparr>en_pub = 3 :: nat, en_priv = 2, en_used = []\<rparr> ''acme'' 0 = Inr ''t'' \<and>
   (\<exists>c e'. Verify (one_parse (9 * Minute)) \<lparr>en_pub = 3, en_priv = 2 :: nat, en_used = []\<rparr> ''t'' = (Inr c, e') \<and> ec_Tenant c = ''acme'')"
proof -
  let ?e = "\<lparr>en_pub = 3 :: nat, en_priv = 2 :: nat, en_used = []\<rparr>"
  have i: "Issue whole_seconds one_sign (Inr ''j1'') 0 ?e ''acme'' 0 = Inr ''t''"
    by (simp add: Issue_def Let_def one_sign_def one_claims_def whole_seconds_def DefaultEnrollTTL_def Minute_def Second_def
        IsValidTenant_def lower_alnum_def)
  have "\<exists>c. Verify (one_parse (9 * Minute)) ?e ''t'' = (Inr c, ?e\<lparr>en_used := ''j1'' # en_used ?e\<rparr>) \<and> ec_Tenant c = ''acme'' \<and> ec_ID c = ''j1''"
    using Issue_Verify [OF one_lib_ok i, of ?e "9 * Minute"] by (simp add: DefaultEnrollTTL_def Minute_def Second_def)
  then show ?thesis using i by blast
qed

end
