(* ===== verification/Enroll_Concurrent.thy ===== *)
theory Enroll_Concurrent
  imports Pki
begin

text \<open>
  Enrollment tokens of \<open>pkg/pki/enroll.go\<close> verified by many goroutines at once: \<open>Verify\<close> parses and checks a
  token without the mutex, and looks up and records its id under it. A schedule is any sequence of
  these two actions of any number of calls, with any tokens, at any times.
\<close>

subsection \<open>Actions\<close>

text \<open>
  \<open>ey_calls\<close> are the claims of the calls that have checked their token and wait for the mutex; \<open>ey_done\<close> is
  a ghost: the ids whose turn has come, in order.
\<close>

record ('pub, 'priv) enroll_sys =
  ey_enroller :: "('pub, 'priv) Enroller"
  ey_calls :: "EnrollClaims list"
  ey_results :: "EnrollClaims res list"
  ey_done :: "string list"

datatype 'pub enroll_label =
    EVerify "string \<Rightarrow> (string \<Rightarrow> 'pub res) \<Rightarrow> string \<Rightarrow> string \<Rightarrow> EnrollClaims res" string
  | ELock nat \<comment> \<open>a waiting call gets the mutex\<close>

fun enroll_exec :: "'pub enroll_label \<Rightarrow> ('pub, 'priv) enroll_sys \<Rightarrow> ('pub, 'priv) enroll_sys" where
  "enroll_exec (EVerify parse token) y =
     (case Verify_check parse (ey_enroller y) token of
        Inl err \<Rightarrow> y\<lparr>ey_results := ey_results y @ [Inl err]\<rparr>
      | Inr claims \<Rightarrow> y\<lparr>ey_calls := ey_calls y @ [claims]\<rparr>)"
| "enroll_exec (ELock k) y =
     (if k < length (ey_calls y) then
        (let claims = ey_calls y ! k; (r, e) = Verify_use claims (ey_enroller y)
         in y\<lparr>ey_enroller := e, ey_calls := drop_nth k (ey_calls y), ey_results := ey_results y @ [r], ey_done := ey_done y @ [ec_ID claims]\<rparr>)
      else y)"

definition enroll_init :: "'pub \<Rightarrow> 'priv \<Rightarrow> ('pub, 'priv) enroll_sys" where
  "enroll_init pub priv =
     \<lparr>ey_enroller = \<lparr>en_pub = pub, en_priv = priv, en_used = []\<rparr>, ey_calls = [], ey_results = [], ey_done = []\<rparr>"

definition enroll_run :: "'pub \<Rightarrow> 'priv \<Rightarrow> 'pub enroll_label list \<Rightarrow> ('pub, 'priv) enroll_sys" where
  "enroll_run pub priv ls = fold enroll_exec ls (enroll_init pub priv)"

subsection \<open>Invariant\<close>

abbreviation replays :: "EnrollClaims res list \<Rightarrow> nat" where
  "replays rs \<equiv> count_list rs (Inl ErrTokenReplay)"

definition enroll_inv :: "'pub \<Rightarrow> ('pub, 'priv) enroll_sys \<Rightarrow> bool" where
  "enroll_inv pub y \<longleftrightarrow>
     en_pub (ey_enroller y) = pub \<and>
     set (en_used (ey_enroller y)) = set (ey_done y) \<and> set (accepted (ey_results y)) = set (ey_done y) \<and> distinct (accepted (ey_results y)) \<and>
     length (accepted (ey_results y)) + replays (ey_results y) = length (ey_done y)"

lemma accepted_append [simp]: "accepted (rs @ rs') = accepted rs @ accepted rs'"
  by (induction rs) (auto simp: accepted_def List.map_filter_def)

lemma check_error: "Verify_check parse e token = Inl err \<Longrightarrow> err \<noteq> ErrTokenReplay"
  by (auto simp: Verify_check_def ErrTokenReplay_def split: sum.splits if_splits)

lemma count_list_append1 [simp]: "count_list (xs @ [x]) y = count_list xs y + (if x = y then 1 else 0)"
  by (induction xs) simp_all

interpretation enrolling: interleaving enroll_exec "enroll_inv pub"
proof
  fix y l assume y: "enroll_inv pub y"
  show "enroll_inv pub (enroll_exec l y)"
  proof (cases l)
    case (EVerify parse token)
    then show ?thesis using y by (auto simp: enroll_inv_def dest: check_error split: sum.splits)
  next
    case (ELock k)
    then show ?thesis using y by (auto simp: enroll_inv_def Verify_use_def Let_def)
  qed
qed

lemma enroll_run_inv: "enroll_inv pub (enroll_run pub priv ls)"
  unfolding enroll_run_def by (rule enrolling.run) (simp add: enroll_init_def enroll_inv_def)

subsection \<open>Properties\<close>

text \<open>
  C9. A token enrolls exactly once, however many calls present it at the same time: in every schedule, of
  the calls whose token with the id i passed the checks and that have had the mutex, exactly one is
  accepted and the others are answered with the replay error; an id none of them had is not accepted.
\<close>

theorem enroll_exactly_once:
  fixes priv :: 'priv
  shows "count_list (accepted (ey_results (enroll_run pub priv ls))) i = (if i \<in> set (ey_done (enroll_run pub priv ls)) then 1 else 0) \<and>
         replays (ey_results (enroll_run pub priv ls)) = length (ey_done (enroll_run pub priv ls)) - card (set (ey_done (enroll_run pub priv ls)))"
proof -
  let ?y = "enroll_run pub priv ls"
  have inv: "set (accepted (ey_results ?y)) = set (ey_done ?y)" "distinct (accepted (ey_results ?y))"
    "length (accepted (ey_results ?y)) + replays (ey_results ?y) = length (ey_done ?y)"
    using enroll_run_inv [of pub priv ls] by (simp_all add: enroll_inv_def)
  have "count_list xs i = (if i \<in> set xs then 1 else 0)" if "distinct xs" for xs
    using that by (induction xs) auto
  then have "count_list (accepted (ey_results ?y)) i = (if i \<in> set (ey_done ?y) then 1 else 0)" using inv(1,2) by metis
  moreover have "card (set (ey_done ?y)) = length (accepted (ey_results ?y))"
    using distinct_card [OF inv(2)] inv(1) by simp
  ultimately show ?thesis using inv(3) by simp
qed

text \<open>A whole call is the schedule of its two actions.\<close>

lemma whole_Verify:
  assumes "ey_calls y = []" and "Verify parse (ey_enroller y) token = (r, e)"
  shows "ey_enroller (fold enroll_exec [EVerify parse token, ELock 0] y) = e \<and>
         ey_results (fold enroll_exec [EVerify parse token, ELock 0] y) = ey_results y @ [r]"
  using assms by (auto simp: Verify_def split: sum.splits prod.splits)

end
