(* ===== verification/Rotator.thy ===== *)
theory Rotator
  imports Prelude
begin

text \<open>
  \<open>lib/identity/rotator.go\<close>: the loop that renews an agent's certificate before it expires. The
  signer and the clock are the environment: each turn of the loop is given what they do. Times
  are nanoseconds; the fraction \<open>rotateAt\<close> is a \<open>float64\<close>, so its type is left open and
  \<open>scale d f\<close> stands for \<open>time.Duration(float64(d) * f)\<close>.
\<close>

subsection \<open>State\<close>

record Cert =
  ct_NotBefore :: int
  ct_NotAfter :: int
  ct_tls :: string

text \<open>A subscriber's channel has capacity 1.\<close>

record 'f Rotator =
  ro_rotateAt :: 'f
  ro_cur :: "Cert option"
  ro_subs :: "Cert list list"

definition NewRotator :: "'f \<Rightarrow> 'f Rotator" where
  "NewRotator DefaultRotateAt = \<lparr>ro_rotateAt = DefaultRotateAt, ro_cur = None, ro_subs = []\<rparr>"

definition SetRotateAt :: "('f \<Rightarrow> bool) \<Rightarrow> 'f \<Rightarrow> 'f Rotator \<Rightarrow> goerr option \<times> 'f Rotator" where
  "SetRotateAt in_open_unit f r =
     (if \<not> in_open_unit f then (Some (Fresh ''identity: rotateAt must be in (0, 1)''), r)
      else (None, r\<lparr>ro_rotateAt := f\<rparr>))"

definition Bootstrap :: "Cert res \<Rightarrow> 'f Rotator \<Rightarrow> goerr option \<times> 'f Rotator" where
  "Bootstrap signer_result r =
     (case signer_result of
        Inl e \<Rightarrow> (Some (Wrap ''identity: bootstrap'' e), r)
      | Inr cert \<Rightarrow> (None, r\<lparr>ro_cur := Some cert\<rparr>))"

definition Current :: "'f Rotator \<Rightarrow> Cert option" where
  "Current r = ro_cur r"

definition Subscribe :: "'f Rotator \<Rightarrow> nat \<times> 'f Rotator" where
  "Subscribe r = (length (ro_subs r), r\<lparr>ro_subs := ro_subs r @ [[]]\<rparr>)"

text \<open>A send that would block is skipped.\<close>

definition sub_send :: "Cert \<Rightarrow> Cert list \<Rightarrow> Cert list" where
  "sub_send c buf = (if length buf < 1 then buf @ [c] else buf)"

definition rotator_broadcast :: "Cert \<Rightarrow> 'f Rotator \<Rightarrow> 'f Rotator" where
  "rotator_broadcast c r = r\<lparr>ro_subs := map (sub_send c) (ro_subs r)\<rparr>"

definition sub_recv :: "nat \<Rightarrow> 'f Rotator \<Rightarrow> Cert option \<times> 'f Rotator" where
  "sub_recv i r =
     (if i < length (ro_subs r) then
        (case ro_subs r ! i of
           [] \<Rightarrow> (None, r)
         | c # cs \<Rightarrow> (Some c, r\<lparr>ro_subs := (ro_subs r)[i := cs]\<rparr>))
      else (None, r))"

subsection \<open>The loop\<close>

text \<open>\<open>Time.Sub\<close> saturates at the limits of a Duration; \<open>Time.Add\<close> does not wrap for these dates.\<close>

definition time_sub :: "int \<Rightarrow> int \<Rightarrow> int" where
  "time_sub a b = max (- (2 ^ 63)) (min MaxInt64 (a - b))"

definition timeUntilRefresh :: "(int \<Rightarrow> 'f \<Rightarrow> int) \<Rightarrow> int \<Rightarrow> 'f Rotator \<Rightarrow> Cert \<Rightarrow> int" where
  "timeUntilRefresh scale now r c =
     (let total = time_sub (ct_NotAfter c) (ct_NotBefore c);
          deadline = ct_NotBefore c + scale total (ro_rotateAt r);
          until = time_sub deadline now
      in if until < 0 then 0 else until)"

definition MinuteNs :: int where "MinuteNs = 60000000000"

text \<open>
  What happens in one turn: the context is done while waiting, the signer answers, or it fails,
  in which case the context may end the one-minute pause (the error it then has) or not. A signer
  that answers with neither a certificate nor an error, which Go's types allow and on which
  \<open>Run\<close> would dereference nil, is outside the model.
\<close>

datatype rot_io = WaitDone goerr | Signed Cert | SignErr goerr "goerr option"

text \<open>A turn returns the pauses it made, in order, and continues or returns.\<close>

datatype rot_next = Continue Cert | Return goerr

definition rot_turn ::
  "(int \<Rightarrow> 'f \<Rightarrow> int) \<Rightarrow> int \<Rightarrow> rot_io \<Rightarrow> Cert \<Rightarrow> 'f Rotator \<Rightarrow> rot_next \<times> int list \<times> 'f Rotator" where
  "rot_turn scale now io cur r =
     (let until = timeUntilRefresh scale now r cur in
      case io of
        WaitDone e \<Rightarrow> (Return e, [until], r)
      | Signed next \<Rightarrow> (Continue next, [until], rotator_broadcast next (r\<lparr>ro_cur := Some next\<rparr>))
      | SignErr _ None \<Rightarrow> (Continue cur, [until, MinuteNs], r)
      | SignErr _ (Some e) \<Rightarrow> (Return e, [until, MinuteNs], r))"

fun rot_loop ::
  "(int \<Rightarrow> 'f \<Rightarrow> int) \<Rightarrow> (int \<times> rot_io) list \<Rightarrow> Cert \<Rightarrow> 'f Rotator \<Rightarrow> goerr option \<times> Cert \<times> 'f Rotator" where
  "rot_loop scale [] cur r = (None, cur, r)"
| "rot_loop scale ((now, io) # ios) cur r =
     (case rot_turn scale now io cur r of
        (Return e, _, r) \<Rightarrow> (Some e, cur, r)
      | (Continue cur, _, r) \<Rightarrow> rot_loop scale ios cur r)"

definition Rotator_Run ::
  "(int \<Rightarrow> 'f \<Rightarrow> int) \<Rightarrow> (int \<times> rot_io) list \<Rightarrow> 'f Rotator \<Rightarrow> goerr option \<times> 'f Rotator" where
  "Rotator_Run scale ios r =
     (case Current r of
        None \<Rightarrow> (Some (Fresh ''identity: rotator not bootstrapped''), r)
      | Some cur \<Rightarrow> (let (e, _, r) = rot_loop scale ios cur r in (e, r)))"

subsection \<open>Properties\<close>

fun last_signed :: "(int \<times> rot_io) list \<Rightarrow> Cert \<Rightarrow> Cert" where
  "last_signed [] c = c"
| "last_signed ((_, WaitDone _) # ios) c = c"
| "last_signed ((_, SignErr _ (Some _)) # ios) c = c"
| "last_signed ((_, SignErr _ None) # ios) c = last_signed ios c"
| "last_signed ((_, Signed n) # ios) c = last_signed ios n"

lemma rot_loop_current:
  "ro_cur r = Some cur \<Longrightarrow> ro_cur (snd (snd (rot_loop scale ios cur r))) = Some (last_signed ios cur)"
proof (induction ios cur arbitrary: r rule: last_signed.induct)
  case (5 now n ios c)
  then show ?case by (simp add: rot_turn_def rotator_broadcast_def)
qed (simp_all add: rot_turn_def)

text \<open>
  C35. The rotator keeps a certificate and renews in time: once bootstrapped, whatever the signer
  and the clock do, the current certificate is the one signed last (the bootstrapped one before
  that), failures never take it away; and when the turn starts before the renewal point, the
  wait ends before the certificate expires. (\<open>scale\<close> with a fraction below one returns less than
  its argument.)
\<close>

theorem rotator_keeps_and_renews:
  assumes "Current r = Some cur"
    and "ct_NotBefore cur < ct_NotAfter cur" and "ct_NotAfter cur - ct_NotBefore cur \<le> MaxInt64"
    and "\<And>d. 0 < d \<Longrightarrow> 0 \<le> scale d (ro_rotateAt r) \<and> scale d (ro_rotateAt r) < d"
    and "ct_NotBefore cur \<le> now" and "now < ct_NotAfter cur"
  shows "Current (snd (Rotator_Run scale ios r)) = Some (last_signed ios cur) \<and>
         0 \<le> timeUntilRefresh scale now r cur \<and> now + timeUntilRefresh scale now r cur < ct_NotAfter cur"
proof -
  have "Current (snd (Rotator_Run scale ios r)) = Some (last_signed ios cur)"
    using assms(1) rot_loop_current [of r cur scale ios] by (simp add: Rotator_Run_def Current_def split_beta)
  moreover have "time_sub (ct_NotAfter cur) (ct_NotBefore cur) = ct_NotAfter cur - ct_NotBefore cur"
    using assms(2,3) by (simp add: time_sub_def MaxInt64_def)
  moreover have "0 \<le> scale (ct_NotAfter cur - ct_NotBefore cur) (ro_rotateAt r)"
    "scale (ct_NotAfter cur - ct_NotBefore cur) (ro_rotateAt r) < ct_NotAfter cur - ct_NotBefore cur"
    using assms(2,4) by simp_all
  ultimately show ?thesis using assms(3,5,6)
    by (auto simp: timeUntilRefresh_def Let_def time_sub_def MaxInt64_def max_def min_def)
qed

definition demo_cert :: Cert where
  "demo_cert = \<lparr>ct_NotBefore = 0, ct_NotAfter = 3600000000000, ct_tls = ''a''\<rparr>"

theorem rotator_keeps_and_renews_witness:
  "timeUntilRefresh (\<lambda>d f. d * f div 100) 5 \<lparr>ro_rotateAt = 70, ro_cur = Some demo_cert, ro_subs = []\<rparr> demo_cert
     = 2519999999995 \<and>
   5 + timeUntilRefresh (\<lambda>d f. d * f div 100) 5 \<lparr>ro_rotateAt = 70, ro_cur = Some demo_cert, ro_subs = []\<rparr> demo_cert
     < ct_NotAfter demo_cert"
proof -
  let ?r = "\<lparr>ro_rotateAt = 70 :: int, ro_cur = Some demo_cert, ro_subs = []\<rparr>"
  have sc: "0 \<le> d * ro_rotateAt ?r div 100 \<and> d * ro_rotateAt ?r div 100 < d" if "0 < d" for d :: int
    using that by simp presburger
  have "5 + timeUntilRefresh (\<lambda>d f. d * f div 100) 5 ?r demo_cert < ct_NotAfter demo_cert"
    using rotator_keeps_and_renews [of ?r demo_cert "\<lambda>d f. d * f div 100" 5 "[]"]
      sc by (simp add: Current_def demo_cert_def MaxInt64_def)
  moreover have "timeUntilRefresh (\<lambda>d f. d * f div 100) 5 ?r demo_cert = 2519999999995"
    by (simp add: timeUntilRefresh_def demo_cert_def time_sub_def MaxInt64_def)
  ultimately show ?thesis by blast
qed

text \<open>
  A subscriber that does not read keeps the first certificate it was sent and misses the later
  ones, as \<open>Subscribe\<close> documents.
\<close>

lemma slow_subscriber_keeps_old:
  "i < length (ro_subs r) \<Longrightarrow> ro_subs r ! i = [c] \<Longrightarrow> ro_subs (rotator_broadcast d r) ! i = [c]"
  by (simp add: rotator_broadcast_def sub_send_def)

text \<open>
  No pause between renewals of a certificate that is already past its renewal point: the loop
  asks the signer again at once, so a signer that keeps returning such certificates is called
  without a break.
\<close>

lemma overdue_renews_at_once:
  assumes "ct_NotBefore c + scale (time_sub (ct_NotAfter c) (ct_NotBefore c)) (ro_rotateAt r) \<le> now"
  shows "rot_turn scale now (Signed next) c r = (Continue next, [0], rotator_broadcast next (r\<lparr>ro_cur := Some next\<rparr>))"
  using assms by (simp add: rot_turn_def timeUntilRefresh_def Let_def) (simp add: time_sub_def MaxInt64_def)

end
