(* ===== verification/Rotator_Concurrent.thy ===== *)
theory Rotator_Concurrent
  imports Rotator
begin

text \<open>
  The rotator of \<open>lib/identity/rotator.go\<close> with its goroutines: \<open>Run\<close>, the subscribers, and whoever calls
  \<open>Subscribe\<close>. The current certificate is an atomic pointer; the list of subscribers has a mutex, which
  \<open>broadcast\<close> holds for its loop; the channels are written by the loop and read without the mutex. So
  the actions are the store of the pointer, the lock, one send, one receive, one load.

  A subscriber does what the comment of \<open>Subscribe\<close> asks for: woken by its channel, and after
  subscribing, it reads \<open>Current\<close> and not what came through the channel. It never misses a renewal, and
  it never holds up \<open>Run\<close>.
\<close>

subsection \<open>Actions\<close>

datatype run_pc =
    RunWaits
  | RunStored Cert \<comment> \<open>stored, \<open>broadcast\<close> not yet entered\<close>
  | RunSends Cert nat \<comment> \<open>in \<open>broadcast\<close>, with the mutex, before this subscriber\<close>
  | RunReturned

text \<open>What a subscriber has read from \<open>Current\<close>, and whether it has been woken since.\<close>

record subscriber =
  sb_held :: "Cert option"
  sb_woken :: bool

record 'f rot_sys =
  ry_rot :: "'f Rotator"
  ry_pc :: run_pc
  ry_subs :: "subscriber list"

datatype rot_label =
    YSigned Cert \<comment> \<open>the signer returns a certificate; \<open>Run\<close> stores it\<close>
  | YLock
  | YSend \<comment> \<open>one turn of the loop of \<open>broadcast\<close>, or its end\<close>
  | YDone \<comment> \<open>\<open>Run\<close> sees its context done\<close>
  | YSubscribe
  | YRecv nat
  | YLoad nat

fun rot_exec :: "rot_label \<Rightarrow> 'f rot_sys \<Rightarrow> 'f rot_sys" where
  "rot_exec (YSigned next) y =
     (if ry_pc y = RunWaits then y\<lparr>ry_rot := (ry_rot y)\<lparr>ro_cur := Some next\<rparr>, ry_pc := RunStored next\<rparr> else y)"
| "rot_exec YLock y = (case ry_pc y of RunStored c \<Rightarrow> y\<lparr>ry_pc := RunSends c 0\<rparr> | _ \<Rightarrow> y)"
| "rot_exec YSend y =
     (case ry_pc y of
        RunSends c k \<Rightarrow>
          (let chans = ro_subs (ry_rot y) in
           if k < length chans
           then y\<lparr>ry_rot := (ry_rot y)\<lparr>ro_subs := chans[k := sub_send c (chans ! k)]\<rparr>, ry_pc := RunSends c (Suc k)\<rparr>
           else y\<lparr>ry_pc := RunWaits\<rparr>)
      | _ \<Rightarrow> y)"
| "rot_exec YDone y = (if ry_pc y = RunWaits then y\<lparr>ry_pc := RunReturned\<rparr> else y)"
| "rot_exec YSubscribe y =
     (case ry_pc y of
        RunSends c k \<Rightarrow> y \<comment> \<open>waits for the mutex\<close>
      | _ \<Rightarrow> y\<lparr>ry_rot := snd (Subscribe (ry_rot y)), ry_subs := ry_subs y @ [\<lparr>sb_held = None, sb_woken = True\<rparr>]\<rparr>)"
| "rot_exec (YRecv i) y =
     (case sub_recv i (ry_rot y) of
        (None, _) \<Rightarrow> y
      | (Some c, r) \<Rightarrow> y\<lparr>ry_rot := r, ry_subs := (ry_subs y)[i := (ry_subs y ! i)\<lparr>sb_woken := True\<rparr>]\<rparr>)"
| "rot_exec (YLoad i) y =
     y\<lparr>ry_subs := (ry_subs y)[i := \<lparr>sb_held = Current (ry_rot y), sb_woken = False\<rparr>]\<rparr>"

text \<open>A rotator that has been bootstrapped.\<close>

definition rot_init :: "'f \<Rightarrow> Cert \<Rightarrow> 'f rot_sys" where
  "rot_init f c = \<lparr>ry_rot = snd (Bootstrap (Inr c) (NewRotator f)), ry_pc = RunWaits, ry_subs = []\<rparr>"

definition rot_run :: "'f \<Rightarrow> Cert \<Rightarrow> rot_label list \<Rightarrow> 'f rot_sys" where
  "rot_run f c ls = fold rot_exec ls (rot_init f c)"

subsection \<open>Invariant\<close>

text \<open>A send to the subscriber is still to come.\<close>

fun due :: "run_pc \<Rightarrow> nat \<Rightarrow> bool" where
  "due (RunStored c) i \<longleftrightarrow> True"
| "due (RunSends c k) i \<longleftrightarrow> k \<le> i"
| "due _ i \<longleftrightarrow> False"

definition sub_settled :: "'f rot_sys \<Rightarrow> nat \<Rightarrow> bool" where
  "sub_settled y i \<longleftrightarrow> \<not> due (ry_pc y) i \<and> ro_subs (ry_rot y) ! i = [] \<and> \<not> sb_woken (ry_subs y ! i)"

definition rot_inv :: "'f rot_sys \<Rightarrow> bool" where
  "rot_inv y \<longleftrightarrow> length (ro_subs (ry_rot y)) = length (ry_subs y) \<and> Current (ry_rot y) \<noteq> None \<and>
     (\<forall>i < length (ry_subs y). sub_settled y i \<longrightarrow> sb_held (ry_subs y ! i) = Current (ry_rot y))"

lemma sub_send_nonempty [simp]: "sub_send c buf \<noteq> []"
  by (auto simp: sub_send_def)

lemma rot_inv_send:
  assumes "rot_inv y" and "ry_pc y = RunSends c k"
  shows "rot_inv (rot_exec YSend y)"
  using assms
  by (fastforce simp: rot_inv_def sub_settled_def Current_def Let_def nth_list_update split: if_splits)

lemma rot_inv_subscribe:
  assumes "rot_inv y"
  shows "rot_inv (rot_exec YSubscribe y)"
  using assms
  by (fastforce simp: rot_inv_def sub_settled_def Current_def Subscribe_def nth_append less_Suc_eq split: run_pc.splits)

lemma rot_inv_recv:
  assumes "rot_inv y"
  shows "rot_inv (rot_exec (YRecv j) y)"
  using assms
  by (fastforce simp: rot_inv_def sub_settled_def Current_def sub_recv_def nth_list_update split: list.splits if_splits)

interpretation rotating: interleaving rot_exec rot_inv
proof
  fix y :: "'f rot_sys" and l assume y: "rot_inv y"
  show "rot_inv (rot_exec l y)"
  proof (cases l)
    case YSend
    then show ?thesis using rot_inv_send [OF y] y by (cases "ry_pc y") simp_all
  next
    case (YLoad i)
    then show ?thesis using y
      by (cases "i < length (ry_subs y)") (fastforce simp: rot_inv_def sub_settled_def Current_def nth_list_update split: if_splits)+
  next
    case YLock
    then show ?thesis using y by (auto simp: rot_inv_def sub_settled_def split: run_pc.splits)
  qed (use y rot_inv_subscribe [OF y] rot_inv_recv [OF y] in \<open>auto simp: rot_inv_def sub_settled_def Current_def\<close>)
qed

lemma rot_run_inv: "rot_inv (rot_run f c ls)"
  unfolding rot_run_def by (rule rotating.run) (simp add: rot_init_def rot_inv_def Bootstrap_def NewRotator_def Current_def)

subsection \<open>Properties\<close>

text \<open>
  C36. No renewal is missed: whatever the schedule of \<open>Run\<close>, of calls of \<open>Subscribe\<close> and of the subscribers, a
  subscriber to whom no send is still to come, whose channel is empty and who has read \<open>Current\<close> since
  it was last woken, holds the current certificate, however many sends were dropped on the way.
\<close>

theorem subscribers_not_stale:
  assumes "i < length (ry_subs (rot_run f c ls))" and "\<not> due (ry_pc (rot_run f c ls)) i"
    and "ro_subs (ry_rot (rot_run f c ls)) ! i = []" and "\<not> sb_woken (ry_subs (rot_run f c ls) ! i)"
  shows "sb_held (ry_subs (rot_run f c ls) ! i) = Current (ry_rot (rot_run f c ls)) \<and> Current (ry_rot (rot_run f c ls)) \<noteq> None"
  using rot_run_inv [of f c ls] assms by (simp add: rot_inv_def sub_settled_def)

definition sub_cert :: "int \<Rightarrow> Cert" where
  "sub_cert n = \<lparr>ct_NotBefore = n, ct_NotAfter = n + 10, ct_tls = ''c''\<rparr>"

text \<open>Two renewals before the subscriber is scheduled: the second send is dropped, the second certificate is held.\<close>

definition rot_demo :: "rot_label list" where
  "rot_demo = [YSubscribe, YLoad 0, YSigned (sub_cert 1), YLock, YSend, YSend, YSigned (sub_cert 2), YLock, YRecv 0, YSend, YSend, YRecv 0,
               YLoad 0]"

lemma rot_demo_state:
  "length (ry_subs (rot_run () (sub_cert 0) rot_demo)) = 1 \<and> ry_pc (rot_run () (sub_cert 0) rot_demo) = RunWaits \<and>
   ro_subs (ry_rot (rot_run () (sub_cert 0) rot_demo)) = [[]] \<and> \<not> sb_woken (ry_subs (rot_run () (sub_cert 0) rot_demo) ! 0) \<and>
   Current (ry_rot (rot_run () (sub_cert 0) rot_demo)) = Some (sub_cert 2)"
  by (simp add: rot_run_def rot_demo_def rot_init_def Bootstrap_def NewRotator_def Subscribe_def Current_def sub_send_def sub_recv_def Let_def)

theorem subscribers_not_stale_witness:
  "sb_held (ry_subs (rot_run () (sub_cert 0) rot_demo) ! 0) = Some (sub_cert 2)"
  using subscribers_not_stale [of 0 "()" "sub_cert 0" rot_demo] rot_demo_state by simp

text \<open>In \<open>broadcast\<close> only a send moves \<open>Run\<close> on, and nothing else delays it.\<close>

lemma others_no_delay:
  assumes "l \<noteq> YSend" and "ry_pc y = RunSends c k"
  shows "ry_pc (rot_exec l y) = RunSends c k \<and> length (ro_subs (ry_rot (rot_exec l y))) = length (ro_subs (ry_rot y))"
  using assms by (cases l) (auto simp: sub_recv_def split: list.splits)

lemma turn_moves:
  assumes "ry_pc y = RunSends c k" and "k < length (ro_subs (ry_rot y))"
  shows "ry_pc (rot_exec YSend y) = RunSends c (Suc k) \<and> length (ro_subs (ry_rot (rot_exec YSend y))) = length (ro_subs (ry_rot y))"
  using assms by (simp add: Let_def)

lemma sends_left:
  assumes "ry_pc y = RunSends c k" and "k + count_list ls YSend \<le> length (ro_subs (ry_rot y))"
  shows "ry_pc (fold rot_exec ls y) = RunSends c (k + count_list ls YSend) \<and>
         length (ro_subs (ry_rot (fold rot_exec ls y))) = length (ro_subs (ry_rot y))"
  using assms
proof (induction ls arbitrary: y k)
  case (Cons l ls)
  show ?case
  proof (cases "l = YSend")
    case True
    then have m: "ry_pc (rot_exec l y) = RunSends c (Suc k) \<and> length (ro_subs (ry_rot (rot_exec l y))) = length (ro_subs (ry_rot y))"
      using turn_moves [OF Cons.prems(1)] Cons.prems(2) by (simp del: rot_exec.simps)
    then show ?thesis using Cons.IH [of "rot_exec l y" "Suc k"] Cons.prems(2) True by (simp del: rot_exec.simps)
  next
    case False
    then show ?thesis using Cons.IH [of "rot_exec l y" k] Cons.prems others_no_delay [OF False Cons.prems(1)]
      by (simp del: rot_exec.simps)
  qed
qed simp

text \<open>
  C37. No subscriber holds up the renewal: when \<open>Run\<close> has renewed and entered \<open>broadcast\<close>, one turn for each
  subscriber and one more take it back to waiting for the next renewal, whatever the subscribers and
  the callers of \<open>Subscribe\<close> do in between, and also if they never receive.
\<close>

theorem renewal_not_held_up:
  assumes "ry_pc (rot_run f c ls) = RunSends n k" and "k + count_list ls' YSend = length (ro_subs (ry_rot (rot_run f c ls)))"
  shows "ry_pc (rot_run f c (ls @ ls' @ [YSend])) = RunWaits"
  using sends_left [OF assms(1), of ls'] assms(2) by (simp add: rot_run_def Let_def)

theorem renewal_not_held_up_witness:
  "ry_pc (rot_run () (sub_cert 0) ([YSubscribe, YSubscribe, YSigned (sub_cert 1), YLock] @ [YSend, YSubscribe, YSend] @ [YSend])) = RunWaits"
  by (rule renewal_not_held_up [of _ _ _ "sub_cert 1" 0])
     (simp_all add: rot_run_def rot_init_def Bootstrap_def NewRotator_def Subscribe_def Let_def)

text \<open>A whole renewal is the schedule of its actions.\<close>

lemma sends_map:
  assumes "ry_pc y = RunSends c k" and "ro_subs (ry_rot y) = xs @ ys" and "length xs = k" and "length ys = m"
  shows "fold rot_exec (replicate (Suc m) YSend) y = y\<lparr>ry_rot := (ry_rot y)\<lparr>ro_subs := xs @ map (sub_send c) ys\<rparr>, ry_pc := RunWaits\<rparr>"
  using assms
proof (induction m arbitrary: y xs ys k)
  case (Suc m)
  then obtain b bs where ys: "ys = b # bs" "length bs = m" by (cases ys) auto
  let ?y = "rot_exec YSend y"
  have y: "?y = y\<lparr>ry_rot := (ry_rot y)\<lparr>ro_subs := (xs @ [sub_send c b]) @ bs\<rparr>, ry_pc := RunSends c (Suc k)\<rparr>"
    using Suc.prems ys by (simp add: Let_def nth_append list_update_append)
  have "fold rot_exec (replicate (Suc m) YSend) ?y = ?y\<lparr>ry_rot := (ry_rot ?y)\<lparr>ro_subs := (xs @ [sub_send c b]) @ map (sub_send c) bs\<rparr>, ry_pc := RunWaits\<rparr>"
    by (rule Suc.IH [of _ "Suc k" _ bs]) (use y Suc.prems ys in simp_all)
  then have "fold rot_exec (replicate (Suc (Suc m)) YSend) y = ?y\<lparr>ry_rot := (ry_rot ?y)\<lparr>ro_subs := xs @ map (sub_send c) ys\<rparr>, ry_pc := RunWaits\<rparr>"
    by (simp only: replicate_Suc [of "Suc m"] fold_simps ys list.map append.assoc append.simps)
  then show ?case unfolding y by simp
qed (simp add: Let_def)

lemma whole_renewal:
  assumes "ry_pc y = RunWaits" and "m = length (ro_subs (ry_rot y))"
  shows "fold rot_exec (YSigned c # YLock # replicate (Suc m) YSend) y =
           y\<lparr>ry_rot := rotator_broadcast c ((ry_rot y)\<lparr>ro_cur := Some c\<rparr>)\<rparr>"
proof -
  let ?y = "rot_exec YLock (rot_exec (YSigned c) y)"
  have y: "?y = y\<lparr>ry_rot := (ry_rot y)\<lparr>ro_cur := Some c\<rparr>, ry_pc := RunSends c 0\<rparr>" using assms(1) by simp
  have "fold rot_exec (replicate (Suc m) YSend) ?y = ?y\<lparr>ry_rot := (ry_rot ?y)\<lparr>ro_subs := [] @ map (sub_send c) (ro_subs (ry_rot ?y))\<rparr>, ry_pc := RunWaits\<rparr>"
    by (rule sends_map [of _ _ 0]) (use y assms in simp_all)
  then have "fold rot_exec (replicate (Suc m) YSend) ?y = y\<lparr>ry_rot := rotator_broadcast c ((ry_rot y)\<lparr>ro_cur := Some c\<rparr>)\<rparr>"
    unfolding y using assms(1) by (simp add: rotator_broadcast_def)
  then show ?thesis by (simp only: fold_simps)
qed

end
