(* ===== verification/Transport.thy ===== *)
theory Transport
  imports Prelude
begin

text \<open>
  \<open>lib/transport\<close>: the connection setup over QUIC (\<open>quic.go\<close>) and over TCP with TLS and yamux
  (\<open>tcp.go\<close>). The network stack, TLS, quic-go and yamux are parameters: what a call of them
  returns is an argument. Sockets are numbered, and the functions that open them return the list
  of what they opened and closed, so that a leak can be stated. The accept side of a yamux
  session is a small state machine, because a call that is cancelled leaves its goroutine behind.
\<close>

definition ALPN :: string where "ALPN = ''orp/1''"

definition DefaultMaxIdleTimeout :: int where "DefaultMaxIdleTimeout = 10000000000"
definition DefaultKeepAlivePeriod :: int where "DefaultKeepAlivePeriod = 3000000000"

record quic_Config =
  qc_MaxIdleTimeout :: int
  qc_KeepAlivePeriod :: int
  qc_rest :: string \<comment> \<open>the fields this code does not look at\<close>

record tls_Config =
  tc_NextProtos :: "string list"
  tc_rest :: string

definition tls_required :: goerr where "tls_required = Fresh ''transport: tls.Config required''"

subsection \<open>QUIC\<close>

definition withDefaults :: "quic_Config option \<Rightarrow> quic_Config" where
  "withDefaults qcfg =
     (let cfg = (case qcfg of None \<Rightarrow> \<lparr>qc_MaxIdleTimeout = 0, qc_KeepAlivePeriod = 0, qc_rest = ''''\<rparr> | Some c \<Rightarrow> c);
          cfg = (if qc_MaxIdleTimeout cfg = 0 then cfg\<lparr>qc_MaxIdleTimeout := DefaultMaxIdleTimeout\<rparr> else cfg)
      in (if qc_KeepAlivePeriod cfg = 0 then cfg\<lparr>qc_KeepAlivePeriod := DefaultKeepAlivePeriod\<rparr> else cfg))"

definition ensureALPN :: "tls_Config \<Rightarrow> tls_Config" where
  "ensureALPN conf =
     (if ALPN \<in> set (tc_NextProtos conf) then conf
      else conf\<lparr>tc_NextProtos := tc_NextProtos conf @ [ALPN]\<rparr>)"

text \<open>\<open>quicConn\<close> and \<open>quicListener\<close> wrap what the library returns.\<close>

definition DialQUIC ::
  "(string \<Rightarrow> tls_Config \<Rightarrow> quic_Config \<Rightarrow> 'c res) \<Rightarrow> string \<Rightarrow> tls_Config option \<Rightarrow> quic_Config option \<Rightarrow> 'c res" where
  "DialQUIC dial_addr addr tlsConf qcfg =
     (case tlsConf of
        None \<Rightarrow> Inl tls_required
      | Some conf \<Rightarrow>
          (case dial_addr addr (ensureALPN conf) (withDefaults qcfg) of
             Inl e \<Rightarrow> Inl (Wrap ''transport: dial'' e)
           | Inr qc \<Rightarrow> Inr qc))"

definition ListenQUIC ::
  "(string \<Rightarrow> tls_Config \<Rightarrow> quic_Config \<Rightarrow> 'l res) \<Rightarrow> string \<Rightarrow> tls_Config option \<Rightarrow> quic_Config option \<Rightarrow> 'l res" where
  "ListenQUIC listen_addr addr tlsConf qcfg =
     (case tlsConf of
        None \<Rightarrow> Inl tls_required
      | Some conf \<Rightarrow>
          (case listen_addr addr (ensureALPN conf) (withDefaults qcfg) of
             Inl e \<Rightarrow> Inl (Wrap ''transport: listen'' e)
           | Inr ln \<Rightarrow> Inr ln))"

text \<open>
  \<open>SharedTransport\<close>: the UDP socket and the \<open>quic.Transport\<close> made over it. What quic-go does with
  a transport (\<open>t_dial\<close>, \<open>t_listen\<close>, \<open>t_close\<close>) is a parameter.
\<close>

record 'u quic_Transport =
  qt_Conn :: 'u

record 'u SharedTransport =
  sh_t :: "'u quic_Transport"
  sh_udp :: 'u

definition NewSharedTransport :: "(string \<Rightarrow> 'a res) \<Rightarrow> ('a \<Rightarrow> 'u res) \<Rightarrow> string \<Rightarrow> 'u SharedTransport res" where
  "NewSharedTransport resolve listen_udp addr =
     (case resolve addr of
        Inl e \<Rightarrow> Inl (Wrap ''transport: resolve'' e)
      | Inr udpAddr \<Rightarrow>
          (case listen_udp udpAddr of
             Inl e \<Rightarrow> Inl (Wrap ''transport: bind'' e)
           | Inr conn \<Rightarrow> Inr \<lparr>sh_t = \<lparr>qt_Conn = conn\<rparr>, sh_udp = conn\<rparr>))"

definition Shared_Dial ::
  "(string \<Rightarrow> 'a res) \<Rightarrow> ('u quic_Transport \<Rightarrow> 'a \<Rightarrow> tls_Config \<Rightarrow> quic_Config \<Rightarrow> 'c res) \<Rightarrow> 'u SharedTransport
     \<Rightarrow> string \<Rightarrow> tls_Config option \<Rightarrow> quic_Config option \<Rightarrow> 'c res" where
  "Shared_Dial resolve t_dial s raddr tlsConf qcfg =
     (case tlsConf of
        None \<Rightarrow> Inl tls_required
      | Some conf \<Rightarrow>
          (case resolve raddr of
             Inl e \<Rightarrow> Inl (Wrap ''transport: resolve'' e)
           | Inr udpAddr \<Rightarrow>
               (case t_dial (sh_t s) udpAddr (ensureALPN conf) (withDefaults qcfg) of
                  Inl e \<Rightarrow> Inl (Wrap ''transport: shared dial'' e)
                | Inr qc \<Rightarrow> Inr qc)))"

definition Shared_Listen ::
  "('u quic_Transport \<Rightarrow> tls_Config \<Rightarrow> quic_Config \<Rightarrow> 'l res) \<Rightarrow> 'u SharedTransport \<Rightarrow> tls_Config option
     \<Rightarrow> quic_Config option \<Rightarrow> 'l res" where
  "Shared_Listen t_listen s tlsConf qcfg =
     (case tlsConf of
        None \<Rightarrow> Inl tls_required
      | Some conf \<Rightarrow>
          (case t_listen (sh_t s) (ensureALPN conf) (withDefaults qcfg) of
             Inl e \<Rightarrow> Inl (Wrap ''transport: shared listen'' e)
           | Inr ln \<Rightarrow> Inr ln))"

definition Shared_LocalAddr :: "('u \<Rightarrow> 'addr) \<Rightarrow> 'u SharedTransport \<Rightarrow> 'addr" where
  "Shared_LocalAddr local_addr s = local_addr (sh_udp s)"

definition Shared_WriteTo :: "('u \<Rightarrow> byte list \<Rightarrow> 'addr \<Rightarrow> 'w) \<Rightarrow> 'u SharedTransport \<Rightarrow> byte list \<Rightarrow> 'addr \<Rightarrow> 'w" where
  "Shared_WriteTo write_to s p addr = write_to (sh_udp s) p addr"

definition Shared_Close :: "('u quic_Transport \<Rightarrow> 'w) \<Rightarrow> 'u SharedTransport \<Rightarrow> 'w" where
  "Shared_Close t_close s = t_close (sh_t s)"

subsection \<open>TCP with TLS and yamux\<close>

text \<open>What happened to sockets, in order. Closing the TLS connection closes the socket under it.\<close>

datatype sock_act = Opened nat | Closed nat

definition open_after :: "sock_act list \<Rightarrow> nat set" where
  "open_after acts = {k. Opened k \<in> set acts \<and> Closed k \<notin> set acts}"

record yamuxConn =
  yc_sock :: nat
  yc_session :: nat

text \<open>The library's default configuration is a parameter, with the fields the code or its comment names.\<close>

record yamux_Config =
  yx_EnableKeepAlive :: bool
  yx_MaxStreamWindowSize :: nat
  yx_rest :: string

definition yamuxConfig :: "yamux_Config \<Rightarrow> yamux_Config" where
  "yamuxConfig default_config = default_config\<lparr>yx_EnableKeepAlive := False\<rparr>"

text \<open>A dial of \<open>tcp\<close>, a handshake on the socket and a yamux session on the handshaken socket.\<close>

record tcp_net =
  tn_dial :: "string \<Rightarrow> nat res"
  tn_client_handshake :: "nat \<Rightarrow> tls_Config \<Rightarrow> goerr option"
  tn_yamux_client :: "nat \<Rightarrow> yamux_Config \<Rightarrow> nat res"
  tn_listen :: "string \<Rightarrow> nat res"
  tn_server_handshake :: "nat \<Rightarrow> tls_Config \<Rightarrow> goerr option"
  tn_yamux_server :: "nat \<Rightarrow> yamux_Config \<Rightarrow> nat res"
  tn_default_config :: yamux_Config

definition DialTCP :: "tcp_net \<Rightarrow> string \<Rightarrow> tls_Config option \<Rightarrow> yamuxConn res \<times> sock_act list" where
  "DialTCP net addr tlsConf =
     (case tlsConf of
        None \<Rightarrow> (Inl tls_required, [])
      | Some conf \<Rightarrow>
          (let conf = ensureALPN conf in
           case tn_dial net addr of
             Inl e \<Rightarrow> (Inl (Wrap ''transport: tcp dial'' e), [])
           | Inr raw \<Rightarrow>
               (case tn_client_handshake net raw conf of
                  Some e \<Rightarrow> (Inl (Wrap ''transport: tcp+tls handshake'' e), [Opened raw, Closed raw])
                | None \<Rightarrow>
                    (case tn_yamux_client net raw (yamuxConfig (tn_default_config net)) of
                       Inl e \<Rightarrow> (Inl (Wrap ''transport: yamux client'' e), [Opened raw, Closed raw])
                     | Inr sess \<Rightarrow> (Inr \<lparr>yc_sock = raw, yc_session = sess\<rparr>, [Opened raw])))))"

text \<open>\<open>yamuxListener\<close>\<close>

record yamuxListener =
  yl_ln :: nat
  yl_tlsConf :: tls_Config

definition ListenTCP :: "tcp_net \<Rightarrow> string \<Rightarrow> tls_Config option \<Rightarrow> yamuxListener res" where
  "ListenTCP net addr tlsConf =
     (case tlsConf of
        None \<Rightarrow> Inl tls_required
      | Some conf \<Rightarrow>
          (case tn_listen net addr of
             Inl e \<Rightarrow> Inl (Wrap ''transport: tcp listen'' e)
           | Inr ln \<Rightarrow> Inr \<lparr>yl_ln = ln, yl_tlsConf = ensureALPN conf\<rparr>))"

text \<open>
  The goroutine of \<open>yamuxListener.Accept\<close>, once a socket has been accepted, and the \<open>select\<close> of
  \<open>Accept\<close>: either the goroutine's result is taken, or the context is done first, in which case
  the listener is closed and the goroutine's later result is dropped.
\<close>

definition accept_goroutine :: "tcp_net \<Rightarrow> yamuxListener \<Rightarrow> nat res \<Rightarrow> yamuxConn res \<times> sock_act list" where
  "accept_goroutine net l accepted =
     (case accepted of
        Inl e \<Rightarrow> (Inl e, [])
      | Inr raw \<Rightarrow>
          (case tn_server_handshake net raw (yl_tlsConf l) of
             Some e \<Rightarrow> (Inl (Wrap ''transport: tcp+tls handshake'' e), [Opened raw, Closed raw])
           | None \<Rightarrow>
               (case tn_yamux_server net raw (yamuxConfig (tn_default_config net)) of
                  Inl e \<Rightarrow> (Inl (Wrap ''transport: yamux server'' e), [Opened raw, Closed raw])
                | Inr sess \<Rightarrow> (Inr \<lparr>yc_sock = raw, yc_session = sess\<rparr>, [Opened raw]))))"

text \<open>
  \<open>ctx_done\<close> is the error of the context if the \<open>select\<close> takes the branch of the context, which it may
  once the context is done; it may as well take the result that the aborted handshake then gives. The
  last component says whether the listener was closed.
\<close>

definition yamux_Accept ::
  "tcp_net \<Rightarrow> yamuxListener \<Rightarrow> goerr option \<Rightarrow> nat res \<Rightarrow> yamuxConn res \<times> sock_act list \<times> bool" where
  "yamux_Accept net l ctx_done accepted =
     (let (r, acts) = accept_goroutine net l accepted in
      case ctx_done of
        None \<Rightarrow> (r, acts, False)
      | Some e \<Rightarrow> (Inl e, acts, True))"

text \<open>
  \<open>yamuxConn.OpenStream\<close>: \<open>opened\<close> is what \<open>sess.OpenStream()\<close> returns to the goroutine. If the
  context is done first, the goroutine's result is dropped. Streams are numbered like sockets.
\<close>

definition yamux_OpenStream :: "goerr option \<Rightarrow> nat res \<Rightarrow> nat res \<times> sock_act list" where
  "yamux_OpenStream ctx_done opened =
     (let acts = (case opened of Inl e \<Rightarrow> [] | Inr st \<Rightarrow> [Opened st]) in
      case ctx_done of
        None \<Rightarrow> (case opened of Inl e \<Rightarrow> (Inl e, acts) | Inr st \<Rightarrow> (Inr st, acts))
      | Some e \<Rightarrow> (Inl e, acts))"

text \<open>\<open>yamuxStream.CancelRead\<close> closes the whole stream, whatever the code.\<close>

definition yamux_CancelRead :: "64 word \<Rightarrow> nat \<Rightarrow> sock_act list" where
  "yamux_CancelRead code st = [Closed st]"

subsection \<open>Accepting streams\<close>

text \<open>
  A session has the inbound streams nobody has taken and the goroutines that wait in
  \<open>sess.AcceptStream()\<close>, oldest first, each with the call it belongs to; a call that has returned
  because its context was done is no longer in \<open>ys_calls\<close>, but its goroutine still waits.
\<close>

record yamux_session =
  ys_inbound :: "nat list"
  ys_waiting :: "nat list"
  ys_calls :: "nat list"
  ys_returned :: "(nat \<times> nat) list" \<comment> \<open>call and stream it returned\<close>

definition new_session :: yamux_session where
  "new_session = \<lparr>ys_inbound = [], ys_waiting = [], ys_calls = [], ys_returned = []\<rparr>"

text \<open>A goroutine gets a stream: the call returns it, or, if it has gone, the stream is dropped.\<close>

definition hand_over :: "nat \<Rightarrow> nat \<Rightarrow> yamux_session \<Rightarrow> yamux_session" where
  "hand_over call stream s =
     (if call \<in> set (ys_calls s)
      then s\<lparr>ys_calls := removeAll call (ys_calls s), ys_returned := ys_returned s @ [(call, stream)]\<rparr>
      else s)"

definition AcceptStream_call :: "nat \<Rightarrow> yamux_session \<Rightarrow> yamux_session" where
  "AcceptStream_call call s =
     (let s = s\<lparr>ys_calls := ys_calls s @ [call]\<rparr> in
      case ys_inbound s of
        st # rest \<Rightarrow> hand_over call st (s\<lparr>ys_inbound := rest\<rparr>)
      | [] \<Rightarrow> s\<lparr>ys_waiting := ys_waiting s @ [call]\<rparr>)"

definition AcceptStream_cancel :: "nat \<Rightarrow> yamux_session \<Rightarrow> yamux_session" where
  "AcceptStream_cancel call s = s\<lparr>ys_calls := removeAll call (ys_calls s)\<rparr>"

definition stream_arrives :: "nat \<Rightarrow> yamux_session \<Rightarrow> yamux_session" where
  "stream_arrives st s =
     (case ys_waiting s of
        [] \<Rightarrow> s\<lparr>ys_inbound := ys_inbound s @ [st]\<rparr>
      | call # rest \<Rightarrow> hand_over call st (s\<lparr>ys_waiting := rest\<rparr>))"

datatype stream_ev = EvCall nat | EvCancel nat | EvArrive nat

fun session_step :: "stream_ev \<Rightarrow> yamux_session \<Rightarrow> yamux_session" where
  "session_step (EvCall c) = AcceptStream_call c"
| "session_step (EvCancel c) = AcceptStream_cancel c"
| "session_step (EvArrive st) = stream_arrives st"

definition session_run :: "stream_ev list \<Rightarrow> yamux_session \<Rightarrow> yamux_session" where
  "session_run evs s = fold session_step evs s"

fun arrived :: "stream_ev list \<Rightarrow> nat list" where
  "arrived [] = []"
| "arrived (EvArrive st # evs) = st # arrived evs"
| "arrived (_ # evs) = arrived evs"

subsection \<open>Properties\<close>

lemma ensureALPN_has: "ALPN \<in> set (tc_NextProtos (ensureALPN conf))"
  and ensureALPN_idem: "ensureALPN (ensureALPN conf) = ensureALPN conf"
  and ensureALPN_rest: "tc_rest (ensureALPN conf) = tc_rest conf"
  by (simp_all add: ensureALPN_def)

text \<open>
  What the network stack is given: whichever way a connection is set up, TLS always
  advertises the protocol and keeps the caller's protocols in front, a caller's non-zero timeouts
  are kept and zero ones become the defaults, and without a TLS configuration nothing is dialled.
\<close>

theorem transport_config:
  "DialQUIC dial addr None q = Inl tls_required \<and>
   (\<exists>tls' q'. DialQUIC dial addr (Some conf) (Some q0) =
        (case dial addr tls' q' of Inl e \<Rightarrow> Inl (Wrap ''transport: dial'' e) | Inr c \<Rightarrow> Inr c) \<and>
      ALPN \<in> set (tc_NextProtos tls') \<and> (\<exists>ext. tc_NextProtos tls' = tc_NextProtos conf @ ext) \<and> tc_rest tls' = tc_rest conf \<and>
      qc_MaxIdleTimeout q' = (if qc_MaxIdleTimeout q0 = 0 then DefaultMaxIdleTimeout else qc_MaxIdleTimeout q0) \<and>
      qc_KeepAlivePeriod q' = (if qc_KeepAlivePeriod q0 = 0 then DefaultKeepAlivePeriod else qc_KeepAlivePeriod q0) \<and>
      qc_rest q' = qc_rest q0)"
proof -
  have "\<exists>ext. tc_NextProtos (ensureALPN conf) = tc_NextProtos conf @ ext" by (simp add: ensureALPN_def)
  then show ?thesis
    using ensureALPN_has [of conf] ensureALPN_rest [of conf]
    by (auto simp: DialQUIC_def withDefaults_def Let_def
        intro!: exI [of _ "ensureALPN conf"] exI [of _ "withDefaults (Some q0)"])
qed

text \<open>
  A failed TCP dial leaves no socket open and a successful one leaves exactly the one it
  returns, whichever of the steps fails; the same holds for the accept goroutine.
\<close>

theorem DialTCP_no_leak:
  "open_after (snd (DialTCP net addr conf)) = (case fst (DialTCP net addr conf) of Inl _ \<Rightarrow> {} | Inr c \<Rightarrow> {yc_sock c}) \<and>
   open_after (snd (accept_goroutine net l accepted)) =
     (case fst (accept_goroutine net l accepted) of Inl _ \<Rightarrow> {} | Inr c \<Rightarrow> {yc_sock c})"
  by (auto simp: DialTCP_def accept_goroutine_def open_after_def Let_def split: option.splits sum.splits)

text \<open>A cancelled Accept does leak: the goroutine may still complete and its connection is dropped open.\<close>

lemma cancelled_Accept_leaks:
  assumes "tn_server_handshake net raw (yl_tlsConf l) = None"
    and "tn_yamux_server net raw (yamuxConfig (tn_default_config net)) = Inr sess"
  shows "yamux_Accept net l (Some e) (Inr raw) = (Inl e, [Opened raw], True)"
    and "open_after [Opened raw] = {raw}"
  using assms by (auto simp: yamux_Accept_def accept_goroutine_def open_after_def)

text \<open>An OpenStream that is not cancelled owns what it opens; a cancelled one may leave a stream open that nobody has.\<close>

lemma OpenStream_owner:
  "open_after (snd (yamux_OpenStream None opened)) =
     (case fst (yamux_OpenStream None opened) of Inl _ \<Rightarrow> {} | Inr st \<Rightarrow> {st})"
  "fst (yamux_OpenStream (Some e) (Inr st)) = Inl e \<and> open_after (snd (yamux_OpenStream (Some e) (Inr st))) = {st}"
  by (auto simp: yamux_OpenStream_def open_after_def split: sum.splits)

definition session_wf :: "yamux_session \<Rightarrow> bool" where
  "session_wf s \<longleftrightarrow> (ys_waiting s = [] \<or> ys_inbound s = []) \<and> ys_waiting s = ys_calls s \<and> distinct (ys_waiting s)"

text \<open>The calls of a run are different calls, and none of them is running already.\<close>

fun fresh_calls :: "stream_ev list \<Rightarrow> nat set \<Rightarrow> bool" where
  "fresh_calls [] seen \<longleftrightarrow> True"
| "fresh_calls (EvCall c # evs) seen \<longleftrightarrow> c \<notin> seen \<and> fresh_calls evs (insert c seen)"
| "fresh_calls (EvCancel c # evs) seen \<longleftrightarrow> False"
| "fresh_calls (EvArrive st # evs) seen \<longleftrightarrow> fresh_calls evs seen"

lemma session_step_wf:
  assumes "session_wf s" and "fresh_calls (ev # evs) seen" and "set (ys_calls s) \<subseteq> seen"
  shows "session_wf (session_step ev s) \<and>
         map snd (ys_returned (session_step ev s)) @ ys_inbound (session_step ev s) =
           map snd (ys_returned s) @ ys_inbound s @ arrived [ev] \<and>
         (\<exists>seen'. fresh_calls evs seen' \<and> set (ys_calls (session_step ev s)) \<subseteq> seen')"
proof (cases ev)
  case (EvCall c)
  then show ?thesis using assms
    by (auto simp: session_wf_def AcceptStream_call_def hand_over_def Let_def split: list.splits intro: exI [of _ "insert c seen"])
next
  case (EvArrive st)
  then show ?thesis using assms
    by (auto simp: session_wf_def stream_arrives_def hand_over_def removeAll_id split: list.splits intro: exI [of _ seen])
qed (use assms in auto)

text \<open>
  While no call is cancelled, accepting neither loses nor reorders a stream: after any
  sequence of calls and arrivals, the streams the calls have returned, in the order of their
  return, followed by those still waiting in the session, are the streams that arrived.
\<close>

theorem AcceptStream_fifo:
  assumes "fresh_calls evs {}"
  shows "map snd (ys_returned (session_run evs new_session)) @ ys_inbound (session_run evs new_session) = arrived evs"
proof -
  have "map snd (ys_returned (session_run evs s)) @ ys_inbound (session_run evs s) =
      map snd (ys_returned s) @ ys_inbound s @ arrived evs"
    if "session_wf s" "fresh_calls evs seen" "set (ys_calls s) \<subseteq> seen" for s seen
    using that
  proof (induction evs arbitrary: s seen)
    case (Cons ev evs)
    from session_step_wf [OF Cons.prems] obtain seen' where
      st: "session_wf (session_step ev s)" "fresh_calls evs seen'" "set (ys_calls (session_step ev s)) \<subseteq> seen'"
      "map snd (ys_returned (session_step ev s)) @ ys_inbound (session_step ev s) =
           map snd (ys_returned s) @ ys_inbound s @ arrived [ev]" by blast
    have a: "arrived (ev # evs) = arrived [ev] @ arrived evs" by (cases ev) simp_all
    have r: "session_run (ev # evs) s = session_run evs (session_step ev s)" by (simp add: session_run_def)
    show ?case unfolding r a Cons.IH [OF st(1-3)] using st(4) by (metis append.assoc)
  qed (simp add: session_run_def)
  from this [of new_session "{}"] assms show ?thesis by (simp add: session_wf_def new_session_def)
qed

theorem AcceptStream_fifo_witness:
  "map snd (ys_returned (session_run [EvCall 1, EvArrive 10, EvArrive 11] new_session)) @
     ys_inbound (session_run [EvCall 1, EvArrive 10, EvArrive 11] new_session) = [10, 11]"
  using AcceptStream_fifo [of "[EvCall 1, EvArrive 10, EvArrive 11]"] by simp

lemma session_run_calls:
  "ys_inbound s = [] \<Longrightarrow> session_run (map EvCall bs) s = s\<lparr>ys_waiting := ys_waiting s @ bs, ys_calls := ys_calls s @ bs\<rparr>"
  by (induction bs arbitrary: s) (simp_all add: session_run_def AcceptStream_call_def)

lemma session_run_append: "session_run (xs @ ys) s = session_run ys (session_run xs s)"
  by (simp add: session_run_def)

text \<open>
  A cancelled AcceptStream swallows the next stream: on a session on which nobody waits and
  nothing is queued, if a call is cancelled and any number of other calls follow, the stream
  that arrives next goes to the goroutine the cancelled call left behind. The session then holds
  no trace of it: no call has returned it, it is not queued, and every other call keeps waiting.
\<close>

theorem AcceptStream_cancel_swallows:
  assumes "ys_inbound s = []" and "ys_waiting s = []" and "ys_calls s = []" and "a \<notin> set bs"
  shows "session_run (EvCall a # EvCancel a # map EvCall bs @ [EvArrive st]) s = s\<lparr>ys_waiting := bs, ys_calls := bs\<rparr>"
proof -
  have "session_run [EvCall a, EvCancel a] s = s\<lparr>ys_waiting := [a], ys_calls := []\<rparr>"
    using assms by (simp add: session_run_def AcceptStream_call_def AcceptStream_cancel_def)
  then have "session_run (EvCall a # EvCancel a # map EvCall bs) s = s\<lparr>ys_waiting := a # bs, ys_calls := bs\<rparr>"
    using session_run_append [of "[EvCall a, EvCancel a]" "map EvCall bs" s] assms(1) by (simp add: session_run_calls)
  then show ?thesis
    using session_run_append [of "EvCall a # EvCancel a # map EvCall bs" "[EvArrive st]" s] assms
    by (simp add: session_run_def stream_arrives_def hand_over_def)
qed

theorem AcceptStream_cancel_swallows_witness:
  "session_run [EvCall 1, EvCancel 1, EvCall 2, EvArrive 10] new_session = new_session\<lparr>ys_waiting := [2], ys_calls := [2]\<rparr>"
  using AcceptStream_cancel_swallows [of new_session 1 "[2]" 10] by (simp add: new_session_def)

end
