(* ===== verification/Carrier.thy ===== *)
theory Carrier
  imports Transport
begin

text \<open>
  The interfaces of \<open>lib/transport/conn.go\<close> and what implements them: the three dialers behind
  \<open>Dialer\<close>, and the QUIC and yamux wrappers behind \<open>Listener\<close>, \<open>Conn\<close> and \<open>Stream\<close>. An interface
  value is a datatype with one constructor per dynamic type; the objects of quic-go and yamux and their
  methods are parameters.
\<close>

subsection \<open>Dialer\<close>

definition DefaultDialer_Dial ::
  "(string \<Rightarrow> tls_Config \<Rightarrow> quic_Config \<Rightarrow> 'c res) \<Rightarrow> string \<Rightarrow> tls_Config option \<Rightarrow> quic_Config option \<Rightarrow> 'c res" where
  "DefaultDialer_Dial dial_addr addr tlsConf qcfg = DialQUIC dial_addr addr tlsConf qcfg"

definition TCPDialer_Dial ::
  "tcp_net \<Rightarrow> string \<Rightarrow> tls_Config option \<Rightarrow> quic_Config option \<Rightarrow> yamuxConn res \<times> sock_act list" where
  "TCPDialer_Dial net addr tlsConf qcfg = DialTCP net addr tlsConf"

text \<open>A TLS configuration that extends the caller's by ORP's protocol, and timeouts that are set.\<close>

definition orp_tls :: "tls_Config \<Rightarrow> tls_Config \<Rightarrow> bool" where
  "orp_tls conf t \<longleftrightarrow> ALPN \<in> set (tc_NextProtos t) \<and>
     take (length (tc_NextProtos conf)) (tc_NextProtos t) = tc_NextProtos conf \<and> tc_rest t = tc_rest conf"

definition kept_alive :: "quic_Config \<Rightarrow> bool" where
  "kept_alive k \<longleftrightarrow> qc_MaxIdleTimeout k \<noteq> 0 \<and> qc_KeepAlivePeriod k \<noteq> 0"

lemma orp_tls_ensureALPN: "orp_tls conf (ensureALPN conf)"
  by (simp add: orp_tls_def ensureALPN_def)

lemma kept_alive_withDefaults: "kept_alive (withDefaults q)"
  by (auto simp: kept_alive_def withDefaults_def Let_def DefaultMaxIdleTimeout_def DefaultKeepAlivePeriod_def)

text \<open>
  What a caller of \<open>Dial\<close> relies on. \<open>established tls q c\<close> says that the network stack, given these
  configurations, has set up the connection c.
\<close>

locale dialer =
  fixes Dial :: "tls_Config option \<Rightarrow> quic_Config option \<Rightarrow> 'c res"
    and established :: "tls_Config \<Rightarrow> quic_Config \<Rightarrow> 'c \<Rightarrow> bool"
  assumes nil_refused: "Dial None q = Inl tls_required"
    and dialled: "Dial (Some conf) q = Inr c \<Longrightarrow> established (ensureALPN conf) (withDefaults q) c"
    and complete: "established (ensureALPN conf) (withDefaults q) c \<Longrightarrow> Dial (Some conf) q = Inr c"
begin

lemma handshake:
  assumes "Dial tls q = Inr c"
  shows "\<exists>conf t k. tls = Some conf \<and> established t k c \<and> orp_tls conf t \<and> kept_alive k"
proof -
  obtain conf where conf: "tls = Some conf" using assms nil_refused by (cases tls) auto
  then show ?thesis using assms dialled orp_tls_ensureALPN kept_alive_withDefaults by blast
qed

text \<open>Configurations that come to the same after the defaults dial the same connection.\<close>

lemma same_connection:
  assumes "ensureALPN conf = ensureALPN conf'" and "withDefaults q = withDefaults q'"
  shows "Dial (Some conf) q = Inr c \<longleftrightarrow> Dial (Some conf') q' = Inr c"
  using assms dialled complete by metis

end

interpretation default_dialer: dialer "DefaultDialer_Dial dial_addr addr" "\<lambda>t k c. dial_addr addr t k = Inr c"
  by unfold_locales (auto simp: DefaultDialer_Dial_def DialQUIC_def split: sum.splits)

interpretation shared_dialer: dialer "Shared_Dial resolve t_dial s raddr"
  "\<lambda>t k c. \<exists>a. resolve raddr = Inr a \<and> t_dial (sh_t s) a t k = Inr c"
  by unfold_locales (auto simp: Shared_Dial_def split: sum.splits)

interpretation tcp_dialer: dialer "\<lambda>tls q. fst (TCPDialer_Dial net addr tls q)"
  "\<lambda>t k c. tn_dial net addr = Inr (yc_sock c) \<and> tn_client_handshake net (yc_sock c) t = None \<and>
     tn_yamux_client net (yc_sock c) (yamuxConfig (tn_default_config net)) = Inr (yc_session c)"
  by unfold_locales (auto simp: TCPDialer_Dial_def DialTCP_def Let_def split: sum.splits option.splits)

subsection \<open>Streams\<close>

text \<open>The methods of \<open>*quic.Stream\<close> and \<open>*yamux.Stream\<close>; a quic stream id is an int64.\<close>

record ('q, 'y) stream_lib =
  quic_Read :: "nat \<Rightarrow> 'q \<Rightarrow> (byte list \<times> goerr option) \<times> 'q"
  quic_Write :: "byte list \<Rightarrow> 'q \<Rightarrow> (nat \<times> goerr option) \<times> 'q"
  quic_Close :: "'q \<Rightarrow> goerr option \<times> 'q"
  quic_StreamID :: "'q \<Rightarrow> int"
  quic_CancelRead :: "64 word \<Rightarrow> 'q \<Rightarrow> 'q"
  yamux_Read :: "nat \<Rightarrow> 'y \<Rightarrow> (byte list \<times> goerr option) \<times> 'y"
  yamux_Write :: "byte list \<Rightarrow> 'y \<Rightarrow> (nat \<times> goerr option) \<times> 'y"
  yamux_Close :: "'y \<Rightarrow> goerr option \<times> 'y"
  yamux_StreamID :: "'y \<Rightarrow> 32 word"

datatype ('q, 'y) Stream = quicStream 'q | yamuxStream 'y

definition quicStream_Read :: "('q, 'y) stream_lib \<Rightarrow> nat \<Rightarrow> 'q \<Rightarrow> (byte list \<times> goerr option) \<times> 'q" where
  "quicStream_Read lib n s = quic_Read lib n s"

definition quicStream_Write :: "('q, 'y) stream_lib \<Rightarrow> byte list \<Rightarrow> 'q \<Rightarrow> (nat \<times> goerr option) \<times> 'q" where
  "quicStream_Write lib p s = quic_Write lib p s"

definition quicStream_Close :: "('q, 'y) stream_lib \<Rightarrow> 'q \<Rightarrow> goerr option \<times> 'q" where
  "quicStream_Close lib s = quic_Close lib s"

text \<open>\<open>uint64(...)\<close> of an int64, which a quic stream id is, and below of a uint32.\<close>

definition quicStream_StreamID :: "('q, 'y) stream_lib \<Rightarrow> 'q \<Rightarrow> 64 word" where
  "quicStream_StreamID lib s = word_of_int (quic_StreamID lib s)"

definition quicStream_CancelRead :: "('q, 'y) stream_lib \<Rightarrow> 64 word \<Rightarrow> 'q \<Rightarrow> 'q" where
  "quicStream_CancelRead lib code s = quic_CancelRead lib code s"

definition quicStream_CloseWrite :: "('q, 'y) stream_lib \<Rightarrow> 'q \<Rightarrow> goerr option \<times> 'q" where
  "quicStream_CloseWrite lib s = quic_Close lib s"

definition yamuxStream_Read :: "('q, 'y) stream_lib \<Rightarrow> nat \<Rightarrow> 'y \<Rightarrow> (byte list \<times> goerr option) \<times> 'y" where
  "yamuxStream_Read lib n s = yamux_Read lib n s"

definition yamuxStream_Write :: "('q, 'y) stream_lib \<Rightarrow> byte list \<Rightarrow> 'y \<Rightarrow> (nat \<times> goerr option) \<times> 'y" where
  "yamuxStream_Write lib p s = yamux_Write lib p s"

definition yamuxStream_Close :: "('q, 'y) stream_lib \<Rightarrow> 'y \<Rightarrow> goerr option \<times> 'y" where
  "yamuxStream_Close lib s = yamux_Close lib s"

definition yamuxStream_StreamID :: "('q, 'y) stream_lib \<Rightarrow> 'y \<Rightarrow> 64 word" where
  "yamuxStream_StreamID lib s = ucast (yamux_StreamID lib s)"

definition yamuxStream_CancelRead :: "('q, 'y) stream_lib \<Rightarrow> 64 word \<Rightarrow> 'y \<Rightarrow> 'y" where
  "yamuxStream_CancelRead lib _ s = snd (yamux_Close lib s)"

lemmas stream_methods =
  quicStream_Read_def quicStream_Write_def quicStream_Close_def quicStream_StreamID_def quicStream_CancelRead_def
  quicStream_CloseWrite_def yamuxStream_Read_def yamuxStream_Write_def yamuxStream_Close_def yamuxStream_StreamID_def
  yamuxStream_CancelRead_def

text \<open>A call through the interface.\<close>

fun Stream_Read :: "('q, 'y) stream_lib \<Rightarrow> nat \<Rightarrow> ('q, 'y) Stream \<Rightarrow> (byte list \<times> goerr option) \<times> ('q, 'y) Stream" where
  "Stream_Read lib n (quicStream s) = apsnd quicStream (quicStream_Read lib n s)"
| "Stream_Read lib n (yamuxStream s) = apsnd yamuxStream (yamuxStream_Read lib n s)"

fun Stream_Write :: "('q, 'y) stream_lib \<Rightarrow> byte list \<Rightarrow> ('q, 'y) Stream \<Rightarrow> (nat \<times> goerr option) \<times> ('q, 'y) Stream" where
  "Stream_Write lib p (quicStream s) = apsnd quicStream (quicStream_Write lib p s)"
| "Stream_Write lib p (yamuxStream s) = apsnd yamuxStream (yamuxStream_Write lib p s)"

fun Stream_Close :: "('q, 'y) stream_lib \<Rightarrow> ('q, 'y) Stream \<Rightarrow> goerr option \<times> ('q, 'y) Stream" where
  "Stream_Close lib (quicStream s) = apsnd quicStream (quicStream_Close lib s)"
| "Stream_Close lib (yamuxStream s) = apsnd yamuxStream (yamuxStream_Close lib s)"

fun Stream_StreamID :: "('q, 'y) stream_lib \<Rightarrow> ('q, 'y) Stream \<Rightarrow> 64 word" where
  "Stream_StreamID lib (quicStream s) = quicStream_StreamID lib s"
| "Stream_StreamID lib (yamuxStream s) = yamuxStream_StreamID lib s"

fun Stream_CancelRead :: "('q, 'y) stream_lib \<Rightarrow> 64 word \<Rightarrow> ('q, 'y) Stream \<Rightarrow> ('q, 'y) Stream" where
  "Stream_CancelRead lib code (quicStream s) = quicStream (quicStream_CancelRead lib code s)"
| "Stream_CancelRead lib code (yamuxStream s) = yamuxStream (yamuxStream_CancelRead lib code s)"

text \<open>The type assertion against \<open>interface { CloseWrite() error }\<close>; None if it fails.\<close>

fun Stream_CloseWrite :: "('q, 'y) stream_lib \<Rightarrow> ('q, 'y) Stream \<Rightarrow> (goerr option \<times> ('q, 'y) Stream) option" where
  "Stream_CloseWrite lib (quicStream s) = Some (apsnd quicStream (quicStream_CloseWrite lib s))"
| "Stream_CloseWrite lib (yamuxStream s) = None"

subsection \<open>Connections and listeners\<close>

text \<open>\<open>'t\<close> is \<open>tls.ConnectionState\<close>; a \<open>yamuxConn\<close> lies on a TLS connection or on another \<open>net.Conn\<close>.\<close>

datatype ('c, 'n) net_Conn = TLSConn 'c | OtherConn 'n

record ('qc, 'q, 'c, 'n, 't, 'addr) conn_lib =
  qc_OpenStreamSync :: "'qc \<Rightarrow> 'q res"
  qc_AcceptStream :: "'qc \<Rightarrow> 'q res"
  qc_LocalAddr :: "'qc \<Rightarrow> 'addr"
  qc_RemoteAddr :: "'qc \<Rightarrow> 'addr"
  qc_TLS :: "'qc \<Rightarrow> 't"
  qc_CloseWithError :: "64 word \<Rightarrow> string \<Rightarrow> 'qc \<Rightarrow> goerr option"
  nc_LocalAddr :: "('c, 'n) net_Conn \<Rightarrow> 'addr"
  nc_RemoteAddr :: "('c, 'n) net_Conn \<Rightarrow> 'addr"
  tc_ConnectionState :: "'c \<Rightarrow> 't"
  zero_ConnectionState :: 't
  ys_Close :: "nat \<Rightarrow> goerr option"

definition quicConn_OpenStream :: "('qc, 'q, 'c, 'n, 't, 'addr) conn_lib \<Rightarrow> 'qc \<Rightarrow> ('q, 'y) Stream res" where
  "quicConn_OpenStream lib c = (case qc_OpenStreamSync lib c of Inl e \<Rightarrow> Inl e | Inr s \<Rightarrow> Inr (quicStream s))"

definition quicConn_AcceptStream :: "('qc, 'q, 'c, 'n, 't, 'addr) conn_lib \<Rightarrow> 'qc \<Rightarrow> ('q, 'y) Stream res" where
  "quicConn_AcceptStream lib c = (case qc_AcceptStream lib c of Inl e \<Rightarrow> Inl e | Inr s \<Rightarrow> Inr (quicStream s))"

text \<open>An interface value of \<open>Conn\<close>: a \<open>quicConn\<close>, or a \<open>yamuxConn\<close> with its session and what lies under it.\<close>

datatype ('qc, 'c, 'n) Conn = QuicConn 'qc | YamuxConn nat "('c, 'n) net_Conn"

definition quicConn_LocalAddr :: "('qc, 'q, 'c, 'n, 't, 'addr) conn_lib \<Rightarrow> 'qc \<Rightarrow> 'addr" where
  "quicConn_LocalAddr lib c = qc_LocalAddr lib c"

definition quicConn_RemoteAddr :: "('qc, 'q, 'c, 'n, 't, 'addr) conn_lib \<Rightarrow> 'qc \<Rightarrow> 'addr" where
  "quicConn_RemoteAddr lib c = qc_RemoteAddr lib c"

definition quicConn_TLS :: "('qc, 'q, 'c, 'n, 't, 'addr) conn_lib \<Rightarrow> 'qc \<Rightarrow> 't" where
  "quicConn_TLS lib c = qc_TLS lib c"

definition quicConn_Close :: "('qc, 'q, 'c, 'n, 't, 'addr) conn_lib \<Rightarrow> 'qc \<Rightarrow> goerr option" where
  "quicConn_Close lib c = qc_CloseWithError lib 0 '''' c"

definition yamuxConn_LocalAddr :: "('qc, 'q, 'c, 'n, 't, 'addr) conn_lib \<Rightarrow> ('c, 'n) net_Conn \<Rightarrow> 'addr" where
  "yamuxConn_LocalAddr lib underlying = nc_LocalAddr lib underlying"

definition yamuxConn_RemoteAddr :: "('qc, 'q, 'c, 'n, 't, 'addr) conn_lib \<Rightarrow> ('c, 'n) net_Conn \<Rightarrow> 'addr" where
  "yamuxConn_RemoteAddr lib underlying = nc_RemoteAddr lib underlying"

definition yamuxConn_TLS :: "('qc, 'q, 'c, 'n, 't, 'addr) conn_lib \<Rightarrow> ('c, 'n) net_Conn \<Rightarrow> 't" where
  "yamuxConn_TLS lib underlying =
     (case underlying of TLSConn tc \<Rightarrow> tc_ConnectionState lib tc | OtherConn n \<Rightarrow> zero_ConnectionState lib)"

definition yamuxConn_Close :: "('qc, 'q, 'c, 'n, 't, 'addr) conn_lib \<Rightarrow> nat \<Rightarrow> goerr option" where
  "yamuxConn_Close lib sess = ys_Close lib sess"

fun Conn_LocalAddr :: "('qc, 'q, 'c, 'n, 't, 'addr) conn_lib \<Rightarrow> ('qc, 'c, 'n) Conn \<Rightarrow> 'addr" where
  "Conn_LocalAddr lib (QuicConn c) = quicConn_LocalAddr lib c"
| "Conn_LocalAddr lib (YamuxConn sess nc) = yamuxConn_LocalAddr lib nc"

fun Conn_RemoteAddr :: "('qc, 'q, 'c, 'n, 't, 'addr) conn_lib \<Rightarrow> ('qc, 'c, 'n) Conn \<Rightarrow> 'addr" where
  "Conn_RemoteAddr lib (QuicConn c) = quicConn_RemoteAddr lib c"
| "Conn_RemoteAddr lib (YamuxConn sess nc) = yamuxConn_RemoteAddr lib nc"

fun Conn_TLS :: "('qc, 'q, 'c, 'n, 't, 'addr) conn_lib \<Rightarrow> ('qc, 'c, 'n) Conn \<Rightarrow> 't" where
  "Conn_TLS lib (QuicConn c) = quicConn_TLS lib c"
| "Conn_TLS lib (YamuxConn sess nc) = yamuxConn_TLS lib nc"

fun Conn_Close :: "('qc, 'q, 'c, 'n, 't, 'addr) conn_lib \<Rightarrow> ('qc, 'c, 'n) Conn \<Rightarrow> goerr option" where
  "Conn_Close lib (QuicConn c) = quicConn_Close lib c"
| "Conn_Close lib (YamuxConn sess nc) = yamuxConn_Close lib sess"

record ('ql, 'qc, 'addr) quic_listener_lib =
  ql_Accept :: "'ql \<Rightarrow> 'qc res"
  ql_Addr :: "'ql \<Rightarrow> 'addr"
  ql_Close :: "'ql \<Rightarrow> goerr option"

definition quicListener_Accept :: "('ql, 'qc, 'addr) quic_listener_lib \<Rightarrow> 'ql \<Rightarrow> ('qc, 'c, 'n) Conn res" where
  "quicListener_Accept lib l = (case ql_Accept lib l of Inl e \<Rightarrow> Inl e | Inr qc \<Rightarrow> Inr (QuicConn qc))"

definition quicListener_Addr :: "('ql, 'qc, 'addr) quic_listener_lib \<Rightarrow> 'ql \<Rightarrow> 'addr" where
  "quicListener_Addr lib l = ql_Addr lib l"

definition quicListener_Close :: "('ql, 'qc, 'addr) quic_listener_lib \<Rightarrow> 'ql \<Rightarrow> goerr option" where
  "quicListener_Close lib l = ql_Close lib l"

definition yamuxListener_Addr :: "(nat \<Rightarrow> 'addr) \<Rightarrow> yamuxListener \<Rightarrow> 'addr" where
  "yamuxListener_Addr ln_Addr l = ln_Addr (yl_ln l)"

definition yamuxListener_Close :: "(nat \<Rightarrow> goerr option) \<Rightarrow> yamuxListener \<Rightarrow> goerr option" where
  "yamuxListener_Close ln_Close l = ln_Close (yl_ln l)"

text \<open>
  An interface value of \<open>Listener\<close>. What \<open>tls.Server\<close> makes of a raw socket is a TLS connection, so a
  \<open>yamuxConn\<close> that Accept returns lies on one.
\<close>

datatype 'ql Listener = QuicListener 'ql | YamuxListener yamuxListener

fun Listener_Accept ::
  "('ql, 'qc, 'addr) quic_listener_lib \<Rightarrow> tcp_net \<Rightarrow> goerr option \<Rightarrow> nat res \<Rightarrow> 'ql Listener \<Rightarrow> ('qc, nat, 'n) Conn res" where
  "Listener_Accept lib net ctx_done accepted (QuicListener l) = quicListener_Accept lib l"
| "Listener_Accept lib net ctx_done accepted (YamuxListener l) =
     (case fst (yamux_Accept net l ctx_done accepted) of
        Inl e \<Rightarrow> Inl e
      | Inr c \<Rightarrow> Inr (YamuxConn (yc_session c) (TLSConn (yc_sock c))))"

fun Listener_Addr :: "('ql, 'qc, 'addr) quic_listener_lib \<Rightarrow> (nat \<Rightarrow> 'addr) \<Rightarrow> 'ql Listener \<Rightarrow> 'addr" where
  "Listener_Addr lib ln_Addr (QuicListener l) = quicListener_Addr lib l"
| "Listener_Addr lib ln_Addr (YamuxListener l) = yamuxListener_Addr ln_Addr l"

fun Listener_Close :: "('ql, 'qc, 'addr) quic_listener_lib \<Rightarrow> (nat \<Rightarrow> goerr option) \<Rightarrow> 'ql Listener \<Rightarrow> goerr option" where
  "Listener_Close lib ln_Close (QuicListener l) = quicListener_Close lib l"
| "Listener_Close lib ln_Close (YamuxListener l) = yamuxListener_Close ln_Close l"

subsection \<open>Properties\<close>

text \<open>The wrapped id of a stream tells the streams of a connection apart, as the library's own id does.\<close>

lemma StreamID_quic_inj:
  assumes "0 \<le> quic_StreamID lib s" and "quic_StreamID lib s < 2 ^ 63" and "0 \<le> quic_StreamID lib s'" and "quic_StreamID lib s' < 2 ^ 63"
  shows "Stream_StreamID lib (quicStream s) = Stream_StreamID lib (quicStream s') \<longleftrightarrow> quic_StreamID lib s = quic_StreamID lib s'"
  using assms by (auto simp: stream_methods word_of_int_eq_iff take_bit_int_eq_self)

lemma widen_unat: "unat (ucast (w :: 32 word) :: 64 word) = unat w"
proof -
  have "unat w < 2 ^ 64" using unsigned_less [of w, where ?'a = nat] by simp
  then show ?thesis by (simp add: unsigned_ucast_eq take_bit_nat_eq_self)
qed

lemma StreamID_yamux_inj:
  "Stream_StreamID lib (yamuxStream s) = Stream_StreamID lib (yamuxStream s') \<longleftrightarrow> yamux_StreamID lib s = yamux_StreamID lib s'"
  "unat (Stream_StreamID lib (yamuxStream s)) < 2 ^ 32"
  using unsigned_less [of "yamux_StreamID lib s", where ?'a = nat] by (auto simp: stream_methods word_eq_iff_unsigned [where 'a = nat] widen_unat)

text \<open>
  A connection that any listener accepts shows the certificate of its peer: the TLS state of a
  connection over TCP is never the zero value \<open>yamuxConn.TLS\<close> falls back to.
\<close>

lemma accepted_TLS:
  assumes "Listener_Accept llib net ctx_done accepted l = Inr c"
  shows "(\<exists>qc. c = QuicConn qc \<and> Conn_TLS lib c = qc_TLS lib qc) \<or>
         (\<exists>sess raw. c = YamuxConn sess (TLSConn raw) \<and> accepted = Inr raw \<and> Conn_TLS lib c = tc_ConnectionState lib raw)"
  using assms
  by (cases l) (auto simp: quicListener_Accept_def quicConn_TLS_def yamuxConn_TLS_def yamux_Accept_def accept_goroutine_def Let_def
      split: sum.splits option.splits if_splits)

text \<open>
  C31. Every Dialer sets up ORP connections only: a connection that DefaultDialer, a SharedTransport or
  TCPDialer returns was set up by the network stack with a TLS configuration that offers ORP's
  protocol after the caller's own and is the caller's in everything else, and over QUIC with an idle
  timeout and a keepalive; without a TLS configuration none of them touches the network.
\<close>

theorem dialers_offer_orp:
  "(DefaultDialer_Dial dial_addr addr tls q = Inr c \<longrightarrow>
      (\<exists>conf t k. tls = Some conf \<and> dial_addr addr t k = Inr c \<and> orp_tls conf t \<and> kept_alive k)) \<and>
   (Shared_Dial resolve t_dial s addr tls q = Inr c \<longrightarrow>
      (\<exists>conf t k a. tls = Some conf \<and> resolve addr = Inr a \<and> t_dial (sh_t s) a t k = Inr c \<and> orp_tls conf t \<and> kept_alive k)) \<and>
   (fst (TCPDialer_Dial net addr tls q) = Inr y \<longrightarrow>
      (\<exists>conf t. tls = Some conf \<and> tn_dial net addr = Inr (yc_sock y) \<and> tn_client_handshake net (yc_sock y) t = None \<and> orp_tls conf t)) \<and>
   DefaultDialer_Dial dial_addr addr None q = Inl tls_required \<and> Shared_Dial resolve t_dial s addr None q = Inl tls_required \<and>
   TCPDialer_Dial net addr None q = (Inl tls_required, [])"
  using default_dialer.handshake [of dial_addr addr tls q c] shared_dialer.handshake [of resolve t_dial s addr tls q c]
    tcp_dialer.handshake [of net addr tls q y] default_dialer.nil_refused [of dial_addr addr q]
    shared_dialer.nil_refused [of resolve t_dial s addr q]
  by (intro conjI; blast?) (simp_all add: TCPDialer_Dial_def DialTCP_def)

theorem dialers_offer_orp_witness:
  "\<exists>t k. DefaultDialer_Dial (\<lambda>a t k. Inr (t, k)) ''relay:7443'' (Some \<lparr>tc_NextProtos = [''h3''], tc_rest = ''client cert''\<rparr>) None = Inr (t, k) \<and>
     orp_tls \<lparr>tc_NextProtos = [''h3''], tc_rest = ''client cert''\<rparr> t \<and> kept_alive k \<and>
     DefaultDialer_Dial (\<lambda>a t k. Inr (t, k)) ''relay:7443'' None None = Inl tls_required"
proof -
  let ?conf = "\<lparr>tc_NextProtos = [''h3''], tc_rest = ''client cert''\<rparr>"
  obtain t k where d: "DefaultDialer_Dial (\<lambda>a t k. Inr (t, k)) ''relay:7443'' (Some ?conf) None = Inr (t, k)"
    by (simp add: DefaultDialer_Dial_def DialQUIC_def Let_def)
  moreover from dialers_offer_orp [THEN conjunct1, rule_format, OF d] have "orp_tls ?conf t" "kept_alive k" by auto
  ultimately show ?thesis by (simp add: default_dialer.nil_refused)
qed

text \<open>
  One UDP socket: a SharedTransport that was set up dials from, listens on, reports the address of
  and writes to the one socket that was bound, so a peer that is told its address reaches the
  listener through the NAT mapping the dials have made.
\<close>

theorem shared_one_socket:
  assumes "NewSharedTransport resolve listen_udp addr = Inr s"
  shows "\<exists>a conn. resolve addr = Inr a \<and> listen_udp a = Inr conn \<and>
     Shared_LocalAddr local_addr s = local_addr conn \<and> Shared_WriteTo write_to s p dst = write_to conn p dst \<and>
     (Shared_Dial resolve' (\<lambda>t. dial (qt_Conn t)) s raddr tls q = Inr c \<longrightarrow> (\<exists>a t k. dial conn a t k = Inr c)) \<and>
     (Shared_Listen (\<lambda>t. listen (qt_Conn t)) s tls q = Inr l \<longrightarrow> (\<exists>t k. listen conn t k = Inr l))"
proof -
  obtain a conn where s: "resolve addr = Inr a" "listen_udp a = Inr conn" "s = \<lparr>sh_t = \<lparr>qt_Conn = conn\<rparr>, sh_udp = conn\<rparr>"
    using assms by (auto simp: NewSharedTransport_def split: sum.splits)
  have "\<exists>a t k. dial conn a t k = Inr c" if "Shared_Dial resolve' (\<lambda>t. dial (qt_Conn t)) s raddr tls q = Inr c"
    using shared_dialer.handshake [OF that] by (auto simp: s(3))
  moreover have "\<exists>t k. listen conn t k = Inr l" if "Shared_Listen (\<lambda>t. listen (qt_Conn t)) s tls q = Inr l"
    using that by (auto simp: Shared_Listen_def s(3) split: sum.splits option.splits)
  ultimately show ?thesis using s by (auto simp: Shared_LocalAddr_def Shared_WriteTo_def)
qed

theorem shared_one_socket_witness:
  "\<exists>s. NewSharedTransport (\<lambda>a. Inr a) (\<lambda>a. Inr (5 :: nat)) ''0.0.0.0:7445'' = Inr s \<and> Shared_LocalAddr (\<lambda>fd. 7445 + fd) s = 7450"
proof -
  obtain s where s: "NewSharedTransport (\<lambda>a. Inr a) (\<lambda>a. Inr (5 :: nat)) ''0.0.0.0:7445'' = Inr s"
    by (simp add: NewSharedTransport_def)
  from shared_one_socket [OF s, of "\<lambda>fd. 7445 + fd"] have "Shared_LocalAddr (\<lambda>fd. 7445 + fd) s = 7450" by force
  then show ?thesis using s by blast
qed

text \<open>The configuration of the sessions: keepalive is off and the stream window is the library's own.\<close>

lemma yamuxConfig_window:
  "\<not> yx_EnableKeepAlive (yamuxConfig d)" "yx_MaxStreamWindowSize (yamuxConfig d) = yx_MaxStreamWindowSize d"
  by (simp_all add: yamuxConfig_def)

end
