(* ===== verification/Accept_Concurrent.thy ===== *)
theory Accept_Concurrent
  imports Carrier
begin

text \<open>
  \<open>yamuxListener.Accept\<close> of \<open>lib/transport/tcp.go\<close> with any number of calls at the same time. A call starts a
  goroutine, which takes a socket of the backlog, does the TLS handshake on it and puts a result into the
  channel of the call; the call itself waits for that result or for its context, and in the second case
  closes the listener for everybody. A schedule is any sequence of these steps and of clients that
  arrive. Some clients connect and never answer the handshake.
\<close>

subsection \<open>Actions\<close>

datatype accept_go =
    Accepting \<comment> \<open>in \<open>ln.Accept\<close>\<close>
  | Handshaking nat \<comment> \<open>in \<open>HandshakeContext\<close> on this socket\<close>
  | ResultSent "yamuxConn res" \<comment> \<open>the result is in the channel\<close>

record accept_call =
  al_go :: accept_go
  al_ctx :: "goerr option" \<comment> \<open>the context is done, with this error\<close>
  al_ret :: "yamuxConn res option" \<comment> \<open>what the call has returned\<close>

record accept_sys =
  ac_l :: yamuxListener
  ac_backlog :: "nat list"
  ac_closed :: bool
  ac_calls :: "accept_call list"

datatype accept_label =
    ACall
  | AArrive nat
  | ATake nat
  | AAnswer nat \<comment> \<open>the client of the call's socket answers the handshake\<close>
  | ACtx nat goerr
  | AAbort nat \<comment> \<open>the handshake sees the context done\<close>
  | AReturn nat \<comment> \<open>\<open>select\<close>: the result is received\<close>
  | AGiveUp nat \<comment> \<open>\<open>select\<close>: the context is done\<close>
  | AClose

definition ErrClosed :: goerr where "ErrClosed = Sentinel ''use of closed network connection''"

definition upd_call :: "nat \<Rightarrow> (accept_call \<Rightarrow> accept_call) \<Rightarrow> accept_sys \<Rightarrow> accept_sys" where
  "upd_call i f y = (if i < length (ac_calls y) then y\<lparr>ac_calls := (ac_calls y)[i := f (ac_calls y ! i)]\<rparr> else y)"

text \<open>\<open>responds raw\<close> says whether the client behind a socket ever answers the handshake.\<close>

fun accept_exec :: "tcp_net \<Rightarrow> (nat \<Rightarrow> bool) \<Rightarrow> accept_label \<Rightarrow> accept_sys \<Rightarrow> accept_sys" where
  "accept_exec net responds ACall y = y\<lparr>ac_calls := ac_calls y @ [\<lparr>al_go = Accepting, al_ctx = None, al_ret = None\<rparr>]\<rparr>"
| "accept_exec net responds (AArrive raw) y = (if ac_closed y then y else y\<lparr>ac_backlog := ac_backlog y @ [raw]\<rparr>)"
| "accept_exec net responds (ATake i) y =
     (if i < length (ac_calls y) \<and> al_go (ac_calls y ! i) = Accepting then
        (if ac_closed y then upd_call i (\<lambda>c. c\<lparr>al_go := ResultSent (fst (accept_goroutine net (ac_l y) (Inl ErrClosed)))\<rparr>) y
         else case ac_backlog y of
           [] \<Rightarrow> y
         | raw # rest \<Rightarrow> upd_call i (\<lambda>c. c\<lparr>al_go := Handshaking raw\<rparr>) (y\<lparr>ac_backlog := rest\<rparr>))
      else y)"
| "accept_exec net responds (AAnswer i) y =
     upd_call i (\<lambda>c. case al_go c of
         Handshaking raw \<Rightarrow> if responds raw then c\<lparr>al_go := ResultSent (fst (accept_goroutine net (ac_l y) (Inr raw)))\<rparr> else c
       | _ \<Rightarrow> c) y"
| "accept_exec net responds (ACtx i e) y = upd_call i (\<lambda>c. if al_ctx c = None then c\<lparr>al_ctx := Some e\<rparr> else c) y"
| "accept_exec net responds (AAbort i) y =
     upd_call i (\<lambda>c. case (al_go c, al_ctx c) of
         (Handshaking raw, Some e) \<Rightarrow> c\<lparr>al_go := ResultSent (Inl (Wrap ''transport: tcp+tls handshake'' e))\<rparr>
       | _ \<Rightarrow> c) y"
| "accept_exec net responds (AReturn i) y =
     upd_call i (\<lambda>c. case (al_go c, al_ret c) of (ResultSent r, None) \<Rightarrow> c\<lparr>al_ret := Some r\<rparr> | _ \<Rightarrow> c) y"
| "accept_exec net responds (AGiveUp i) y =
     (if i < length (ac_calls y) then
        (case (al_ctx (ac_calls y ! i), al_ret (ac_calls y ! i)) of
           (Some e, None) \<Rightarrow> upd_call i (\<lambda>c. c\<lparr>al_ret := Some (Inl e)\<rparr>) (y\<lparr>ac_closed := True\<rparr>)
         | _ \<Rightarrow> y)
      else y)"
| "accept_exec net responds AClose y = y\<lparr>ac_closed := True\<rparr>"




subsection \<open>Invariant\<close>










lemma upd_call_length [simp]: "length (ac_calls (upd_call i f y)) = length (ac_calls y)"
  by (simp add: upd_call_def)







subsection \<open>Properties\<close>



text \<open>
  The other way out is a context. When the context of a call in a handshake is done, both branches of the
  \<open>select\<close> can be ready: if the aborted handshake is received first, the call returns its error and the
  listener stays open; if the context is seen first, the call closes the listener, and every other
  call that waits for a socket then fails.
\<close>

lemma context_ends_call:
  assumes "i < length (ac_calls y)" and "al_go (ac_calls y ! i) = Handshaking raw" and "al_ctx (ac_calls y ! i) = None"
    and "al_ret (ac_calls y ! i) = None"
  shows "al_ret (ac_calls (fold (accept_exec net responds) [ACtx i e, AAbort i, AReturn i] y) ! i)
           = Some (Inl (Wrap ''transport: tcp+tls handshake'' e)) \<and>
         ac_closed (fold (accept_exec net responds) [ACtx i e, AAbort i, AReturn i] y) = ac_closed y"
    and "al_ret (ac_calls (fold (accept_exec net responds) [ACtx i e, AGiveUp i] y) ! i) = Some (Inl e) \<and>
         ac_closed (fold (accept_exec net responds) [ACtx i e, AGiveUp i] y)"
  using assms by (simp_all add: upd_call_def)

lemma closed_for_everybody:
  assumes "ac_closed y" and "i < length (ac_calls y)" and "al_go (ac_calls y ! i) = Accepting" and "al_ret (ac_calls y ! i) = None"
  shows "al_ret (ac_calls (fold (accept_exec net responds) [ATake i, AReturn i] y) ! i) = Some (Inl ErrClosed)"
  using assms by (simp add: upd_call_def accept_goroutine_def)

end
