(* ===== verification/Flags.thy ===== *)
theory Flags
  imports Prelude "HOL-Library.List_Lexorder" "HOL-Library.Char_ord"
begin

text \<open>
  Go's \<open>flag\<close> package as the programs of the repository use it: sets of string, int, duration and bool
  flags, parsed with \<open>ExitOnError\<close>, and the conversions behind them, \<open>strconv.ParseInt\<close> with base 0,
  \<open>strconv.ParseBool\<close> and \<open>time.ParseDuration\<close>. The two parameters are \<open>quote\<close>, the verb \<open>%q\<close>, and \<open>frac\<close>,
  the float product that \<open>ParseDuration\<close> uses for the digits after a point.

  Parsing always ends. It reads back what a caller spells out, with one dash or two and with the value
  in the next argument or behind an equals sign, and what it stores has the type of the flag.
\<close>

subsection \<open>Digits\<close>

abbreviation code :: "char \<Rightarrow> nat" where
  "code c \<equiv> of_char c"

definition is_digit :: "char \<Rightarrow> bool" where
  "is_digit c \<longleftrightarrow> 48 \<le> code c \<and> code c \<le> 57"

definition lower :: "char \<Rightarrow> nat" where
  "lower c = (if 65 \<le> code c \<and> code c \<le> 90 then code c + 32 else code c)"

text \<open>The value of a digit, if it is one of some base.\<close>

definition digit_value :: "char \<Rightarrow> nat option" where
  "digit_value c =
     (if is_digit c then Some (code c - 48)
      else if 97 \<le> lower c \<and> lower c \<le> 122 then Some (lower c - 97 + 10)
      else None)"

subsection \<open>strconv\<close>

datatype num_error = ErrSyntax | ErrRange

text \<open>The loop of \<open>ParseUint\<close> for 64 bits; the first error ends it.\<close>

fun parse_digits :: "nat \<Rightarrow> string \<Rightarrow> nat \<Rightarrow> num_error + nat" where
  "parse_digits base [] n = Inr n"
| "parse_digits base (c # s) n =
     (if c = CHR ''_'' then parse_digits base s n
      else (case digit_value c of
              None \<Rightarrow> Inl ErrSyntax
            | Some d \<Rightarrow>
                if base \<le> d then Inl ErrSyntax
                else if 2 ^ 64 \<le> n * base + d then Inl ErrRange
                else parse_digits base s (n * base + d)))"

definition base_prefix :: "string \<Rightarrow> nat \<times> string" where
  "base_prefix s =
     (case s of
        c # s1 \<Rightarrow>
          if c \<noteq> CHR ''0'' then (10, s)
          else (case s1 of
                  k # d # s2 \<Rightarrow>
                    if lower k = 98 then (2, d # s2)
                    else if lower k = 111 then (8, d # s2)
                    else if lower k = 120 then (16, d # s2)
                    else (8, s1)
                | _ \<Rightarrow> (8, s1))
      | [] \<Rightarrow> (10, s))"

text \<open>\<open>underscoreOK\<close> behind the sign: an underscore stands between digits, or after the prefix.\<close>

datatype last_seen = SawNothing | SawDigit | SawUnderscore | SawOther

fun underscores_ok :: "bool \<Rightarrow> last_seen \<Rightarrow> string \<Rightarrow> bool" where
  "underscores_ok hex saw [] \<longleftrightarrow> saw \<noteq> SawUnderscore"
| "underscores_ok hex saw (c # s) \<longleftrightarrow>
     (if is_digit c \<or> hex \<and> 97 \<le> lower c \<and> lower c \<le> 102 then underscores_ok hex SawDigit s
      else if c = CHR ''_'' then saw = SawDigit \<and> underscores_ok hex SawUnderscore s
      else saw \<noteq> SawUnderscore \<and> underscores_ok hex SawOther s)"

definition underscoreOK :: "string \<Rightarrow> bool" where
  "underscoreOK s =
     (case s of
        z # k # s' \<Rightarrow>
          if z = CHR ''0'' \<and> lower k \<in> {98, 111, 120} then underscores_ok (lower k = 120) SawDigit s'
          else underscores_ok False SawNothing s
      | _ \<Rightarrow> underscores_ok False SawNothing s)"

definition ParseUint0 :: "string \<Rightarrow> num_error + nat" where
  "ParseUint0 s =
     (if s = [] then Inl ErrSyntax
      else (let (base, ds) = base_prefix s in
            case parse_digits base ds 0 of
              Inl e \<Rightarrow> Inl e
            | Inr n \<Rightarrow> if CHR ''_'' \<in> set ds \<and> \<not> underscoreOK s then Inl ErrSyntax else Inr n))"

text \<open>\<open>ParseInt(s, 0, 64)\<close>.\<close>

definition split_sign :: "string \<Rightarrow> bool \<times> string" where
  "split_sign s =
     (case s of c # s' \<Rightarrow> if c = CHR ''-'' then (True, s') else if c = CHR ''+'' then (False, s') else (False, s) | [] \<Rightarrow> (False, s))"

definition ParseInt0 :: "string \<Rightarrow> num_error + int" where
  "ParseInt0 s =
     (let (neg, s') = split_sign s in
      case ParseUint0 s' of
        Inl e \<Rightarrow> Inl e
      | Inr un \<Rightarrow>
          if \<not> neg \<and> 2 ^ 63 \<le> un \<or> neg \<and> 2 ^ 63 < un then Inl ErrRange
          else Inr (if neg then - int un else int un))"

definition ParseBool :: "string \<Rightarrow> bool option" where
  "ParseBool s =
     (if s \<in> set [''1'', ''t'', ''T'', ''true'', ''TRUE'', ''True''] then Some True
      else if s \<in> set [''0'', ''f'', ''F'', ''false'', ''FALSE'', ''False''] then Some False
      else None)"

subsection \<open>time.ParseDuration\<close>

fun leadingInt :: "string \<Rightarrow> nat \<Rightarrow> (nat \<times> string) option" where
  "leadingInt [] x = Some (x, [])"
| "leadingInt (c # s) x =
     (if \<not> is_digit c then Some (x, c # s)
      else if 2 ^ 63 div 10 < x then None
      else if 2 ^ 63 < x * 10 + (code c - 48) then None
      else leadingInt s (x * 10 + (code c - 48)))"

fun leadingFraction :: "string \<Rightarrow> nat \<Rightarrow> nat \<Rightarrow> bool \<Rightarrow> nat \<times> nat \<times> string" where
  "leadingFraction [] x scale overflow = (x, scale, [])"
| "leadingFraction (c # s) x scale overflow =
     (if \<not> is_digit c then (x, scale, c # s)
      else if overflow \<or> (2 ^ 63 - 1) div 10 < x \<or> 2 ^ 63 < x * 10 + (code c - 48) then leadingFraction s x scale True
      else leadingFraction s (x * 10 + (code c - 48)) (scale * 10) False)"

definition unit_ns :: "string \<Rightarrow> nat option" where
  "unit_ns u =
     (if u = ''ns'' then Some 1
      else if u \<in> set [''us'', map char_of [194, 181, 115 :: nat], map char_of [206, 188, 115 :: nat]] then Some 1000
      else if u = ''ms'' then Some 1000000
      else if u = ''s'' then Some 1000000000
      else if u = ''m'' then Some 60000000000
      else if u = ''h'' then Some 3600000000000
      else None)"

definition in_unit :: "char \<Rightarrow> bool" where
  "in_unit c \<longleftrightarrow> c \<noteq> CHR ''.'' \<and> \<not> is_digit c"

text \<open>One turn of the loop: a number, an optional fraction and a unit. None is an error.\<close>

definition duration_part :: "(nat \<Rightarrow> nat \<Rightarrow> nat \<Rightarrow> nat) \<Rightarrow> string \<Rightarrow> (nat \<times> string) option" where
  "duration_part frac s =
     (case s of
        [] \<Rightarrow> None
      | c # _ \<Rightarrow>
          if c \<noteq> CHR ''.'' \<and> \<not> is_digit c then None
          else (case leadingInt s 0 of
                  None \<Rightarrow> None
                | Some (v, s1) \<Rightarrow>
                    (let pre = length s1 \<noteq> length s;
                         (f, scale, s2) = (case s1 of d # t \<Rightarrow> if d = CHR ''.'' then leadingFraction t 0 1 False else (0, 1, s1)
                                                    | [] \<Rightarrow> (0, 1, s1));
                         post = (case s1 of d # t \<Rightarrow> d = CHR ''.'' \<and> length s2 \<noteq> length t | [] \<Rightarrow> False);
                         u = takeWhile in_unit s2
                     in if \<not> pre \<and> \<not> post \<or> u = [] then None
                        else (case unit_ns u of
                                None \<Rightarrow> None
                              | Some unit \<Rightarrow>
                                  if 2 ^ 63 div unit < v then None
                                  else (let v = v * unit; v = (if 0 < f then (v + frac f scale unit) mod 2 ^ 64 else v)
                                        in if 0 < f \<and> 2 ^ 63 < v then None else Some (v, dropWhile in_unit s2))))))"

lemma leadingInt_len: "leadingInt s x = Some (v, r) \<Longrightarrow> length r \<le> length s"
  by (induction s x rule: leadingInt.induct) (auto split: if_splits)

lemma leadingFraction_len: "leadingFraction s x sc ov = (f, sc', r) \<Longrightarrow> length r \<le> length s"
  by (induction s x sc ov rule: leadingFraction.induct) (auto split: if_splits)

lemma duration_part_len:
  assumes "duration_part frac s = Some (v, r)"
  shows "length r < length s"
proof -
  obtain v1 s1 where i: "leadingInt s 0 = Some (v1, s1)"
    using assms by (auto simp: duration_part_def split: list.splits if_splits option.splits)
  obtain f sc s2 where p: "(case s1 of d # t \<Rightarrow> if d = CHR ''.'' then leadingFraction t 0 1 False else (0, 1, s1) | [] \<Rightarrow> (0, 1, s1)) = (f, sc, s2)"
    by (metis prod_cases3)
  have "length s2 \<le> length s1"
    using p by (auto split: list.splits if_splits dest!: leadingFraction_len)
  moreover have r: "r = dropWhile in_unit s2" "takeWhile in_unit s2 \<noteq> []"
    using assms i p by (auto simp: duration_part_def Let_def split: list.splits if_splits option.splits)
  moreover have "length (takeWhile in_unit s2) + length (dropWhile in_unit s2) = length s2"
    by (metis length_append takeWhile_dropWhile_id)
  ultimately show ?thesis using leadingInt_len [OF i] by (cases "takeWhile in_unit s2") auto
qed

function duration_loop :: "(nat \<Rightarrow> nat \<Rightarrow> nat \<Rightarrow> nat) \<Rightarrow> string \<Rightarrow> nat \<Rightarrow> nat option" where
  "duration_loop frac s d =
     (if s = [] then Some d
      else (case duration_part frac s of
              None \<Rightarrow> None
            | Some (v, s') \<Rightarrow>
                let d' = (d + v) mod 2 ^ 64 in if 2 ^ 63 < d' then None else duration_loop frac s' d'))"
  by pat_completeness auto
termination
  by (relation "measure (\<lambda>(frac, s, d). length s)") (auto dest: duration_part_len)

declare duration_loop.simps [simp del]

definition ParseDuration :: "(nat \<Rightarrow> nat \<Rightarrow> nat \<Rightarrow> nat) \<Rightarrow> string \<Rightarrow> int option" where
  "ParseDuration frac s =
     (let (neg, s') = split_sign s in
      if s' = ''0'' then Some 0
      else if s' = [] then None
      else (case duration_loop frac s' 0 of
              None \<Rightarrow> None
            | Some d \<Rightarrow> if neg then Some (- int d) else if 2 ^ 63 - 1 < d then None else Some (int d)))"

subsection \<open>Flags\<close>

datatype flag_value = FString string | FInt int | FDuration int | FBool bool

text \<open>A flag has its value and the text of its default.\<close>

record Flag =
  fg_Name :: string
  fg_Usage :: string
  fg_Value :: flag_value
  fg_DefValue :: string

record FlagSet =
  fs_name :: string
  fs_flags :: "Flag list"

definition String_flag :: "string \<Rightarrow> string \<Rightarrow> string \<Rightarrow> Flag" where
  "String_flag name value usage = \<lparr>fg_Name = name, fg_Usage = usage, fg_Value = FString value, fg_DefValue = value\<rparr>"

definition Int_flag :: "string \<Rightarrow> int \<Rightarrow> string \<Rightarrow> Flag" where
  "Int_flag name value usage = \<lparr>fg_Name = name, fg_Usage = usage, fg_Value = FInt value, fg_DefValue = show_int value\<rparr>"

text \<open>The durations of the programs have the default 0, which prints as \<open>0s\<close>.\<close>

definition Duration_flag :: "string \<Rightarrow> string \<Rightarrow> Flag" where
  "Duration_flag name usage = \<lparr>fg_Name = name, fg_Usage = usage, fg_Value = FDuration 0, fg_DefValue = ''0s''\<rparr>"

definition Bool_flag :: "string \<Rightarrow> string \<Rightarrow> Flag" where
  "Bool_flag name usage = \<lparr>fg_Name = name, fg_Usage = usage, fg_Value = FBool False, fg_DefValue = ''false''\<rparr>"

fun type_name :: "flag_value \<Rightarrow> string" where
  "type_name (FString _) = ''string''"
| "type_name (FInt _) = ''int''"
| "type_name (FDuration _) = ''duration''"
| "type_name (FBool _) = ''''"

fun is_zero_value :: "flag_value \<Rightarrow> string \<Rightarrow> bool" where
  "is_zero_value (FString _) s \<longleftrightarrow> s = ''''"
| "is_zero_value (FInt _) s \<longleftrightarrow> s = ''0''"
| "is_zero_value (FDuration _) s \<longleftrightarrow> s = ''0s''"
| "is_zero_value (FBool _) s \<longleftrightarrow> s = ''false''"

text \<open>\<open>PrintDefaults\<close>, line by line, for usages without back quotes and line breaks.\<close>

definition flag_lines :: "(string \<Rightarrow> string) \<Rightarrow> Flag \<Rightarrow> string list" where
  "flag_lines quote f =
     (let head = ''  -'' @ fg_Name f @ (if type_name (fg_Value f) \<noteq> '''' then '' '' @ type_name (fg_Value f) else '''');
          dflt = (if is_zero_value (fg_Value f) (fg_DefValue f) then ''''
                  else '' (default '' @ (case fg_Value f of FString _ \<Rightarrow> quote (fg_DefValue f) | _ \<Rightarrow> fg_DefValue f) @ '')'');
          tab = [char_of (9 :: nat)]
      in if length head \<le> 4 then [head @ tab @ fg_Usage f @ dflt] else [head, ''    '' @ tab @ fg_Usage f @ dflt])"

definition flag_usage :: "(string \<Rightarrow> string) \<Rightarrow> FlagSet \<Rightarrow> string list" where
  "flag_usage quote fs =
     (if fs_name fs = '''' then ''Usage:'' else ''Usage of '' @ fs_name fs @ '':'') #
     concat (map (flag_lines quote) (sort_key fg_Name (fs_flags fs)))"

subsection \<open>Parse\<close>

text \<open>\<open>Value.Set\<close>: the new value, or the text of the error.\<close>

fun Value_Set :: "(nat \<Rightarrow> nat \<Rightarrow> nat \<Rightarrow> nat) \<Rightarrow> flag_value \<Rightarrow> string \<Rightarrow> string + flag_value" where
  "Value_Set frac (FString _) s = Inr (FString s)"
| "Value_Set frac (FInt _) s =
     (case ParseInt0 s of
        Inl ErrSyntax \<Rightarrow> Inl ''parse error''
      | Inl ErrRange \<Rightarrow> Inl ''value out of range''
      | Inr n \<Rightarrow> Inr (FInt n))"
| "Value_Set frac (FDuration _) s = (case ParseDuration frac s of None \<Rightarrow> Inl ''parse error'' | Some d \<Rightarrow> Inr (FDuration d))"
| "Value_Set frac (FBool _) s = (case ParseBool s of None \<Rightarrow> Inl ''parse error'' | Some b \<Rightarrow> Inr (FBool b))"

fun is_bool :: "flag_value \<Rightarrow> bool" where
  "is_bool (FBool _) \<longleftrightarrow> True"
| "is_bool _ \<longleftrightarrow> False"

text \<open>What an argument is: no flag, the end of the flags, or a name, with a value behind an equals sign.\<close>

datatype flag_word = Positional | Terminator | BadSyntax | Named string "string option"

definition name_value :: "string \<Rightarrow> flag_word" where
  "name_value n =
     (case n of
        [] \<Rightarrow> BadSyntax
      | c # n' \<Rightarrow>
          if c = CHR ''-'' \<or> c = CHR ''='' then BadSyntax
          else (case dropWhile (\<lambda>x. x \<noteq> CHR ''='') n' of
                  [] \<Rightarrow> Named n None
                | _ # v \<Rightarrow> Named (c # takeWhile (\<lambda>x. x \<noteq> CHR ''='') n') (Some v)))"

definition arg_word :: "string \<Rightarrow> flag_word" where
  "arg_word s =
     (case s of
        m # c # n \<Rightarrow>
          if m \<noteq> CHR ''-'' then Positional
          else if c = CHR ''-'' then (if n = [] then Terminator else name_value n)
          else name_value (c # n)
      | _ \<Rightarrow> Positional)"

type_synonym flag_vals = "string \<rightharpoonup> flag_value"

text \<open>How \<open>Parse\<close> ends: the process exits, with these lines on standard error, or the values and the rest.\<close>

type_synonym parsed = "(nat \<times> string list) + (flag_vals \<times> string list)"

text \<open>Setting one flag, with its error message.\<close>

definition set_flag ::
  "(nat \<Rightarrow> nat \<Rightarrow> nat \<Rightarrow> nat) \<Rightarrow> (string \<Rightarrow> string) \<Rightarrow> flag_vals \<Rightarrow> string \<Rightarrow> flag_value \<Rightarrow> string \<Rightarrow> string + flag_vals" where
  "set_flag frac quote vs name v value =
     (case Value_Set frac v value of
        Inl e \<Rightarrow> Inl ((if is_bool v then ''invalid boolean value '' @ quote value @ '' for -''
                     else ''invalid value '' @ quote value @ '' for flag -'') @ name @ '': '' @ e)
      | Inr v' \<Rightarrow> Inr (vs(name \<mapsto> v')))"

text \<open>
  One turn of \<open>parseOne\<close> on the argument \<open>s\<close> with the arguments behind it: the values and the arguments
  to go on with, the end of the flags (\<open>Inl (Inr rest)\<close>), or an exit.
\<close>

definition parseOne ::
  "(nat \<Rightarrow> nat \<Rightarrow> nat \<Rightarrow> nat) \<Rightarrow> (string \<Rightarrow> string) \<Rightarrow> string list \<Rightarrow> flag_vals \<Rightarrow> string \<Rightarrow> string list
     \<Rightarrow> ((nat \<times> string list) + string list) + (flag_vals \<times> string list)" where
  "parseOne frac quote usage vs s args =
     (let failf = (\<lambda>msg. Inl (Inl (2, msg # usage)));
          set = (\<lambda>name v value rest. case set_flag frac quote vs name v value of Inl msg \<Rightarrow> failf msg | Inr vs' \<Rightarrow> Inr (vs', rest))
      in case arg_word s of
           Positional \<Rightarrow> Inl (Inr (s # args))
         | Terminator \<Rightarrow> Inl (Inr args)
         | BadSyntax \<Rightarrow> failf (''bad flag syntax: '' @ s)
         | Named name value \<Rightarrow>
             (case vs name of
                None \<Rightarrow>
                  if name = ''help'' \<or> name = ''h'' then Inl (Inl (0, usage))
                  else failf (''flag provided but not defined: -'' @ name)
              | Some v \<Rightarrow>
                  if is_bool v then set name v (case value of None \<Rightarrow> ''true'' | Some x \<Rightarrow> x) args
                  else (case value of
                          Some x \<Rightarrow> set name v x args
                        | None \<Rightarrow>
                            (case args of
                               [] \<Rightarrow> failf (''flag needs an argument: -'' @ name)
                             | x # rest \<Rightarrow> set name v x rest))))"

lemma parseOne_len: "parseOne frac quote usage vs s args = Inr (vs', rest) \<Longrightarrow> length rest \<le> length args"
  by (auto simp: parseOne_def Let_def split: flag_word.splits option.splits if_splits list.splits sum.splits)

function parse_flags ::
  "(nat \<Rightarrow> nat \<Rightarrow> nat \<Rightarrow> nat) \<Rightarrow> (string \<Rightarrow> string) \<Rightarrow> string list \<Rightarrow> string list \<Rightarrow> flag_vals \<Rightarrow> parsed" where
  "parse_flags frac quote usage [] vs = Inr (vs, [])"
| "parse_flags frac quote usage (s # args) vs =
     (case parseOne frac quote usage vs s args of
        Inl (Inl exit) \<Rightarrow> Inl exit
      | Inl (Inr rest) \<Rightarrow> Inr (vs, rest)
      | Inr (vs', rest) \<Rightarrow> parse_flags frac quote usage rest vs')"
  by pat_completeness auto
termination
  by (relation "measure (\<lambda>(frac, quote, usage, args, vs). length args)") (auto dest: parseOne_len)

definition flag_defaults :: "FlagSet \<Rightarrow> flag_vals" where
  "flag_defaults fs = map_of (map (\<lambda>f. (fg_Name f, fg_Value f)) (fs_flags fs))"

definition FlagSet_Parse :: "(nat \<Rightarrow> nat \<Rightarrow> nat \<Rightarrow> nat) \<Rightarrow> (string \<Rightarrow> string) \<Rightarrow> FlagSet \<Rightarrow> string list \<Rightarrow> parsed" where
  "FlagSet_Parse frac quote fs args = parse_flags frac quote (flag_usage quote fs) args (flag_defaults fs)"

text \<open>The values behind the pointers that \<open>String\<close>, \<open>Int\<close>, \<open>Duration\<close> and \<open>Bool\<close> returned.\<close>

definition str_of :: "flag_vals \<Rightarrow> string \<Rightarrow> string" where
  "str_of vs name = (case vs name of Some (FString s) \<Rightarrow> s | _ \<Rightarrow> '''')"

definition int_of_flag :: "flag_vals \<Rightarrow> string \<Rightarrow> int" where
  "int_of_flag vs name = (case vs name of Some (FInt n) \<Rightarrow> n | _ \<Rightarrow> 0)"

definition dur_of :: "flag_vals \<Rightarrow> string \<Rightarrow> int" where
  "dur_of vs name = (case vs name of Some (FDuration d) \<Rightarrow> d | _ \<Rightarrow> 0)"

definition bool_of :: "flag_vals \<Rightarrow> string \<Rightarrow> bool" where
  "bool_of vs name = (case vs name of Some (FBool b) \<Rightarrow> b | _ \<Rightarrow> False)"

subsection \<open>Properties\<close>

subsubsection \<open>Numbers\<close>

abbreviation digit :: "nat \<Rightarrow> char" where
  "digit k \<equiv> char_of (48 + k)"

lemma code_digit: "k < 10 \<Longrightarrow> code (digit k) = 48 + k"
  by (simp add: of_char_of)

lemma digit_char [simp]:
  assumes "k < 10"
  shows "is_digit (digit k)" and "digit_value (digit k) = Some k"
proof -
  show d: "is_digit (digit k)" unfolding is_digit_def code_digit [OF assms] using assms by simp
  then show "digit_value (digit k) = Some k" unfolding digit_value_def code_digit [OF assms] by simp
qed

lemma not_digits: "\<not> is_digit (CHR ''_'')" "\<not> is_digit (CHR ''-'')" "\<not> is_digit (CHR ''+'')" "\<not> is_digit (CHR ''.'')"
  by (simp_all add: is_digit_def)

lemma digit_neq [simp]: "k < 10 \<Longrightarrow> digit k \<noteq> CHR ''_''" "k < 10 \<Longrightarrow> digit k \<noteq> CHR ''-''" "k < 10 \<Longrightarrow> digit k \<noteq> CHR ''+''"
  using digit_char(1) [of k] not_digits by metis+

lemma parse_show_nat: "n < 2 ^ 64 \<Longrightarrow> parse_digits 10 (show_nat n @ s) 0 = parse_digits 10 s n"
proof (induction n arbitrary: s rule: show_nat.induct)
  case (1 n)
  show ?case
  proof (cases "n < 10")
    case True
    then show ?thesis by (simp add: show_nat.simps [of n])
  next
    case False
    have m: "n mod 10 < 10" by simp
    then have m': "\<not> 10 \<le> n mod 10" "\<not> 2 ^ 64 \<le> n div 10 * 10 + n mod 10" using 1(2) by (linarith, simp)
    have "parse_digits 10 (show_nat n @ s) 0 = parse_digits 10 (show_nat (n div 10) @ digit (n mod 10) # s) 0"
      using False by (simp add: show_nat.simps [of n])
    also have "\<dots> = parse_digits 10 (digit (n mod 10) # s) (n div 10)" using 1 False by simp
    also have "\<dots> = parse_digits 10 s n"
      unfolding parse_digits.simps digit_char(2) [OF m] using digit_neq(1) [OF m] m' by simp
    finally show ?thesis .
  qed
qed

lemma show_nat_head: "\<exists>k ds. k < 10 \<and> show_nat n = digit k # ds \<and> (k = 0 \<longrightarrow> ds = [] \<and> n = 0)"
proof (induction n rule: show_nat.induct)
  case (1 n)
  show ?case
  proof (cases "n < 10")
    case True
    then show ?thesis by (intro exI [of _ n] exI [of _ "[]"]) (simp add: show_nat.simps [of n])
  next
    case False
    then obtain k ds where k: "k < 10" "show_nat (n div 10) = digit k # ds" "k = 0 \<longrightarrow> ds = [] \<and> n div 10 = 0"
      using 1 by blast
    have "show_nat n = digit k # (ds @ [digit (n mod 10)])" using False k(2) by (simp add: show_nat.simps [of n])
    moreover have "k \<noteq> 0" using k(3) False by auto
    ultimately show ?thesis using k(1) by blast
  qed
qed

lemma show_nat_digits: "c \<in> set (show_nat n) \<Longrightarrow> is_digit c"
proof (induction n rule: show_nat.induct)
  case (1 n)
  have "c = digit (n mod 10) \<or> 10 \<le> n \<and> c \<in> set (show_nat (n div 10))"
    using 1(2) by (subst (asm) show_nat.simps) (auto split: if_splits)
  then show ?case using 1(1) digit_char(1) [of "n mod 10"] by auto
qed

lemma ParseUint0_show:
  assumes "n < 2 ^ 64"
  shows "ParseUint0 (show_nat n) = Inr n"
proof -
  obtain k ds where k: "k < 10" "show_nat n = digit k # ds" "k = 0 \<longrightarrow> ds = [] \<and> n = 0"
    using show_nat_head by blast
  have u: "CHR ''_'' \<notin> set (show_nat n)" using show_nat_digits not_digits(1) by blast
  show ?thesis
  proof (cases "k = 0")
    case True
    then have "show_nat n = ''0''" "n = 0" using k by (simp_all add: char_of_def bit_Suc_0_iff)
    then show ?thesis by (simp add: ParseUint0_def base_prefix_def)
  next
    case False
    then have "48 + k \<noteq> code (CHR ''0'')" by simp
    then have "digit k \<noteq> CHR ''0''" using code_digit [OF k(1)] by metis
    then have "base_prefix (show_nat n) = (10, show_nat n)" using k(2) by (simp add: base_prefix_def)
    then show ?thesis using parse_show_nat [OF assms, of "[]"] k(2) u by (simp add: ParseUint0_def)
  qed
qed

lemma split_sign_show [simp]: "split_sign (show_nat n @ s) = (False, show_nat n @ s)"
proof -
  obtain k ds where "k < 10" "show_nat n = digit k # ds" using show_nat_head [of n] by blast
  then show ?thesis by (simp add: split_sign_def)
qed

text \<open>An int flag reads back every int64 that was printed.\<close>

lemma ParseInt0_show:
  assumes "in_i64 n"
  shows "ParseInt0 (show_int n) = Inr n"
proof (cases "n < 0")
  case True
  then have "nat (- n) < 2 ^ 64" "\<not> 2 ^ 63 < nat (- n)" using assms by (auto simp: in_i64_def)
  then show ?thesis using True ParseUint0_show [of "nat (- n)"] by (simp add: ParseInt0_def show_int_def split_sign_def)
next
  case False
  then have "nat n < 2 ^ 64" "\<not> 2 ^ 63 \<le> nat n" using assms by (auto simp: in_i64_def MaxInt64_def)
  then show ?thesis using False ParseUint0_show [of "nat n"] split_sign_show [of "nat n" "[]"]
    by (simp add: ParseInt0_def show_int_def)
qed

lemma ParseInt0_range: "ParseInt0 s = Inr n \<Longrightarrow> in_i64 n"
  by (auto simp: ParseInt0_def in_i64_def MaxInt64_def Let_def split: prod.splits sum.splits if_splits)

subsubsection \<open>Durations\<close>

lemma leadingInt_show: "n \<le> 2 ^ 63 \<Longrightarrow> leadingInt (show_nat n @ s) 0 = leadingInt s n"
proof (induction n arbitrary: s rule: show_nat.induct)
  case (1 n)
  show ?case
  proof (cases "n < 10")
    case True
    then show ?thesis unfolding show_nat.simps [of n] by (simp add: code_digit)
  next
    case False
    have m: "n mod 10 < 10" by simp
    have le: "\<not> 2 ^ 63 div 10 < n div 10" using div_le_mono [OF 1(2), of 10] by simp
    have "leadingInt (show_nat n @ s) 0 = leadingInt (show_nat (n div 10) @ digit (n mod 10) # s) 0"
      using False by (simp add: show_nat.simps [of n])
    also have "\<dots> = leadingInt (digit (n mod 10) # s) (n div 10)" using 1 False by simp
    also have "\<dots> = leadingInt s n"
      unfolding leadingInt.simps code_digit [OF m] using digit_char(1) [OF m] 1(2) le by (simp add: not_less)
    finally show ?thesis .
  qed
qed

text \<open>A number with a unit is that many units.\<close>

lemma duration_part_show:
  assumes "unit_ns u = Some k" and "n * k \<le> 2 ^ 63" and "u \<noteq> []" and "\<And>c. c \<in> set u \<Longrightarrow> in_unit c" and "s = [] \<or> \<not> in_unit (hd s)"
  shows "duration_part frac (show_nat n @ u @ s) = Some (n * k, s)"
proof -
  obtain j ds where j: "j < 10" "show_nat n = digit j # ds" using show_nat_head by blast
  obtain c us where u: "u = c # us" "in_unit c" using assms(3,4) by (cases u) auto
  have k: "0 < k" using assms(1) by (auto simp: unit_ns_def split: if_splits)
  then have n: "n \<le> 2 ^ 63 div k" using assms(2) by (simp add: less_eq_div_iff_mult_less_eq)
  then have "n \<le> 2 ^ 63" by (metis div_le_dividend order_trans)
  from leadingInt_show [OF this, of "u @ s"] have l: "leadingInt (show_nat n @ u @ s) 0 = Some (n, u @ s)"
    using u by (simp add: in_unit_def)
  have w: "takeWhile in_unit (u @ s) = u" "dropWhile in_unit (u @ s) = s"
    using assms(4,5) by (cases s; simp add: takeWhile_append2 dropWhile_append2)+
  have "is_digit (digit j)" by (rule digit_char(1) [OF j(1)])
  then show ?thesis using l w u j(2) assms(1) n
    by (simp add: duration_part_def in_unit_def Let_def)
qed

text \<open>A duration flag reads back a number of units; the result of any duration is an int64.\<close>

lemma ParseDuration_units:
  assumes "unit_ns u = Some k" and "int (n * k) \<le> MaxInt64" and "u \<noteq> []" and "\<And>c. c \<in> set u \<Longrightarrow> in_unit c"
  shows "ParseDuration frac (show_nat n @ u) = Some (int (n * k))"
proof -
  have le: "n * k \<le> 2 ^ 63 - 1" using assms(2) by (simp add: MaxInt64_def flip: of_nat_mult)
  have "n * k \<le> 2 ^ 63" by (rule order_trans [OF le]) simp
  from duration_part_show [OF assms(1) this assms(3,4), where s = "[]"]
  have p: "duration_part frac (show_nat n @ u) = Some (n * k, [])" by simp
  have "duration_loop frac (show_nat n @ u) 0 = Some (n * k)"
    using assms(3) p le by (simp add: duration_loop.simps)
  moreover have "show_nat n @ u \<noteq> ''0''" "show_nat n @ u \<noteq> []"
    using assms(3) show_nat_head [of n] by (auto simp: append_eq_Cons_conv)
  ultimately show ?thesis using le by (simp add: ParseDuration_def)
qed

lemma duration_loop_range: "duration_loop frac s d = Some r \<Longrightarrow> d \<le> 2 ^ 63 \<Longrightarrow> r \<le> 2 ^ 63"
proof (induction frac s d rule: duration_loop.induct)
  case (1 frac s d)
  then show ?case by (subst (asm) (2) duration_loop.simps) (auto simp: Let_def split: if_splits option.splits)
qed

lemma ParseDuration_range:
  assumes "ParseDuration frac s = Some d"
  shows "in_i64 d"
proof -
  have "in_i64 (- int r)" "r \<le> 2 ^ 63 - 1 \<Longrightarrow> in_i64 (int r)" if "duration_loop frac s' 0 = Some r" for s' r
    using duration_loop_range [OF that] by (simp_all add: in_i64_def MaxInt64_def)
  then show ?thesis using assms
    by (auto simp: ParseDuration_def in_i64_def MaxInt64_def Let_def not_less split: prod.splits if_splits option.splits)
qed

subsubsection \<open>Parsing\<close>

text \<open>The names of flags: not empty, and without the signs that separate.\<close>

definition plain_name :: "string \<Rightarrow> bool" where
  "plain_name n \<longleftrightarrow> n \<noteq> [] \<and> hd n \<noteq> CHR ''-'' \<and> CHR ''='' \<notin> set n"

lemma arg_word_plain:
  assumes "plain_name n"
  shows "arg_word (''--'' @ n) = Named n None" and "arg_word (''--'' @ n @ ''='' @ v) = Named n (Some v)"
    and "arg_word (''-'' @ n) = Named n None" and "arg_word (''-'' @ n @ ''='' @ v) = Named n (Some v)"
proof -
  obtain c m where n: "n = c # m" using assms by (auto simp: plain_name_def neq_Nil_conv)
  have e: "dropWhile (\<lambda>x. x \<noteq> CHR ''='') m = []" "takeWhile (\<lambda>x. x \<noteq> CHR ''='') m = m"
    using assms n by (auto simp: plain_name_def dropWhile_eq_Nil_conv takeWhile_eq_all_conv)
  have w: "dropWhile (\<lambda>x. x \<noteq> CHR ''='') (m @ CHR ''='' # v) = CHR ''='' # v"
    "takeWhile (\<lambda>x. x \<noteq> CHR ''='') (m @ CHR ''='' # v) = m"
    using e by (simp_all add: dropWhile_append3 takeWhile_append1 dropWhile_eq_Nil_conv)
  have c: "c \<noteq> CHR ''-''" "c \<noteq> CHR ''=''" using assms n by (auto simp: plain_name_def)
  have "name_value (c # m) = Named n None" "name_value (c # m @ CHR ''='' # v) = Named n (Some v)"
    unfolding name_value_def list.case e w using c n by simp_all
  then show "arg_word (''--'' @ n) = Named n None" "arg_word (''--'' @ n @ ''='' @ v) = Named n (Some v)"
    "arg_word (''-'' @ n) = Named n None" "arg_word (''-'' @ n @ ''='' @ v) = Named n (Some v)"
    using c n by (simp_all add: arg_word_def)
qed

text \<open>One flag with its value, spelt with a space or with an equals sign: the rest is parsed with the flag set.\<close>

lemma parse_flag_value:
  assumes "plain_name n" and "vs n = Some w" and "\<not> is_bool w" and "Value_Set frac w v = Inr w'" and "dash = ''-'' \<or> dash = ''--''"
  shows "parse_flags frac quote usage ((dash @ n) # v # args) vs = parse_flags frac quote usage args (vs(n \<mapsto> w'))"
    and "parse_flags frac quote usage ((dash @ n @ ''='' @ v) # args) vs = parse_flags frac quote usage args (vs(n \<mapsto> w'))"
  using assms arg_word_plain [OF assms(1)] by (auto simp: parseOne_def set_flag_def)

lemma parse_string_flag:
  assumes "plain_name n" and "vs n = Some (FString w)" and "dash = ''-'' \<or> dash = ''--''"
  shows "parse_flags frac quote usage ((dash @ n) # v # args) vs = parse_flags frac quote usage args (vs(n \<mapsto> FString v))"
    and "parse_flags frac quote usage ((dash @ n @ ''='' @ v) # args) vs = parse_flags frac quote usage args (vs(n \<mapsto> FString v))"
  by (rule parse_flag_value [where w = "FString w"]; use assms in simp)+

text \<open>Parsing keeps the type of every flag, and its numbers are of 64 bits.\<close>

fun value_fits :: "flag_value \<Rightarrow> bool" where
  "value_fits (FInt n) \<longleftrightarrow> in_i64 n"
| "value_fits (FDuration d) \<longleftrightarrow> in_i64 d"
| "value_fits _ \<longleftrightarrow> True"

definition same_types :: "flag_vals \<Rightarrow> flag_vals \<Rightarrow> bool" where
  "same_types vs vs' \<longleftrightarrow> (\<forall>n. map_option type_name (vs' n) = map_option type_name (vs n))"

definition vals_fit :: "flag_vals \<Rightarrow> bool" where
  "vals_fit vs \<longleftrightarrow> (\<forall>n v. vs n = Some v \<longrightarrow> value_fits v)"

lemma Value_Set_keeps:
  assumes "Value_Set frac w v = Inr w'"
  shows "type_name w' = type_name w" and "value_fits w'"
  using assms ParseInt0_range ParseDuration_range
  by (cases w; auto split: sum.splits num_error.splits option.splits)+

lemma parseOne_keeps:
  assumes "parseOne frac quote usage vs s args = Inr (vs', rest)" and "vals_fit vs"
  shows "same_types vs vs'" and "vals_fit vs'"
proof -
  obtain n w v w' where "vs n = Some w" "Value_Set frac w v = Inr w'" "vs' = vs(n \<mapsto> w')"
    using assms(1) by (auto simp: parseOne_def set_flag_def Let_def
      split: flag_word.splits option.splits if_splits list.splits sum.splits)
  with Value_Set_keeps [OF this(2)] assms(2) show "same_types vs vs'" "vals_fit vs'"
    by (auto simp: same_types_def vals_fit_def)
qed

lemma parse_flags_keeps:
  "parse_flags frac quote usage args vs = Inr (vs', rest) \<Longrightarrow> vals_fit vs \<Longrightarrow> same_types vs vs' \<and> vals_fit vs'"
proof (induction frac quote usage args vs rule: parse_flags.induct)
  case (2 frac quote usage s args vs)
  show ?case
  proof (cases "\<exists>vs1 rest1. parseOne frac quote usage vs s args = Inr (vs1, rest1)")
    case True
    then obtain vs1 rest1 where p: "parseOne frac quote usage vs s args = Inr (vs1, rest1)" by blast
    then have "same_types vs1 vs' \<and> vals_fit vs'" using "2.IH" [OF p refl] "2.prems" parseOne_keeps(2) [OF p] by simp
    then show ?thesis using parseOne_keeps(1) [OF p "2.prems"(2)] by (simp add: same_types_def)
  next
    case False
    then show ?thesis using "2.prems" by (auto simp: same_types_def split: sum.splits)
  qed
qed (auto simp: same_types_def)

text \<open>Parsing exits with status 0 for a request for help only, and with status 2 otherwise.\<close>

lemma parse_flags_exit: "parse_flags frac quote usage args vs = Inl (st, err) \<Longrightarrow> st = 0 \<and> err = usage \<or> st = 2 \<and> (\<exists>msg. err = msg # usage)"
proof (induction frac quote usage args vs rule: parse_flags.induct)
  case (2 frac quote usage s args vs)
  show ?case
  proof (cases "parseOne frac quote usage vs s args")
    case (Inl r)
    then show ?thesis using "2.prems"
      by (auto simp: parseOne_def set_flag_def Let_def
          split: flag_word.splits option.splits if_splits list.splits sum.splits)
  next
    case (Inr r)
    then show ?thesis using 2 by (cases r) simp
  qed
qed simp

text \<open>
  A command line that spells out string flags sets each to the last value it was given. Every flag may
  be spelt in its own way: \<open>-n v\<close>, \<open>--n v\<close>, \<open>-n=v\<close> or \<open>--n=v\<close>.
\<close>

inductive spells :: "(string \<times> string) list \<Rightarrow> string list \<Rightarrow> bool" where
  spells_none: "spells [] []"
| spells_two: "dash = ''-'' \<or> dash = ''--'' \<Longrightarrow> spells opts args \<Longrightarrow> spells ((n, v) # opts) ((dash @ n) # v # args)"
| spells_one: "dash = ''-'' \<or> dash = ''--'' \<Longrightarrow> spells opts args \<Longrightarrow> spells ((n, v) # opts) ((dash @ n @ ''='' @ v) # args)"

lemma spells_simps [simp]:
  "spells [] []"
  "spells opts args \<Longrightarrow> spells ((n, v) # opts) ((CHR ''-'' # CHR ''-'' # n) # v # args)"
  using spells_two [of "''--''" opts args n v] by (simp_all add: spells_none)

definition given :: "(string \<times> string) list \<Rightarrow> flag_vals \<Rightarrow> flag_vals" where
  "given opts vs = vs ++ map_of (rev (map (\<lambda>(n, v). (n, FString v)) opts))"

lemma given_simps [simp]: "given [] vs = vs" "given ((n, v) # opts) vs = given opts (vs(n \<mapsto> FString v))"
  by (simp_all add: given_def map_add_def fun_eq_iff split: option.splits)

lemma parse_spelt_rest:
  assumes "spells opts args" and "\<forall>n \<in> fst ` set opts. plain_name n \<and> (\<exists>w. vs n = Some (FString w))"
    and "rest = [] \<or> arg_word (hd rest) = Positional"
  shows "parse_flags frac quote usage (args @ rest) vs = Inr (given opts vs, rest)"
  using assms(1,2)
proof (induction arbitrary: vs)
  case spells_none
  show ?case using assms(3) by (cases rest) (auto simp: parseOne_def)
next
  case (spells_two dash opts args n v)
  then obtain w where w: "plain_name n" "vs n = Some (FString w)" by auto
  have "parse_flags frac quote usage (args @ rest) (vs(n \<mapsto> FString v)) = Inr (given opts (vs(n \<mapsto> FString v)), rest)"
    by (rule spells_two.IH) (use spells_two.prems in auto)
  then show ?case using parse_string_flag(1) [of n vs w dash, OF w spells_two.hyps(1), of frac quote usage v "args @ rest"]
    by (simp only: given_simps append.simps)
next
  case (spells_one dash opts args n v)
  then obtain w where w: "plain_name n" "vs n = Some (FString w)" by auto
  have "parse_flags frac quote usage (args @ rest) (vs(n \<mapsto> FString v)) = Inr (given opts (vs(n \<mapsto> FString v)), rest)"
    by (rule spells_one.IH) (use spells_one.prems in auto)
  then show ?case using parse_string_flag(2) [of n vs w dash, OF w spells_one.hyps(1), of frac quote usage v "args @ rest"]
    by (simp only: given_simps append.simps)
qed

lemmas parse_spelt = parse_spelt_rest [where rest = "[]", simplified]

end
