(* ===== verification/Tools.thy ===== *)
theory Tools
  imports Pki Flags
begin

text \<open>
  The two offline tools: \<open>tools/correlate\<close>, which groups log events by stream id, and
  \<open>tools/dev-pki\<close>, which writes a development certificate set.
\<close>

subsection \<open>correlate\<close>

text \<open>
  A decoded JSON object is the list of its members. A JSON number decodes to a \<open>float64\<close>, whose
  type is left open; \<open>trunc\<close> is the conversion to int64. The other number types of \<open>numField\<close>
  are the two integer constructors.
\<close>

datatype 'f jval = JString string | JFloat 'f | JInt64 int | JInt int | JOther

fun numField :: "('f \<Rightarrow> int) \<Rightarrow> 'f jval option \<Rightarrow> int \<times> bool" where
  "numField trunc (Some (JFloat x)) = (trunc x, True)"
| "numField trunc (Some (JInt64 x)) = (x, True)"
| "numField trunc (Some (JInt x)) = (x, True)"
| "numField trunc _ = (0, False)"

record 'f log_record =
  lr_StreamID :: string
  lr_TsUnixMs :: int
  lr_Source :: string
  lr_Raw :: "(string \<times> 'f jval) list"

definition max_line :: nat where "max_line = 1024 * 1024"

text \<open>\<open>bufio.Scanner\<close> stops at the first line that does not fit in its buffer, and the error is not looked at.\<close>

definition scanned_lines :: "string list \<Rightarrow> string list" where
  "scanned_lines lines = takeWhile (\<lambda>l. length l < max_line) lines"

text \<open>The body of the loop for one line: \<open>unmarshal\<close> is None for a line that is not an object.\<close>

definition line_record ::
  "('f \<Rightarrow> int) \<Rightarrow> (string \<Rightarrow> (string \<times> 'f jval) list option) \<Rightarrow> string \<Rightarrow> string \<Rightarrow> string \<Rightarrow> 'f log_record option" where
  "line_record trunc unmarshal wantID path line =
     (case unmarshal line of
        None \<Rightarrow> None
      | Some raw \<Rightarrow>
          (let i = (case map_of raw ''stream_id'' of Some (JString s) \<Rightarrow> s | _ \<Rightarrow> '''');
               ts = fst (numField trunc (map_of raw ''ts_unix_ms''))
           in if i = '''' \<or> ts = 0 then None
              else if wantID \<noteq> '''' \<and> i \<noteq> wantID then None
              else Some \<lparr>lr_StreamID = i, lr_TsUnixMs = ts, lr_Source = path, lr_Raw = raw\<rparr>))"

text \<open>A file that cannot be opened is skipped (None).\<close>

definition file_records ::
  "('f \<Rightarrow> int) \<Rightarrow> (string \<Rightarrow> (string \<times> 'f jval) list option) \<Rightarrow> string \<Rightarrow> string \<times> string list option \<Rightarrow> 'f log_record list" where
  "file_records trunc unmarshal wantID f =
     (case snd f of
        None \<Rightarrow> []
      | Some lines \<Rightarrow> List.map_filter (line_record trunc unmarshal wantID (fst f)) (scanned_lines lines))"

text \<open>The map \<open>byID\<close>, as the association list in the order the ids were first met.\<close>

fun add_record :: "'f log_record \<Rightarrow> (string \<times> 'f log_record list) list \<Rightarrow> (string \<times> 'f log_record list) list" where
  "add_record r [] = [(lr_StreamID r, [r])]"
| "add_record r ((i, rs) # m) = (if i = lr_StreamID r then (i, rs @ [r]) # m else (i, rs) # add_record r m)"

definition correlate ::
  "('f \<Rightarrow> int) \<Rightarrow> (string \<Rightarrow> (string \<times> 'f jval) list option) \<Rightarrow> string \<Rightarrow> (string \<times> string list option) list
     \<Rightarrow> (string \<times> 'f log_record list) list" where
  "correlate trunc unmarshal wantID files =
     (let recs = concat (map (file_records trunc unmarshal wantID) files);
          byID = fold add_record recs [];
          ids = sort (map fst byID)
      in map (\<lambda>i. (i, sort_key lr_TsUnixMs (the (map_of byID i)))) ids)"

text \<open>
  \<open>main\<close> on the arguments behind the program's name: it exits with a status and these lines on standard
  error, or prints the groups. \<open>read\<close> has the lines of a file, None if it cannot be opened.
\<close>

definition correlate_flags :: "string \<Rightarrow> FlagSet" where
  "correlate_flags prog = \<lparr>fs_name = prog, fs_flags = [String_flag ''id'' '''' ''filter to a single stream id'']\<rparr>"

definition correlate_main ::
  "(nat \<Rightarrow> nat \<Rightarrow> nat \<Rightarrow> nat) \<Rightarrow> (string \<Rightarrow> string) \<Rightarrow> ('f \<Rightarrow> int) \<Rightarrow> (string \<Rightarrow> (string \<times> 'f jval) list option)
     \<Rightarrow> (string \<Rightarrow> string list option) \<Rightarrow> string \<Rightarrow> string list \<Rightarrow> (nat \<times> string list) + (string \<times> 'f log_record list) list" where
  "correlate_main frac quote trunc unmarshal read prog args =
     (case FlagSet_Parse frac quote (correlate_flags prog) args of
        Inl exit \<Rightarrow> Inl exit
      | Inr (vs, files) \<Rightarrow>
          if files = [] then Inl (2, [''usage: correlate [-id ID] <file...>''])
          else Inr (correlate trunc unmarshal (str_of vs ''id'') (map (\<lambda>path. (path, read path)) files)))"

text \<open>Files behind an optional \<open>--id\<close>: the groups of those files; without a file it is a usage error.\<close>

lemma correlate_main_files:
  assumes "spells opts args" and "opts = [] \<and> i = '''' \<or> opts = [(''id'', i)]" and "files \<noteq> [] \<Longrightarrow> arg_word (hd files) = Positional"
  shows "correlate_main frac quote trunc unmarshal read prog (args @ files) =
           (if files = [] then Inl (2, [''usage: correlate [-id ID] <file...>''])
            else Inr (correlate trunc unmarshal i (map (\<lambda>path. (path, read path)) files)))"
proof -
  have d: "flag_defaults (correlate_flags prog) = [''id'' \<mapsto> FString '''']" by (simp add: flag_defaults_def correlate_flags_def String_flag_def)
  have "FlagSet_Parse frac quote (correlate_flags prog) (args @ files) = Inr (given opts [''id'' \<mapsto> FString ''''], files)"
    unfolding FlagSet_Parse_def d by (rule parse_spelt_rest [OF assms(1)]) (use assms(2,3) in \<open>auto simp: plain_name_def\<close>)
  then show ?thesis using assms(2) by (auto simp: correlate_main_def str_of_def)
qed

lemma add_record_lookup:
  "map_of (add_record r m) i = (if i = lr_StreamID r then Some ((case map_of m i of None \<Rightarrow> [] | Some rs \<Rightarrow> rs) @ [r]) else map_of m i)"
  by (induction r m rule: add_record.induct) auto

lemma add_record_keys: "fst ` set (add_record r m) = insert (lr_StreamID r) (fst ` set m)"
  by (induction r m rule: add_record.induct) auto

lemma add_record_distinct: "distinct (map fst m) \<Longrightarrow> distinct (map fst (add_record r m))"
proof (induction r m rule: add_record.induct)
  case (2 r i rs m)
  have "i \<notin> set (map fst (add_record r m))" if "i \<noteq> lr_StreamID r"
    unfolding set_map add_record_keys using "2.prems" that by auto
  then show ?case using 2 by (cases "i = lr_StreamID r") simp_all
qed simp

lemma byID_groups:
  assumes "distinct (map fst m)"
  shows "distinct (map fst (fold add_record recs m))"
    and "fst ` set (fold add_record recs m) = lr_StreamID ` set recs \<union> fst ` set m"
    and "i \<in> lr_StreamID ` set recs \<union> fst ` set m \<Longrightarrow> map_of (fold add_record recs m) i =
       Some ((case map_of m i of None \<Rightarrow> [] | Some rs \<Rightarrow> rs) @ filter (\<lambda>r. lr_StreamID r = i) recs)"
  using assms
proof (induction recs arbitrary: m)
  case Nil
  { case 1 then show ?case by simp
  next case 2 then show ?case by simp
  next case 3 then show ?case by (auto dest: map_of_SomeD split: option.splits) }
next
  case (Cons r recs)
  { case 1 then show ?case using Cons.IH(1) [OF add_record_distinct] by simp
  next case 2 then show ?case using Cons.IH(2) [of "add_record r m"] add_record_distinct [of m r] by (auto simp: add_record_keys)
  next case 3 then show ?case using Cons.IH(3) [of "add_record r m"] add_record_distinct [of m r]
      by (auto simp: add_record_keys add_record_lookup split: option.splits) }
qed

text \<open>
  correlate loses and invents nothing among the lines it accepts: its groups are in
  increasing order of distinct stream ids, one for each id that occurs, and the events of a
  group are exactly the accepted events with that id, in order of time, those of the same time
  in the order of the input.
\<close>

theorem correlate_groups:
  "correlate trunc unmarshal wantID files =
     (let recs = concat (map (file_records trunc unmarshal wantID) files)
      in map (\<lambda>i. (i, sort_key lr_TsUnixMs (filter (\<lambda>r. lr_StreamID r = i) recs)))
           (sorted_list_of_set (lr_StreamID ` set recs)))"
proof -
  define recs where "recs = concat (map (file_records trunc unmarshal wantID) files)"
  let ?m = "fold add_record recs []"
  have c: "correlate trunc unmarshal wantID files = map (\<lambda>i. (i, sort_key lr_TsUnixMs (the (map_of ?m i)))) (sort (map fst ?m))"
    by (simp add: correlate_def recs_def Let_def)
  have d: "distinct (map fst ?m)" and k: "fst ` set ?m = lr_StreamID ` set recs"
    using byID_groups(1,2) [of "[]" recs] by simp_all
  have g: "map_of ?m i = Some (filter (\<lambda>r. lr_StreamID r = i) recs)" if "i \<in> fst ` set ?m" for i
    using byID_groups(3) [of "[]" i recs] that k by simp
  have "sort (map fst ?m) = sorted_list_of_set (lr_StreamID ` set recs)"
    using sorted_list_of_set_sort_remdups [of "map fst ?m"] d k by (simp add: distinct_remdups_id)
  moreover have "map (\<lambda>i. (i, sort_key lr_TsUnixMs (the (map_of ?m i)))) (sort (map fst ?m)) =
      map (\<lambda>i. (i, sort_key lr_TsUnixMs (filter (\<lambda>r. lr_StreamID r = i) recs))) (sort (map fst ?m))"
    by (rule map_cong) (auto simp: g)
  ultimately show ?thesis by (simp add: c recs_def Let_def)
qed

text \<open>
  A line that does not fit in the scanner's buffer ends the reading of its file without a word:
  the lines after it are not looked at.
\<close>

lemma long_line_hides_the_rest:
  assumes "max_line \<le> length l"
  shows "file_records trunc unmarshal wantID (path, Some (before @ l # after)) =
         file_records trunc unmarshal wantID (path, Some before)"
proof -
  have "scanned_lines (before @ l # after) = scanned_lines before"
    using assms by (induction before) (auto simp: scanned_lines_def)
  then show ?thesis by (simp add: file_records_def)
qed

subsection \<open>dev-pki\<close>

definition devLeafTTL :: int where "devLeafTTL = 30 * 24 * Hour"

definition encodeKey :: "(string \<Rightarrow> byte list \<Rightarrow> byte list) \<Rightarrow> ('sk \<Rightarrow> byte list res) \<Rightarrow> 'sk \<Rightarrow> byte list res" where
  "encodeKey pem marshal key =
     (case marshal key of Inl e \<Rightarrow> Inl e | Inr der \<Rightarrow> Inr (pem ''PRIVATE KEY'' der))"

definition issueLeaf ::
  "('pk, 'sk) pki_lib \<Rightarrow> (string \<Rightarrow> byte list \<Rightarrow> byte list) \<Rightarrow> ('sk \<Rightarrow> byte list res) \<Rightarrow> ('pk \<times> 'sk) res
     \<Rightarrow> (int \<Rightarrow> int res) \<Rightarrow> int \<Rightarrow> 'sk CA \<Rightarrow> Name \<Rightarrow> (byte list \<times> byte list) res" where
  "issueLeaf lib pem marshal genkey draw now ca name =
     (case NewCSR lib genkey name of
        Inl e \<Rightarrow> Inl e
      | Inr (csrDER, key) \<Rightarrow>
          (case Sign lib draw now ca csrDER name devLeafTTL of
             Inl e \<Rightarrow> Inl e
           | Inr leafDER \<Rightarrow>
               (case encodeKey pem marshal key of
                  Inl e \<Rightarrow> Inl e
                | Inr keyPEM \<Rightarrow> Inr (pem ''CERTIFICATE'' leafDER, keyPEM))))"

definition HasSuffix :: "string \<Rightarrow> string \<Rightarrow> bool" where
  "HasSuffix s suf \<longleftrightarrow> length suf \<le> length s \<and> drop (length s - length suf) s = suf"

record out_file =
  of_name :: string
  of_mode :: nat
  of_data :: string

text \<open>\<open>write\<close>: the file it makes.\<close>

definition write_file :: "string \<Rightarrow> string \<Rightarrow> out_file" where
  "write_file name data = \<lparr>of_name = name, of_mode = (if HasSuffix name ''.key'' then 384 else 420), of_data = data\<rparr>"

definition newline :: string where "newline = [char_of (10 :: nat)]"

definition TrimRight_newlines :: "string \<Rightarrow> string" where
  "TrimRight_newlines s = rev (dropWhile (\<lambda>c. c = char_of (10 :: nat)) (rev s))"

definition indent :: "string \<Rightarrow> string \<Rightarrow> string" where
  "indent data prefix = concat (map (\<lambda>l. prefix @ l @ newline) (Split (TrimRight_newlines data) (char_of (10 :: nat))))"

definition yaml_line :: "string \<Rightarrow> string" where
  "yaml_line s = s @ newline"

text \<open>\<open>quote\<close> is the rendering of \<open>%q\<close>.\<close>

definition writeSecret :: "(string \<Rightarrow> string) \<Rightarrow> string \<Rightarrow> string \<Rightarrow> string \<Rightarrow> string \<Rightarrow> string \<Rightarrow> string \<Rightarrow> string" where
  "writeSecret quote namespace name uri certPEM keyPEM caPEM =
     concat
       [yaml_line ''apiVersion: v1'',
        yaml_line ''kind: Secret'',
        yaml_line ''metadata:'',
        yaml_line (''  name: '' @ name),
        yaml_line (''  namespace: '' @ namespace),
        yaml_line ''  labels:'',
        yaml_line ''    app.kubernetes.io/part-of: outrelay'',
        yaml_line ''    app.kubernetes.io/managed-by: outrelay'',
        yaml_line ''  annotations:'',
        yaml_line (''    outrelay.dev/uri: '' @ quote uri),
        yaml_line ''type: Opaque'',
        yaml_line ''stringData:'',
        yaml_line ''  tls.crt: |'', indent certPEM ''    '',
        yaml_line ''  tls.key: |'', indent keyPEM ''    '',
        yaml_line ''  ca.crt: |'', indent caPEM ''    '']"

text \<open>The document of all secrets, and the files \<open>main\<close> writes, once everything is issued.\<close>

record issued_leaf =
  il_uri :: string
  il_filePrefix :: string
  il_secretName :: string
  il_certPEM :: string
  il_keyPEM :: string

definition secret_docs :: "(string \<Rightarrow> string) \<Rightarrow> string \<Rightarrow> string \<Rightarrow> issued_leaf list \<Rightarrow> string" where
  "secret_docs quote namespace caPEM leaves =
     concat (map (\<lambda>(i, x). (if i > 0 then yaml_line ''---'' else '''') @
         writeSecret quote namespace (il_secretName x) (il_uri x) (il_certPEM x) (il_keyPEM x) caPEM)
       (zip [0..<length leaves] leaves))"

definition dev_pki_files :: "(string \<Rightarrow> string) \<Rightarrow> string \<Rightarrow> string \<Rightarrow> string \<Rightarrow> issued_leaf list \<Rightarrow> out_file list" where
  "dev_pki_files quote namespace caPEM caKeyPEM leaves =
     [write_file ''ca.crt'' caPEM, write_file ''ca.key'' caKeyPEM] @
     concat (map (\<lambda>l. [write_file (il_filePrefix l @ ''.crt'') (il_certPEM l),
                      write_file (il_filePrefix l @ ''.key'') (il_keyPEM l)]) leaves) @
     [write_file ''secrets.yaml'' (secret_docs quote namespace caPEM leaves)]"

text \<open>
  \<open>main\<close>: \<open>put\<close> is what \<open>os.WriteFile\<close> returns for a file, \<open>must_parse\<close> is \<open>uuid.MustParse\<close> and
  \<open>keys\<close> has the key pairs the generator returns, the CA's first. A run ends with the error
  \<open>log.Fatal\<close> reports, if any, and leaves the files written before.
\<close>

definition bstr :: "byte list \<Rightarrow> string" where
  "bstr bs = map (\<lambda>b. char_of (unat b)) bs"

definition devProviderUUID :: string where "devProviderUUID = ''00000000-0000-0000-0000-000000000001''"
definition devConsumerUUID :: string where "devConsumerUUID = ''00000000-0000-0000-0000-000000000002''"

definition put_file :: "(out_file \<Rightarrow> goerr option) \<Rightarrow> out_file \<Rightarrow> out_file list \<Rightarrow> goerr option \<times> out_file list" where
  "put_file put f files = (case put f of Some e \<Rightarrow> (Some e, files) | None \<Rightarrow> (None, files @ [f]))"

record leaf =
  lf_name :: Name
  lf_filePrefix :: string
  lf_secretName :: string

definition dev_leaves :: "(string \<Rightarrow> uuid) \<Rightarrow> string \<Rightarrow> string \<Rightarrow> leaf list res" where
  "dev_leaves must_parse tenant relayID =
     (case NewRelay tenant relayID of
        Inl e \<Rightarrow> Inl e
      | Inr relayName \<Rightarrow>
          Inr [\<lparr>lf_name = relayName, lf_filePrefix = ''relay-'' @ relayID, lf_secretName = ''outrelay-relay-tls''\<rparr>,
               \<lparr>lf_name = agent_name tenant (must_parse devProviderUUID), lf_filePrefix = ''agent-provider'',
                lf_secretName = ''outrelay-agent-provider-tls''\<rparr>,
               \<lparr>lf_name = agent_name tenant (must_parse devConsumerUUID), lf_filePrefix = ''agent-consumer'',
                lf_secretName = ''outrelay-agent-consumer-tls''\<rparr>])"

text \<open>The loop over the leaves; \<open>issue k l\<close> is \<open>issueLeaf\<close> with the k-th key pair.\<close>

fun issue_leaves ::
  "(nat \<Rightarrow> Name \<Rightarrow> (byte list \<times> byte list) res) \<Rightarrow> (Name \<Rightarrow> string) \<Rightarrow> (out_file \<Rightarrow> goerr option) \<Rightarrow> nat \<Rightarrow> leaf list
     \<Rightarrow> out_file list \<Rightarrow> issued_leaf list res \<times> out_file list" where
  "issue_leaves issue name_string put k [] files = (Inr [], files)"
| "issue_leaves issue name_string put k (l # ls) files =
     (case issue k (lf_name l) of
        Inl e \<Rightarrow> (Inl e, files)
      | Inr (certPEM, keyPEM) \<Rightarrow>
          (case put_file put (write_file (lf_filePrefix l @ ''.crt'') (bstr certPEM)) files of
             (Some e, files) \<Rightarrow> (Inl e, files)
           | (None, files) \<Rightarrow>
               (case put_file put (write_file (lf_filePrefix l @ ''.key'') (bstr keyPEM)) files of
                  (Some e, files) \<Rightarrow> (Inl e, files)
                | (None, files) \<Rightarrow>
                    (case issue_leaves issue name_string put (k + 1) ls files of
                       (Inl e, files) \<Rightarrow> (Inl e, files)
                     | (Inr out2, files) \<Rightarrow>
                         (Inr (\<lparr>il_uri = name_string (lf_name l), il_filePrefix = lf_filePrefix l,
                                il_secretName = lf_secretName l, il_certPEM = bstr certPEM, il_keyPEM = bstr keyPEM\<rparr> # out2),
                          files)))))"

definition dev_pki_main ::
  "('pk, 'sk) pki_lib \<Rightarrow> (byte list \<Rightarrow> Certificate res) \<Rightarrow> (string \<Rightarrow> byte list \<Rightarrow> byte list) \<Rightarrow> ('sk \<Rightarrow> byte list res)
     \<Rightarrow> (nat \<Rightarrow> ('pk \<times> 'sk) res) \<Rightarrow> (int \<Rightarrow> int res) \<Rightarrow> int \<Rightarrow> (string \<Rightarrow> uuid) \<Rightarrow> (string \<Rightarrow> string)
     \<Rightarrow> goerr option \<Rightarrow> (out_file \<Rightarrow> goerr option) \<Rightarrow> string \<Rightarrow> string \<Rightarrow> string \<Rightarrow> goerr option \<times> out_file list" where
  "dev_pki_main lib parse_cert pem marshal keys draw now must_parse quote mkdir put tenant relayID namespace =
     (case mkdir of
        Some e \<Rightarrow> (Some e, [])
      | None \<Rightarrow>
          (case NewCA (keys 0) draw now (lib_create_cert lib) parse_cert of
             Inl e \<Rightarrow> (Some e, [])
           | Inr ca \<Rightarrow>
               (case KeyPEM pem marshal ca of
                  Inl e \<Rightarrow> (Some e, [])
                | Inr caKeyPEM \<Rightarrow>
                    (case put_file put (write_file ''ca.crt'' (bstr (CertPEM pem ca))) [] of
                       (Some e, files) \<Rightarrow> (Some e, files)
                     | (None, files) \<Rightarrow>
                         (case put_file put (write_file ''ca.key'' (bstr caKeyPEM)) files of
                            (Some e, files) \<Rightarrow> (Some e, files)
                          | (None, files) \<Rightarrow>
                              (case dev_leaves must_parse tenant relayID of
                                 Inl e \<Rightarrow> (Some e, files)
                               | Inr leaves \<Rightarrow>
                                   (case issue_leaves (\<lambda>k. issueLeaf lib pem marshal (keys k) draw now ca)
                                           (Name_String (lib_uuid_string lib)) put 1 leaves files of
                                      (Inl e, files) \<Rightarrow> (Some e, files)
                                    | (Inr out2, files) \<Rightarrow>
                                        put_file put
                                          (write_file ''secrets.yaml'' (secret_docs quote namespace (bstr (CertPEM pem ca)) out2))
                                          files)))))))"

text \<open>The flags of \<open>main\<close>, and what it says on standard error at its end; the arrow is its three UTF-8 bytes.\<close>

definition dev_pki_flags :: "string \<Rightarrow> FlagSet" where
  "dev_pki_flags prog = \<lparr>fs_name = prog, fs_flags =
     [String_flag ''out'' ''.dev-pki'' ''output directory'',
      String_flag ''tenant'' ''acme'' ''tenant / region label'',
      String_flag ''relay-id'' ''r1'' ''relay id (used in URI: outrelay://<tenant>/relay/<id>)'',
      String_flag ''namespace'' ''outrelay'' ''K8s namespace for emitted Secret manifests'']\<rparr>"

definition dev_pki_Version :: string where "dev_pki_Version = ''dev''"

definition dev_pki_summary :: "string \<Rightarrow> string \<Rightarrow> string \<Rightarrow> string \<Rightarrow> string list" where
  "dev_pki_summary out provURI consURI relayURI =
     [''dev-pki '' @ dev_pki_Version @ '' '' @ map char_of [226, 134, 146 :: nat] @ '' '' @ out,
      '''',
      ''agent URIs (use as --uri in manifests):'',
      ''  provider: '' @ provURI,
      ''  consumer: '' @ consURI,
      ''relay URI: '' @ relayURI,
      '''',
      ''apply secrets with:'',
      ''  kubectl apply -f '' @ out @ ''/secrets.yaml'']"

text \<open>
  The whole program from its arguments: an exit of the flag package, or the error of \<open>log.Fatal\<close> and the
  files in the output directory, with the summary if all went well.
\<close>

definition dev_pki ::
  "(nat \<Rightarrow> nat \<Rightarrow> nat \<Rightarrow> nat) \<Rightarrow> ('pk, 'sk) pki_lib \<Rightarrow> (byte list \<Rightarrow> Certificate res) \<Rightarrow> (string \<Rightarrow> byte list \<Rightarrow> byte list)
     \<Rightarrow> ('sk \<Rightarrow> byte list res) \<Rightarrow> (nat \<Rightarrow> ('pk \<times> 'sk) res) \<Rightarrow> (int \<Rightarrow> int res) \<Rightarrow> int \<Rightarrow> (string \<Rightarrow> uuid) \<Rightarrow> (string \<Rightarrow> string)
     \<Rightarrow> (string \<Rightarrow> goerr option) \<Rightarrow> (string \<Rightarrow> out_file \<Rightarrow> goerr option) \<Rightarrow> string \<Rightarrow> string list
     \<Rightarrow> (nat \<times> string list) + (goerr option \<times> string \<times> out_file list \<times> string list)" where
  "dev_pki frac lib parse_cert pem marshal keys draw now must_parse quote mkdir put prog args =
     (case FlagSet_Parse frac quote (dev_pki_flags prog) args of
        Inl exit \<Rightarrow> Inl exit
      | Inr (vs, _) \<Rightarrow>
          (let out = str_of vs ''out''; tenant = str_of vs ''tenant''; relayID = str_of vs ''relay-id'';
               uri = Name_String (lib_uuid_string lib);
               (err, files) = dev_pki_main lib parse_cert pem marshal keys draw now must_parse quote (mkdir out) (put out)
                                tenant relayID (str_of vs ''namespace'')
           in Inr (err, out, files,
                case err of
                  Some e \<Rightarrow> []
                | None \<Rightarrow>
                    (case NewRelay tenant relayID of
                       Inl e \<Rightarrow> []
                     | Inr relayName \<Rightarrow>
                         dev_pki_summary out (uri (agent_name tenant (must_parse devProviderUUID)))
                           (uri (agent_name tenant (must_parse devConsumerUUID))) (uri relayName)))))"

lemma put_file_ok: "put_file put f files = (None, files') \<Longrightarrow> files' = files @ [f]"
  by (auto simp: put_file_def split: option.splits)

lemma issue_leaves_ok:
  "issue_leaves issue name_string put k ls files = (Inr out2, files') \<Longrightarrow>
     map il_filePrefix out2 = map lf_filePrefix ls \<and>
     files' = files @ concat (map (\<lambda>l. [write_file (il_filePrefix l @ ''.crt'') (il_certPEM l),
                                       write_file (il_filePrefix l @ ''.key'') (il_keyPEM l)]) out2)"
proof (induction ls arbitrary: k files out2)
  case (Cons l ls)
  from Cons.prems obtain c key f1 f2 out where
    p: "put_file put (write_file (lf_filePrefix l @ ''.crt'') (bstr c)) files = (None, f1)"
    "put_file put (write_file (lf_filePrefix l @ ''.key'') (bstr key)) f1 = (None, f2)"
    and rest: "issue_leaves issue name_string put (k + 1) ls f2 = (Inr out, files')"
    and out2: "out2 = \<lparr>il_uri = name_string (lf_name l), il_filePrefix = lf_filePrefix l, il_secretName = lf_secretName l,
                       il_certPEM = bstr c, il_keyPEM = bstr key\<rparr> # out"
    by (auto split: sum.splits prod.splits option.splits)
  show ?case using Cons.IH [OF rest] put_file_ok [OF p(1)] put_file_ok [OF p(2)] by (simp add: out2)
qed simp

text \<open>A run without error has written the files of \<open>dev_pki_files\<close> for three issued leaves.\<close>

lemma dev_pki_main_ok:
  assumes "dev_pki_main lib parse_cert pem marshal keys draw now must_parse quote mkdir put tenant relayID namespace = (None, files)"
  shows "\<exists>caPEM caKeyPEM leaves. files = dev_pki_files quote namespace caPEM caKeyPEM leaves \<and>
           map il_filePrefix leaves = [''relay-'' @ relayID, ''agent-provider'', ''agent-consumer'']"
proof -
  obtain ca caKeyPEM leaves out2 f1 f2 f3 where
    p: "put_file put (write_file ''ca.crt'' (bstr (CertPEM pem ca))) [] = (None, f1)"
    "put_file put (write_file ''ca.key'' (bstr caKeyPEM)) f1 = (None, f2)"
    and lv: "dev_leaves must_parse tenant relayID = Inr leaves"
    and i: "issue_leaves (\<lambda>k. issueLeaf lib pem marshal (keys k) draw now ca) (Name_String (lib_uuid_string lib)) put 1 leaves f2
         = (Inr out2, f3)"
    and q: "put_file put (write_file ''secrets.yaml'' (secret_docs quote namespace (bstr (CertPEM pem ca)) out2)) f3 = (None, files)"
    using assms by (auto simp: dev_pki_main_def split: option.splits sum.splits prod.splits)
  have "map lf_filePrefix leaves = [''relay-'' @ relayID, ''agent-provider'', ''agent-consumer'']"
    using lv by (auto simp: dev_leaves_def split: sum.splits)
  moreover have "files = dev_pki_files quote namespace (bstr (CertPEM pem ca)) (bstr caKeyPEM) out2"
    using put_file_ok [OF p(1)] put_file_ok [OF p(2)] issue_leaves_ok [OF i] put_file_ok [OF q] by (simp add: dev_pki_files_def)
  ultimately show ?thesis using issue_leaves_ok [OF i] by metis
qed

text \<open>
  The development secrets are written readable by everyone: every \<open>.key\<close> file gets mode 0600,
  but the manifest that carries the same private keys in clear text gets mode 0644.
\<close>

theorem dev_pki_secrets_mode:
  assumes "l \<in> set leaves"
  shows "(\<exists>f \<in> set (dev_pki_files quote ns caPEM caKeyPEM leaves).
            of_name f = il_filePrefix l @ ''.key'' \<and> of_mode f = 384) \<and>
         (\<exists>f \<in> set (dev_pki_files quote ns caPEM caKeyPEM leaves).
            of_name f = ''secrets.yaml'' \<and> of_mode f = 420 \<and>
            (\<exists>pre post. of_data f = pre @ indent (il_keyPEM l) ''    '' @ post))"
proof -
  have key: "HasSuffix (p @ ''.key'') ''.key''" for p by (simp add: HasSuffix_def)
  have "\<exists>f \<in> set (dev_pki_files quote ns caPEM caKeyPEM leaves). of_name f = il_filePrefix l @ ''.key'' \<and> of_mode f = 384"
    using assms key by (force simp: dev_pki_files_def write_file_def)
  moreover have "\<exists>pre post. secret_docs quote ns caPEM leaves = pre @ indent (il_keyPEM l) ''    '' @ post"
  proof -
    have w: "\<exists>pre post. writeSecret quote ns n u c k ca = pre @ indent k ''    '' @ post" for n u c k ca
      by (simp only: writeSecret_def concat.simps append.assoc) (metis append.assoc)
    have "\<exists>i. (i, l) \<in> set (zip [0..<length leaves] leaves)"
      using assms by (force simp: set_zip in_set_conv_nth)
    then obtain i xs ys where z: "zip [0..<length leaves] leaves = xs @ (i, l) # ys" by (meson split_list)
    obtain pre post where wp: "writeSecret quote ns (il_secretName l) (il_uri l) (il_certPEM l) (il_keyPEM l) caPEM =
        pre @ indent (il_keyPEM l) ''    '' @ post" using w by blast
    define doc where "doc = (\<lambda>(i :: nat, x :: issued_leaf). (if i > 0 then yaml_line ''---'' else '''') @
         writeSecret quote ns (il_secretName x) (il_uri x) (il_certPEM x) (il_keyPEM x) caPEM)"
    have "secret_docs quote ns caPEM leaves = concat (map doc xs) @ doc (i, l) @ concat (map doc ys)"
      unfolding secret_docs_def doc_def z by simp
    also have "doc (i, l) = (if i > 0 then yaml_line ''---'' else '''') @ pre @ indent (il_keyPEM l) ''    '' @ post"
      by (simp add: doc_def wp)
    finally show ?thesis by (metis append.assoc)
  qed
  ultimately show ?thesis by (simp add: dev_pki_files_def write_file_def HasSuffix_def)
qed

definition demo_leaf :: issued_leaf where
  "demo_leaf = \<lparr>il_uri = ''u'', il_filePrefix = ''agent-provider'', il_secretName = ''s'', il_certPEM = ''C'', il_keyPEM = ''K''\<rparr>"

theorem dev_pki_secrets_mode_witness:
  "\<exists>f \<in> set (dev_pki_files id ''ns'' ''CA'' ''CAKEY'' [demo_leaf]).
     of_name f = ''secrets.yaml'' \<and> of_mode f = 420 \<and> (\<exists>pre post. of_data f = pre @ indent ''K'' ''    '' @ post)"
  using dev_pki_secrets_mode [of demo_leaf "[demo_leaf]" id "''ns''" "''CA''" "''CAKEY''"] by (simp add: demo_leaf_def)

text \<open>
  The program run with any spelling of its flags is \<open>main\<close> on the last value given for each, or its
  default; the names in the summary are those of the certificates.
\<close>

lemma dev_pki_flag_defaults:
  "flag_defaults (dev_pki_flags prog) =
     [''out'' \<mapsto> FString ''.dev-pki'', ''tenant'' \<mapsto> FString ''acme'', ''relay-id'' \<mapsto> FString ''r1'', ''namespace'' \<mapsto> FString ''outrelay'']"
  by (auto simp: flag_defaults_def dev_pki_flags_def String_flag_def)

lemma dev_pki_spelt:
  assumes "spells opts args" and "fst ` set opts \<subseteq> {''out'', ''tenant'', ''relay-id'', ''namespace''}"
    and "str_of (given opts (flag_defaults (dev_pki_flags prog))) = val"
    and "dev_pki_main lib parse_cert pem marshal keys draw now must_parse quote (mkdir (val ''out'')) (put (val ''out''))
           (val ''tenant'') (val ''relay-id'') (val ''namespace'') = (err, files)"
  shows "\<exists>summary. dev_pki frac lib parse_cert pem marshal keys draw now must_parse quote mkdir put prog args =
           Inr (err, val ''out'', files, summary) \<and> (summary \<noteq> [] \<longrightarrow> err = None)"
proof -
  have "parse_flags frac quote u args (flag_defaults (dev_pki_flags prog)) = Inr (given opts (flag_defaults (dev_pki_flags prog)), [])" for u
    by (rule parse_spelt [OF assms(1)]) (use assms(2) in \<open>auto simp: dev_pki_flag_defaults plain_name_def\<close>)
  then show ?thesis using assms(3,4) by (auto simp: dev_pki_def FlagSet_Parse_def Let_def split: option.splits)
qed

end
