(* ===== verification/Smoke_Pki.thy ===== *)
theory Smoke_Pki
  imports Tools
begin

text \<open>
  The certificate bootstrap of the cloud smoke test, \<open>tests/terraform/scripts/smoke-pki/main.go\<close>: one
  CA, one leaf per relay id and five agent leaves with fixed ids. As for \<open>dev-pki\<close>, a run is a
  function of the libraries, the key pairs and what \<open>os.WriteFile\<close> returns, and it ends with the
  error that \<open>log.Fatal\<close> reports, if any, and the files written before.
\<close>

subsection \<open>The tool\<close>

definition leafTTL :: int where "leafTTL = 30 * 24 * Hour"

definition providerEIPUUID :: string where "providerEIPUUID = ''00000000-0000-0000-0000-000000000001''"
definition consumerUUID :: string where "consumerUUID = ''00000000-0000-0000-0000-000000000002''"
definition providerNATUUID :: string where "providerNATUUID = ''00000000-0000-0000-0000-000000000003''"
definition providerGCPUUID :: string where "providerGCPUUID = ''00000000-0000-0000-0000-000000000004''"
definition consumerTCPUUID :: string where "consumerTCPUUID = ''00000000-0000-0000-0000-000000000005''"

definition agentName :: "(string \<Rightarrow> uuid) \<Rightarrow> string \<Rightarrow> string \<Rightarrow> Name" where
  "agentName must_parse tenant u = \<lparr>nm_role = RoleAgent, nm_tenant = tenant, nm_agent = must_parse u, nm_relay = ''''\<rparr>"

record leafSpec =
  ls_name :: Name
  ls_prefix :: string

text \<open>The loop over the relay ids.\<close>

fun relay_leaves :: "string \<Rightarrow> string list \<Rightarrow> leafSpec list res" where
  "relay_leaves tenant [] = Inr []"
| "relay_leaves tenant (i # ids) =
     (let i = TrimSpace i in
      if i = '''' then relay_leaves tenant ids
      else
        (case NewRelay tenant i of
           Inl e \<Rightarrow> Inl e
         | Inr relayName \<Rightarrow>
             (case relay_leaves tenant ids of
                Inl e \<Rightarrow> Inl e
              | Inr leaves \<Rightarrow> Inr (\<lparr>ls_name = relayName, ls_prefix = ''relay-'' @ i\<rparr> # leaves))))"

definition agent_leaves :: "(string \<Rightarrow> uuid) \<Rightarrow> string \<Rightarrow> leafSpec list" where
  "agent_leaves must_parse tenant =
     [\<lparr>ls_name = agentName must_parse tenant providerEIPUUID, ls_prefix = ''agent-provider-eip''\<rparr>,
      \<lparr>ls_name = agentName must_parse tenant providerNATUUID, ls_prefix = ''agent-provider-nat''\<rparr>,
      \<lparr>ls_name = agentName must_parse tenant providerGCPUUID, ls_prefix = ''agent-provider-gcp''\<rparr>,
      \<lparr>ls_name = agentName must_parse tenant consumerUUID, ls_prefix = ''agent-consumer''\<rparr>,
      \<lparr>ls_name = agentName must_parse tenant consumerTCPUUID, ls_prefix = ''agent-consumer-tcp''\<rparr>]"

definition smoke_leaves :: "(string \<Rightarrow> uuid) \<Rightarrow> string \<Rightarrow> string \<Rightarrow> leafSpec list res" where
  "smoke_leaves must_parse tenant relayIDs =
     (case relay_leaves tenant (Split relayIDs (CHR '','')) of
        Inl e \<Rightarrow> Inl e
      | Inr leaves \<Rightarrow> Inr (leaves @ agent_leaves must_parse tenant))"

definition smoke_issueLeaf ::
  "('pk, 'sk) pki_lib \<Rightarrow> (string \<Rightarrow> byte list \<Rightarrow> byte list) \<Rightarrow> ('sk \<Rightarrow> byte list res) \<Rightarrow> ('pk \<times> 'sk) res
     \<Rightarrow> (int \<Rightarrow> int res) \<Rightarrow> int \<Rightarrow> 'sk CA \<Rightarrow> Name \<Rightarrow> (byte list \<times> byte list) res" where
  "smoke_issueLeaf lib pem marshal genkey draw now ca name =
     (case NewCSR lib genkey name of
        Inl e \<Rightarrow> Inl e
      | Inr (csrDER, key) \<Rightarrow>
          (case Sign lib draw now ca csrDER name leafTTL of
             Inl e \<Rightarrow> Inl e
           | Inr leafDER \<Rightarrow>
               (case marshal key of
                  Inl e \<Rightarrow> Inl e
                | Inr keyDER \<Rightarrow> Inr (pem ''CERTIFICATE'' leafDER, pem ''PRIVATE KEY'' keyDER))))"

definition smoke_write :: "string \<Rightarrow> byte list \<Rightarrow> out_file" where
  "smoke_write name b = \<lparr>of_name = name, of_mode = 384, of_data = bstr b\<rparr>"

text \<open>\<open>issue k name\<close> is \<open>issueLeaf\<close> with the k-th key pair.\<close>

fun smoke_issue ::
  "(nat \<Rightarrow> Name \<Rightarrow> (byte list \<times> byte list) res) \<Rightarrow> (out_file \<Rightarrow> goerr option) \<Rightarrow> nat \<Rightarrow> leafSpec list \<Rightarrow> out_file list
     \<Rightarrow> goerr option \<times> out_file list" where
  "smoke_issue issue put k [] files = (None, files)"
| "smoke_issue issue put k (l # ls) files =
     (case issue k (ls_name l) of
        Inl e \<Rightarrow> (Some e, files)
      | Inr (certPEM, keyPEM) \<Rightarrow>
          (case put_file put (smoke_write (ls_prefix l @ ''.crt'') certPEM) files of
             (Some e, files) \<Rightarrow> (Some e, files)
           | (None, files) \<Rightarrow>
               (case put_file put (smoke_write (ls_prefix l @ ''.key'') keyPEM) files of
                  (Some e, files) \<Rightarrow> (Some e, files)
                | (None, files) \<Rightarrow> smoke_issue issue put (k + 1) ls files)))"

definition smoke_pki_main ::
  "('pk, 'sk) pki_lib \<Rightarrow> (byte list \<Rightarrow> Certificate res) \<Rightarrow> (string \<Rightarrow> byte list \<Rightarrow> byte list) \<Rightarrow> ('sk \<Rightarrow> byte list res)
     \<Rightarrow> (nat \<Rightarrow> ('pk \<times> 'sk) res) \<Rightarrow> (int \<Rightarrow> int res) \<Rightarrow> int \<Rightarrow> (string \<Rightarrow> uuid)
     \<Rightarrow> goerr option \<Rightarrow> (out_file \<Rightarrow> goerr option) \<Rightarrow> string \<Rightarrow> string \<Rightarrow> goerr option \<times> out_file list" where
  "smoke_pki_main lib parse_cert pem marshal keys draw now must_parse mkdir put tenant relayIDs =
     (case mkdir of
        Some e \<Rightarrow> (Some e, [])
      | None \<Rightarrow>
          (case NewCA (keys 0) draw now (lib_create_cert lib) parse_cert of
             Inl e \<Rightarrow> (Some e, [])
           | Inr ca \<Rightarrow>
               (case KeyPEM pem marshal ca of
                  Inl e \<Rightarrow> (Some e, [])
                | Inr caKeyPEM \<Rightarrow>
                    (case put_file put (smoke_write ''ca.crt'' (CertPEM pem ca)) [] of
                       (Some e, files) \<Rightarrow> (Some e, files)
                     | (None, files) \<Rightarrow>
                         (case put_file put (smoke_write ''ca.key'' caKeyPEM) files of
                            (Some e, files) \<Rightarrow> (Some e, files)
                          | (None, files) \<Rightarrow>
                              (case smoke_leaves must_parse tenant relayIDs of
                                 Inl e \<Rightarrow> (Some e, files)
                               | Inr leaves \<Rightarrow>
                                   smoke_issue (\<lambda>k. smoke_issueLeaf lib pem marshal (keys k) draw now ca)
                                     put 1 leaves files))))))"

text \<open>The flags of \<open>main\<close> and the line at its end; the program from its arguments.\<close>

definition smoke_pki_flags :: "string \<Rightarrow> FlagSet" where
  "smoke_pki_flags prog = \<lparr>fs_name = prog, fs_flags =
     [String_flag ''out'' ''.smoke-pki'' ''output directory'',
      String_flag ''tenant'' ''acme'' ''tenant label'',
      String_flag ''relay-ids'' ''r1''
        ''comma-separated relay ids; one leaf cert per id is emitted as relay-<id>.{crt,key}'']\<rparr>"

definition smoke_pki ::
  "(nat \<Rightarrow> nat \<Rightarrow> nat \<Rightarrow> nat) \<Rightarrow> (string \<Rightarrow> string) \<Rightarrow> ('pk, 'sk) pki_lib \<Rightarrow> (byte list \<Rightarrow> Certificate res)
     \<Rightarrow> (string \<Rightarrow> byte list \<Rightarrow> byte list) \<Rightarrow> ('sk \<Rightarrow> byte list res) \<Rightarrow> (nat \<Rightarrow> ('pk \<times> 'sk) res) \<Rightarrow> (int \<Rightarrow> int res) \<Rightarrow> int
     \<Rightarrow> (string \<Rightarrow> uuid) \<Rightarrow> (string \<Rightarrow> goerr option) \<Rightarrow> (string \<Rightarrow> out_file \<Rightarrow> goerr option) \<Rightarrow> string \<Rightarrow> string list
     \<Rightarrow> (nat \<times> string list) + (goerr option \<times> string \<times> out_file list \<times> string list)" where
  "smoke_pki frac quote lib parse_cert pem marshal keys draw now must_parse mkdir put prog args =
     (case FlagSet_Parse frac quote (smoke_pki_flags prog) args of
        Inl exit \<Rightarrow> Inl exit
      | Inr (vs, _) \<Rightarrow>
          (let out = str_of vs ''out''; tenant = str_of vs ''tenant''; relayIDs = str_of vs ''relay-ids'';
               (err, files) = smoke_pki_main lib parse_cert pem marshal keys draw now must_parse (mkdir out) (put out) tenant relayIDs
           in Inr (err, out, files,
                case err of
                  Some e \<Rightarrow> []
                | None \<Rightarrow>
                    (case smoke_leaves must_parse tenant relayIDs of
                       Inl e \<Rightarrow> []
                     | Inr leaves \<Rightarrow> [''smoke-pki: wrote '' @ show_nat (length leaves) @ '' leaves to '' @ out]))))"

subsection \<open>What a run leaves\<close>

definition relay_ids :: "string \<Rightarrow> string list" where
  "relay_ids s = filter (\<lambda>i. i \<noteq> '''') (map TrimSpace (Split s (CHR '','')))"

lemma relay_leaves_ok:
  "relay_leaves tenant ids = Inr leaves \<Longrightarrow>
     leaves = map (\<lambda>i. \<lparr>ls_name = relay_name tenant i, ls_prefix = ''relay-'' @ i\<rparr>) (filter (\<lambda>i. i \<noteq> '''') (map TrimSpace ids)) \<and>
     list_all IsValidRelayID (filter (\<lambda>i. i \<noteq> '''') (map TrimSpace ids))"
proof (induction ids arbitrary: leaves)
  case (Cons i ids)
  then show ?case by (auto simp: Let_def NewRelay_def split: if_splits sum.splits)
qed simp

definition leaf_names :: "leafSpec list \<Rightarrow> string list" where
  "leaf_names leaves = concat (map (\<lambda>l. [ls_prefix l @ ''.crt'', ls_prefix l @ ''.key'']) leaves)"

text \<open>The certificate file of a leaf holds what the CA signed for the leaf's name.\<close>

definition leaf_signed ::
  "('pk, 'sk) pki_lib \<Rightarrow> (string \<Rightarrow> byte list \<Rightarrow> byte list) \<Rightarrow> (int \<Rightarrow> int res) \<Rightarrow> int \<Rightarrow> 'sk CA \<Rightarrow> out_file list \<Rightarrow> leafSpec \<Rightarrow> bool" where
  "leaf_signed lib pem draw now ca files l \<longleftrightarrow>
     (\<exists>csrDER leafDER. Sign lib draw now ca csrDER (ls_name l) leafTTL = Inr leafDER \<and>
        smoke_write (ls_prefix l @ ''.crt'') (pem ''CERTIFICATE'' leafDER) \<in> set files)"

lemma leaf_signed_mono:
  "leaf_signed lib pem draw now ca files l \<Longrightarrow> set files \<subseteq> set files' \<Longrightarrow> leaf_signed lib pem draw now ca files' l"
  unfolding leaf_signed_def by blast

lemma smoke_issue_ok:
  assumes "smoke_issue (\<lambda>k. smoke_issueLeaf lib pem marshal (keys k) draw now ca) put k leaves files = (None, files')"
  shows "\<exists>new. files' = files @ new \<and> map of_name new = leaf_names leaves \<and> (\<forall>f \<in> set new. of_mode f = 384) \<and>
           (\<forall>l \<in> set leaves. leaf_signed lib pem draw now ca new l)"
  using assms
proof (induction leaves arbitrary: k files)
  case Nil
  then show ?case by (simp add: leaf_names_def)
next
  case (Cons l ls)
  from Cons.prems obtain c key f1 f2 where i: "smoke_issueLeaf lib pem marshal (keys k) draw now ca (ls_name l) = Inr (c, key)"
    and p: "put_file put (smoke_write (ls_prefix l @ ''.crt'') c) files = (None, f1)"
    "put_file put (smoke_write (ls_prefix l @ ''.key'') key) f1 = (None, f2)"
    and rest: "smoke_issue (\<lambda>k. smoke_issueLeaf lib pem marshal (keys k) draw now ca) put (k + 1) ls f2 = (None, files')"
    by (auto split: sum.splits prod.splits option.splits)
  let ?two = "[smoke_write (ls_prefix l @ ''.crt'') c, smoke_write (ls_prefix l @ ''.key'') key]"
  obtain new where n: "files' = f2 @ new" "map of_name new = leaf_names ls" "\<forall>f \<in> set new. of_mode f = 384"
    "\<forall>l \<in> set ls. leaf_signed lib pem draw now ca new l" using Cons.IH [OF rest] by blast
  have "leaf_signed lib pem draw now ca (?two @ new) l"
  proof -
    obtain csrDER leafDER where "Sign lib draw now ca csrDER (ls_name l) leafTTL = Inr leafDER" "c = pem ''CERTIFICATE'' leafDER"
      using i by (auto simp: smoke_issueLeaf_def split: sum.splits)
    then show ?thesis unfolding leaf_signed_def by (intro exI [of _ csrDER] exI [of _ leafDER]) simp
  qed
  moreover have "leaf_signed lib pem draw now ca (?two @ new) l'" if "l' \<in> set ls" for l'
    by (rule leaf_signed_mono [of lib pem draw now ca new]) (use n(4) that in auto)
  ultimately show ?case using n put_file_ok [OF p(1)] put_file_ok [OF p(2)]
    by (intro exI [of _ "?two @ new"]) (simp add: leaf_names_def smoke_write_def)
qed

lemma smoke_leaves_ok:
  assumes "smoke_leaves must_parse tenant relayIDs = Inr leaves"
  shows "leaves = map (\<lambda>i. \<lparr>ls_name = relay_name tenant i, ls_prefix = ''relay-'' @ i\<rparr>) (relay_ids relayIDs) @
           agent_leaves must_parse tenant"
  using assms relay_leaves_ok [of tenant "Split relayIDs (CHR '','')"]
  by (auto simp: smoke_leaves_def relay_ids_def split: sum.splits)

lemma leaf_names_distinct: "distinct (map ls_prefix leaves) \<Longrightarrow> distinct (leaf_names leaves)"
  by (induction leaves) (auto simp: leaf_names_def)

lemma smoke_prefixes:
  assumes "smoke_leaves must_parse tenant relayIDs = Inr leaves" and "distinct (relay_ids relayIDs)"
  shows "distinct ([''ca.crt'', ''ca.key''] @ leaf_names leaves)"
proof -
  have "distinct (map ls_prefix leaves)"
    using assms(2) by (auto simp: smoke_leaves_ok [OF assms(1)] agent_leaves_def distinct_map o_def inj_on_def)
  from leaf_names_distinct [OF this] show ?thesis
    by (auto simp: smoke_leaves_ok [OF assms(1)] agent_leaves_def leaf_names_def)
qed

text \<open>
  A run without error has written the CA and, for every relay id of the list that is not blank and
  for the five agents, a certificate the CA signed for that very name and a key, every file
  readable by its owner only; no file is written twice unless a relay id is repeated.
\<close>

lemma smoke_pki_files:
  assumes "smoke_pki_main lib parse_cert pem marshal keys draw now must_parse mkdir put tenant relayIDs = (None, files)"
  shows "\<exists>ca leaves. NewCA (keys 0) draw now (lib_create_cert lib) parse_cert = Inr ca \<and>
     map ls_prefix leaves = map ((@) ''relay-'') (relay_ids relayIDs) @
       [''agent-provider-eip'', ''agent-provider-nat'', ''agent-provider-gcp'', ''agent-consumer'', ''agent-consumer-tcp''] \<and>
     map of_name files = [''ca.crt'', ''ca.key''] @ leaf_names leaves \<and>
     (\<forall>f \<in> set files. of_mode f = 384) \<and> (\<forall>l \<in> set leaves. leaf_signed lib pem draw now ca files l) \<and>
     (distinct (relay_ids relayIDs) \<longrightarrow> distinct (map of_name files))"
proof -
  obtain ca caKeyPEM leaves f1 f2 where ca: "NewCA (keys 0) draw now (lib_create_cert lib) parse_cert = Inr ca"
    and p: "put_file put (smoke_write ''ca.crt'' (CertPEM pem ca)) [] = (None, f1)"
    "put_file put (smoke_write ''ca.key'' caKeyPEM) f1 = (None, f2)"
    and lv: "smoke_leaves must_parse tenant relayIDs = Inr leaves"
    and i: "smoke_issue (\<lambda>k. smoke_issueLeaf lib pem marshal (keys k) draw now ca) put 1 leaves f2 = (None, files)"
    using assms by (auto simp: smoke_pki_main_def split: option.splits sum.splits prod.splits)
  obtain new where new: "files = f2 @ new" "map of_name new = leaf_names leaves" "\<forall>f \<in> set new. of_mode f = 384"
    "\<forall>l \<in> set leaves. leaf_signed lib pem draw now ca new l" using smoke_issue_ok [OF i] by blast
  have f2: "f2 = [smoke_write ''ca.crt'' (CertPEM pem ca), smoke_write ''ca.key'' caKeyPEM]"
    using put_file_ok [OF p(1)] put_file_ok [OF p(2)] by simp
  have names: "map of_name files = [''ca.crt'', ''ca.key''] @ leaf_names leaves" by (simp add: new(1,2) f2 smoke_write_def)
  have "map ls_prefix leaves = map ((@) ''relay-'') (relay_ids relayIDs) @
       [''agent-provider-eip'', ''agent-provider-nat'', ''agent-provider-gcp'', ''agent-consumer'', ''agent-consumer-tcp'']"
    by (simp add: smoke_leaves_ok [OF lv] agent_leaves_def)
  moreover have "\<forall>f \<in> set files. of_mode f = 384" using new(3) by (simp add: new(1) f2 smoke_write_def)
  moreover have "\<forall>l \<in> set leaves. leaf_signed lib pem draw now ca files l"
  proof
    fix l assume "l \<in> set leaves"
    then have "leaf_signed lib pem draw now ca new l" using new(4) by blast
    then show "leaf_signed lib pem draw now ca files l" by (rule leaf_signed_mono) (simp add: new(1))
  qed
  ultimately show ?thesis using ca names smoke_prefixes [OF lv] by (intro exI [of _ ca] exI [of _ leaves]) simp
qed

text \<open>
  Nothing checks the tenant when the list of relay ids is blank: the agent names are built without
  it, and the certificates are issued for names that \<open>Parse\<close> never returns.
\<close>

theorem smoke_pki_unchecked_tenant:
  assumes "relay_ids relayIDs = []" and "\<not> IsValidTenant tenant"
  shows "\<exists>leaves. smoke_leaves must_parse tenant relayIDs = Inr leaves \<and> length leaves = 5 \<and>
           list_all (\<lambda>l. \<not> name_wf (ls_name l)) leaves"
proof -
  have "relay_leaves tenant ids = Inr []" if "filter (\<lambda>i. i \<noteq> '''') (map TrimSpace ids) = []" for ids
    using that by (induction ids) (auto simp: Let_def split: if_splits)
  then have "smoke_leaves must_parse tenant relayIDs = Inr (agent_leaves must_parse tenant)"
    using assms(1) by (simp add: smoke_leaves_def relay_ids_def)
  then show ?thesis using assms(2) by (simp add: agent_leaves_def agentName_def name_wf_def)
qed

theorem smoke_pki_unchecked_tenant_witness:
  "\<exists>leaves. smoke_leaves (\<lambda>_. 7) ''Not a label'' '' , '' = Inr leaves \<and> length leaves = 5 \<and>
     list_all (\<lambda>l. \<not> name_wf (ls_name l)) leaves"
  by (rule smoke_pki_unchecked_tenant)
    (simp_all add: relay_ids_def TrimSpace_def is_space_def IsValidTenant_def lower_alnum_def)

text \<open>The program run with any spelling of its flags is \<open>main\<close> on the last value given for each, or its default.\<close>

lemma smoke_pki_spelt:
  assumes "spells opts args" and "fst ` set opts \<subseteq> {''out'', ''tenant'', ''relay-ids''}"
    and "str_of (given opts (flag_defaults (smoke_pki_flags prog))) = val"
    and "smoke_pki_main lib parse_cert pem marshal keys draw now must_parse (mkdir (val ''out'')) (put (val ''out''))
           (val ''tenant'') (val ''relay-ids'') = (err, files)"
  shows "\<exists>summary. smoke_pki frac quote lib parse_cert pem marshal keys draw now must_parse mkdir put prog args =
           Inr (err, val ''out'', files, summary) \<and> (summary \<noteq> [] \<longrightarrow> err = None)"
proof -
  have d: "flag_defaults (smoke_pki_flags prog) =
      [''out'' \<mapsto> FString ''.smoke-pki'', ''tenant'' \<mapsto> FString ''acme'', ''relay-ids'' \<mapsto> FString ''r1'']"
    by (auto simp: flag_defaults_def smoke_pki_flags_def String_flag_def)
  have "parse_flags frac quote u args (flag_defaults (smoke_pki_flags prog)) = Inr (given opts (flag_defaults (smoke_pki_flags prog)), [])" for u
    by (rule parse_spelt [OF assms(1)]) (use assms(2) in \<open>auto simp: d plain_name_def\<close>)
  then show ?thesis using assms(3,4) by (auto simp: smoke_pki_def FlagSet_Parse_def Let_def split: option.splits)
qed

end
