(* ===== verification/Control.thy ===== *)
theory Control
  imports Prelude
begin

text \<open>
  The messages of the control API as the generated Go types of \<open>lib/control/v1\<close> have them. A
  protobuf enum is open: any \<open>int32\<close> may arrive, so each enum has a constructor for the values
  the schema does not name. A pointer field is an option.
\<close>

subsection \<open>Policy messages\<close>

datatype Decision = DECISION_UNSPECIFIED | DECISION_ALLOW | DECISION_DENY | DECISION_other int

datatype RelayMode = RELAY_MODE_SPLICE | RELAY_MODE_FORWARD | RELAY_MODE_other int

datatype P2PMode = P2P_ALLOWED | P2P_FORBIDDEN | P2P_REQUIRED | P2P_other int

datatype PolicyEvent_Kind =
    POLICY_KIND_UNSPECIFIED | POLICY_KIND_ADDED | POLICY_KIND_REMOVED | POLICY_KIND_SNAPSHOT_END

record PolicyRule =
  pr_Id :: string
  pr_Tenant :: string
  pr_CallerPattern :: string
  pr_TargetPattern :: string
  pr_MethodPattern :: string
  pr_Decision :: Decision
  pr_ExpiresUnixMs :: ms
  pr_CreatedAtUnixMs :: ms
  pr_P2PMode :: P2PMode
  pr_RelayMode :: RelayMode

record AddPolicyRequest =
  apr_Rule :: "PolicyRule option"

record RemovePolicyRequest =
  rpr_Tenant :: string
  rpr_Id :: string

record PolicyEvent =
  pe_Kind :: PolicyEvent_Kind
  pe_Rule :: "PolicyRule option"
  pe_RemovedId :: string

subsection \<open>Registry messages\<close>

datatype EventKind = EVENT_KIND_UNSPECIFIED | EVENT_KIND_REGISTER | EVENT_KIND_DEREGISTER

record RegisterServiceRequest =
  rsr_Tenant :: string
  rsr_ServiceName :: string
  rsr_AgentUri :: string
  rsr_RelayId :: string
  rsr_LocalAddr :: string

record DeregisterAgentRequest =
  dar_Tenant :: string
  dar_AgentUri :: string
  dar_RelayId :: string

record ResolveRequest =
  rq_Tenant :: string
  rq_ServiceName :: string
  rq_CallerRegion :: string

record Provider =
  pv_ServiceId :: string
  pv_AgentUri :: string
  pv_RelayId :: string
  pv_LocalAddr :: string
  pv_UpdatedAtUnixMs :: ms
  pv_RelayEndpoint :: string

record WatchRequest =
  wr_Tenant :: string
  wr_ServiceNames :: "string list"

record WatchEvent =
  we_Kind :: EventKind
  we_Provider :: "Provider option"
  we_ServiceName :: string

record UpsertRelayRequest =
  ur_Id :: string
  ur_Region :: string
  ur_Endpoint :: string

subsection \<open>Audit messages\<close>

record AuditEvent =
  ae_TsUnixMs :: ms
  ae_Tenant :: string
  ae_Caller :: string
  ae_Target :: string
  ae_Method :: string
  ae_Decision :: Decision
  ae_Reason :: string
  ae_StreamId :: string

record RecordAuditRequest =
  rar_Event :: "AuditEvent option"

record QueryAuditRequest =
  qar_Tenant :: string
  qar_Caller :: string
  qar_Target :: string
  qar_SinceUnixMs :: ms
  qar_Limit :: int \<comment> \<open>an int32\<close>

end
