(* ===== verification/Hub.thy ===== *)
theory Hub
  imports Prelude
begin

text \<open>
  The watcher hub that \<open>pkg/registry/server.go\<close> and \<open>pkg/policy/server.go\<close> both contain: a map of
  watcher objects, each with a Go channel of capacity 64, to which \<open>broadcast\<close> sends without
  blocking. A slow watcher, one whose channel is full, is taken out of the map and its channel
  is closed. A send on a closed channel and a second close panic in Go; here they are the value
  None, so that a theorem can say they never happen.

  The locale \<open>event_feed\<close> states what a Watch handler relies on; it is interpreted on the hub of
  each server in the theory of that server.
\<close>

subsection \<open>Channels\<close>

record 'e chan =
  ch_buf :: "'e list"
  ch_closed :: bool

definition watch_cap :: nat where "watch_cap = 64"

definition make_chan :: "'e chan" where "make_chan = \<lparr>ch_buf = [], ch_closed = False\<rparr>"

datatype 'e send_result = SendPanic | SendFull | SendOk "'e chan"

text \<open>\<open>select { case ch <- ev: default: }\<close>\<close>

definition try_send :: "'e chan \<Rightarrow> 'e \<Rightarrow> 'e send_result" where
  "try_send ch e =
     (if ch_closed ch then SendPanic
      else if length (ch_buf ch) < watch_cap then SendOk (ch\<lparr>ch_buf := ch_buf ch @ [e]\<rparr>)
      else SendFull)"

definition close_chan :: "'e chan \<Rightarrow> 'e chan option" where
  "close_chan ch = (if ch_closed ch then None else Some (ch\<lparr>ch_closed := True\<rparr>))"

datatype 'e recv_result = RecvBlock | RecvClosed | RecvVal 'e "'e chan"

text \<open>\<open>ev, ok := <-ch\<close>: a closed channel is drained first.\<close>

definition chan_recv :: "'e chan \<Rightarrow> 'e recv_result" where
  "chan_recv ch =
     (case ch_buf ch of
        e # es \<Rightarrow> RecvVal e (ch\<lparr>ch_buf := es\<rparr>)
      | [] \<Rightarrow> if ch_closed ch then RecvClosed else RecvBlock)"

subsection \<open>The hub\<close>

text \<open>
  \<open>hub_mem\<close> holds the watcher objects by address, with the channel of each beside it; the map
  \<open>watchers\<close> of the Go server is the list of the addresses it has as keys.
\<close>

record ('w, 'e) hub =
  hub_mem :: "nat \<Rightarrow> ('w \<times> 'e chan) option"
  hub_watchers :: "nat list"
  hub_alloc :: nat
  hub_nextWatch :: "64 word"

definition new_hub :: "('w, 'e) hub" where
  "new_hub = \<lparr>hub_mem = (\<lambda>_. None), hub_watchers = [], hub_alloc = 0, hub_nextWatch = 0\<rparr>"

definition next_watch_id :: "('w, 'e) hub \<Rightarrow> 64 word \<times> ('w, 'e) hub" where
  "next_watch_id h = (let i = hub_nextWatch h + 1 in (i, h\<lparr>hub_nextWatch := i\<rparr>))"

definition alloc_watcher :: "'w \<Rightarrow> ('w, 'e) hub \<Rightarrow> nat \<times> ('w, 'e) hub" where
  "alloc_watcher w h =
     (let p = hub_alloc h in
      (p, h\<lparr>hub_mem := (hub_mem h)(p \<mapsto> (w, make_chan)), hub_alloc := p + 1\<rparr>))"

definition addWatcher :: "nat \<Rightarrow> ('w, 'e) hub \<Rightarrow> ('w, 'e) hub" where
  "addWatcher p h = h\<lparr>hub_watchers := List.insert p (hub_watchers h)\<rparr>"

text \<open>\<open>delete(s.watchers, w); close(w.ch)\<close>\<close>

definition drop_watcher :: "nat \<Rightarrow> ('w, 'e) hub \<Rightarrow> ('w, 'e) hub option" where
  "drop_watcher p h =
     (case hub_mem h p of
        None \<Rightarrow> None
      | Some (w, c) \<Rightarrow>
          map_option (\<lambda>c'. h\<lparr>hub_watchers := remove1 p (hub_watchers h),
                             hub_mem := (hub_mem h)(p \<mapsto> (w, c'))\<rparr>) (close_chan c))"

definition removeWatcher :: "nat \<Rightarrow> ('w, 'e) hub \<Rightarrow> ('w, 'e) hub option" where
  "removeWatcher p h = (if p \<in> set (hub_watchers h) then drop_watcher p h else Some h)"

text \<open>One turn of the loop of \<open>broadcast\<close>; \<open>wants\<close> is the negation of the loop's \<open>continue\<close> guards.\<close>

definition deliver :: "('w \<Rightarrow> bool) \<Rightarrow> 'e \<Rightarrow> nat \<Rightarrow> ('w, 'e) hub \<Rightarrow> ('w, 'e) hub option" where
  "deliver wants e p h =
     (case hub_mem h p of
        None \<Rightarrow> None
      | Some (w, c) \<Rightarrow>
          if \<not> wants w then Some h
          else (case try_send c e of
                  SendPanic \<Rightarrow> None
                | SendOk c' \<Rightarrow> Some (h\<lparr>hub_mem := (hub_mem h)(p \<mapsto> (w, c'))\<rparr>)
                | SendFull \<Rightarrow> drop_watcher p h))"

fun broadcast_loop :: "('w \<Rightarrow> bool) \<Rightarrow> 'e \<Rightarrow> nat list \<Rightarrow> ('w, 'e) hub \<Rightarrow> ('w, 'e) hub option" where
  "broadcast_loop wants e [] h = Some h"
| "broadcast_loop wants e (p # ps) h =
     (case deliver wants e p h of None \<Rightarrow> None | Some h' \<Rightarrow> broadcast_loop wants e ps h')"

definition hub_broadcast :: "('w \<Rightarrow> bool) \<Rightarrow> 'e \<Rightarrow> ('w, 'e) hub \<Rightarrow> ('w, 'e) hub option" where
  "hub_broadcast wants e h = broadcast_loop wants e (hub_watchers h) h"

text \<open>A receive by the handler that owns the watcher: the event, if there is one.\<close>

definition hub_recv :: "nat \<Rightarrow> ('w, 'e) hub \<Rightarrow> 'e recv_result \<times> ('w, 'e) hub" where
  "hub_recv p h =
     (case hub_mem h p of
        None \<Rightarrow> (RecvBlock, h)
      | Some (w, c) \<Rightarrow>
          (case chan_recv c of
             RecvVal e c' \<Rightarrow> (RecvVal e c', h\<lparr>hub_mem := (hub_mem h)(p \<mapsto> (w, c'))\<rparr>)
           | r \<Rightarrow> (r, h)))"

subsection \<open>Invariant and closed form of a broadcast\<close>

definition hub_pending :: "('w, 'e) hub \<Rightarrow> nat \<Rightarrow> 'e list" where
  "hub_pending h p = (case hub_mem h p of None \<Rightarrow> [] | Some (w, c) \<Rightarrow> ch_buf c)"

definition hub_cfg :: "('w, 'e) hub \<Rightarrow> nat \<Rightarrow> 'w option" where
  "hub_cfg h p = map_option fst (hub_mem h p)"

definition hub_live :: "('w, 'e) hub \<Rightarrow> nat \<Rightarrow> bool" where
  "hub_live h p \<longleftrightarrow> p \<in> set (hub_watchers h)"

definition hub_wf :: "('w, 'e) hub \<Rightarrow> bool" where
  "hub_wf h \<longleftrightarrow> distinct (hub_watchers h) \<and>
     (\<forall>p \<in> set (hub_watchers h). \<exists>w c. hub_mem h p = Some (w, c) \<and> \<not> ch_closed c) \<and>
     (\<forall>p w c. hub_mem h p = Some (w, c) \<longrightarrow>
        p < hub_alloc h \<and> length (ch_buf c) \<le> watch_cap \<and> (p \<notin> set (hub_watchers h) \<longrightarrow> ch_closed c))"

definition chan_after :: "('w \<Rightarrow> bool) \<Rightarrow> 'e \<Rightarrow> 'w \<Rightarrow> 'e chan \<Rightarrow> 'e chan" where
  "chan_after wants e w c =
     (if \<not> wants w then c
      else if length (ch_buf c) < watch_cap then c\<lparr>ch_buf := ch_buf c @ [e]\<rparr>
      else c\<lparr>ch_closed := True\<rparr>)"

definition survives :: "('w \<Rightarrow> bool) \<Rightarrow> ('w, 'e) hub \<Rightarrow> nat \<Rightarrow> bool" where
  "survives wants h p \<longleftrightarrow>
     (case hub_mem h p of None \<Rightarrow> True | Some (w, c) \<Rightarrow> wants w \<longrightarrow> length (ch_buf c) < watch_cap)"

definition broadcast_result ::
  "('w \<Rightarrow> bool) \<Rightarrow> 'e \<Rightarrow> nat set \<Rightarrow> ('w, 'e) hub \<Rightarrow> ('w, 'e) hub" where
  "broadcast_result wants e A h =
     h\<lparr>hub_watchers := filter (\<lambda>p. p \<in> A \<longrightarrow> survives wants h p) (hub_watchers h),
       hub_mem := (\<lambda>p. if p \<in> A then map_option (\<lambda>(w, c). (w, chan_after wants e w c)) (hub_mem h p)
                       else hub_mem h p)\<rparr>"

lemma hub_wfD:
  assumes "hub_wf h" and "p \<in> set (hub_watchers h)"
  obtains w c where "hub_mem h p = Some (w, c)" and "\<not> ch_closed c"
  using assms by (auto simp: hub_wf_def)

lemma deliver_result:
  assumes "hub_wf h" and "p \<in> set (hub_watchers h)"
  shows "deliver wants e p h = Some (broadcast_result wants e {p} h)"
proof -
  from assms obtain w c where m: "hub_mem h p = Some (w, c)" and o: "\<not> ch_closed c" by (rule hub_wfD)
  have mem: "(\<lambda>q. if q \<in> {p} then map_option (\<lambda>(w, c). (w, chan_after wants e w c)) (hub_mem h q)
                   else hub_mem h q) = (hub_mem h)(p \<mapsto> (w, chan_after wants e w c))"
    using m by auto
  have idle: "(hub_mem h)(p \<mapsto> (w, c)) = hub_mem h" using m by auto
  have r1: "remove1 p (hub_watchers h) = filter (\<lambda>q. q \<noteq> p) (hub_watchers h)"
    using assms(1) by (simp add: hub_wf_def distinct_remove1_removeAll removeAll_filter_not_eq eq_commute)
  have ws: "filter (\<lambda>q. q \<in> {p} \<longrightarrow> survives wants h q) (hub_watchers h) =
      (if survives wants h p then hub_watchers h else remove1 p (hub_watchers h))"
    unfolding r1 by (auto intro!: filter_cong simp: filter_id_conv)
  show ?thesis
    unfolding deliver_def broadcast_result_def mem ws
    using m o idle by (simp add: try_send_def drop_watcher_def close_chan_def chan_after_def survives_def)
qed

lemma broadcast_result_mem:
  "hub_mem (broadcast_result wants e A h) p = Some (w, c') \<longleftrightarrow>
     (\<exists>c. hub_mem h p = Some (w, c) \<and> c' = (if p \<in> A then chan_after wants e w c else c))"
  by (auto simp: broadcast_result_def)

lemma broadcast_result_watchers:
  "p \<in> set (hub_watchers (broadcast_result wants e A h)) \<longleftrightarrow>
     p \<in> set (hub_watchers h) \<and> (p \<in> A \<longrightarrow> survives wants h p)"
  by (simp add: broadcast_result_def)

lemma broadcast_result_frame [simp]:
  "hub_alloc (broadcast_result wants e A h) = hub_alloc h"
  "hub_nextWatch (broadcast_result wants e A h) = hub_nextWatch h"
  by (simp_all add: broadcast_result_def)

lemma wf_broadcast_result:
  assumes "hub_wf h" and "A \<subseteq> set (hub_watchers h)"
  shows "hub_wf (broadcast_result wants e A h)"
  unfolding hub_wf_def
proof (intro conjI ballI allI impI)
  show "distinct (hub_watchers (broadcast_result wants e A h))"
    using assms(1) by (simp add: hub_wf_def broadcast_result_def)
next
  fix p assume "p \<in> set (hub_watchers (broadcast_result wants e A h))"
  then have p: "p \<in> set (hub_watchers h)" and sv: "p \<in> A \<longrightarrow> survives wants h p"
    by (simp_all add: broadcast_result_watchers)
  from assms(1) p obtain w c where "hub_mem h p = Some (w, c)" "\<not> ch_closed c" by (rule hub_wfD)
  then show "\<exists>w c. hub_mem (broadcast_result wants e A h) p = Some (w, c) \<and> \<not> ch_closed c"
    using sv by (auto simp: broadcast_result_mem chan_after_def survives_def)
next
  fix p w c' assume "hub_mem (broadcast_result wants e A h) p = Some (w, c')"
  then obtain c where "hub_mem h p = Some (w, c)" and c': "c' = (if p \<in> A then chan_after wants e w c else c)"
    by (auto simp: broadcast_result_mem)
  then have m: "hub_mem h p = Some (w, c)" and "p < hub_alloc h" "length (ch_buf c) \<le> watch_cap"
    and cl: "p \<notin> set (hub_watchers h) \<longrightarrow> ch_closed c" using assms(1) by (auto simp: hub_wf_def)
  then show "p < hub_alloc (broadcast_result wants e A h)" and "length (ch_buf c') \<le> watch_cap"
    by (simp_all add: c' chan_after_def)
  assume "p \<notin> set (hub_watchers (broadcast_result wants e A h))"
  then show "ch_closed c'" using m cl assms(2)
    by (auto simp: c' broadcast_result_watchers survives_def chan_after_def split: if_splits)
qed

lemma broadcast_result_insert:
  assumes "p \<notin> A"
  shows "broadcast_result wants e A (broadcast_result wants e {p} h) = broadcast_result wants e (insert p A) h"
proof -
  have s: "survives wants (broadcast_result wants e {p} h) q = survives wants h q" if "q \<noteq> p" for q
    using that by (simp add: survives_def broadcast_result_def)
  show ?thesis using assms s
    by (auto simp: broadcast_result_def survives_def fun_eq_iff intro!: hub.equality filter_cong)
qed

lemma broadcast_loop_result:
  assumes "hub_wf h" and "distinct ps" and "set ps \<subseteq> set (hub_watchers h)"
  shows "broadcast_loop wants e ps h = Some (broadcast_result wants e (set ps) h)"
  using assms
proof (induction ps arbitrary: h)
  case Nil
  then show ?case by (simp add: broadcast_result_def)
next
  case (Cons p ps)
  let ?h = "broadcast_result wants e {p} h"
  have "hub_wf ?h" using Cons.prems by (intro wf_broadcast_result) auto
  moreover have "set ps \<subseteq> set (hub_watchers ?h)" using Cons.prems by (auto simp: broadcast_result_def)
  ultimately have "broadcast_loop wants e ps ?h = Some (broadcast_result wants e (set ps) ?h)"
    using Cons by simp
  then show ?case using Cons.prems by (simp add: deliver_result broadcast_result_insert)
qed

lemma hub_broadcast_result:
  "hub_wf h \<Longrightarrow> hub_broadcast wants e h = Some (broadcast_result wants e (set (hub_watchers h)) h)"
  by (simp add: hub_broadcast_def broadcast_loop_result hub_wf_def)

text \<open>Go ranges over the map in an arbitrary order; the outcome does not depend on it.\<close>

lemma broadcast_order_irrelevant:
  assumes "hub_wf h" and "mset ps = mset (hub_watchers h)"
  shows "broadcast_loop wants e ps h = hub_broadcast wants e h"
proof -
  have "set ps = set (hub_watchers h)" using assms(2) by (rule mset_eq_setD)
  moreover have "distinct ps" using assms by (metis hub_wf_def mset_eq_imp_distinct_iff)
  ultimately show ?thesis using assms(1) by (simp add: broadcast_loop_result hub_broadcast_result)
qed

subsection \<open>The contract of a feed\<close>

datatype ('w, 'k, 'e) feed_op = FJoin 'w | FPublish 'k 'e | FTake nat | FLeave nat

primrec feed_run :: "(('w, 'k, 'e) feed_op \<Rightarrow> 'h \<Rightarrow> 'h option) \<Rightarrow> ('w, 'k, 'e) feed_op list \<Rightarrow> 'h \<Rightarrow> 'h option" where
  "feed_run exec [] h = Some h"
| "feed_run exec (op # ops) h = (case exec op h of None \<Rightarrow> None | Some h' \<Rightarrow> feed_run exec ops h')"

text \<open>The events a watcher has taken during a run, and the events published in it that it wants.\<close>

fun feed_got ::
  "(('w, 'k, 'e) feed_op \<Rightarrow> 'h \<Rightarrow> 'h option) \<Rightarrow> ('h \<Rightarrow> nat \<Rightarrow> 'e list) \<Rightarrow> nat
     \<Rightarrow> ('w, 'k, 'e) feed_op list \<Rightarrow> 'h \<Rightarrow> 'e list" where
  "feed_got exec pending p [] h = []"
| "feed_got exec pending p (op # ops) h =
     (if op = FTake p then take 1 (pending h p) else []) @
     (case exec op h of None \<Rightarrow> [] | Some h' \<Rightarrow> feed_got exec pending p ops h')"

fun feed_log :: "('k \<Rightarrow> 'e \<Rightarrow> 'w \<Rightarrow> bool) \<Rightarrow> 'w \<Rightarrow> ('w, 'k, 'e) feed_op list \<Rightarrow> 'e list" where
  "feed_log wants w [] = []"
| "feed_log wants w (FPublish k e # ops) = (if wants k e w then [e] else []) @ feed_log wants w ops"
| "feed_log wants w (_ # ops) = feed_log wants w ops"

locale event_feed =
  fixes inv :: "'h \<Rightarrow> bool" and live :: "'h \<Rightarrow> nat \<Rightarrow> bool" and cfg :: "'h \<Rightarrow> nat \<Rightarrow> 'w option"
    and pending :: "'h \<Rightarrow> nat \<Rightarrow> 'e list" and cap :: nat
    and wants :: "'k \<Rightarrow> 'e \<Rightarrow> 'w \<Rightarrow> bool"
    and exec :: "('w, 'k, 'e) feed_op \<Rightarrow> 'h \<Rightarrow> 'h option"
  assumes exec_safe: "inv h \<Longrightarrow> \<exists>h'. exec op h = Some h' \<and> inv h'"
    and cfg_stable: "inv h \<Longrightarrow> exec op h = Some h' \<Longrightarrow> cfg h p = Some w \<Longrightarrow> cfg h' p = Some w"
    and join_frame: "inv h \<Longrightarrow> exec (FJoin w') h = Some h' \<Longrightarrow> cfg h p = Some w \<Longrightarrow>
          pending h' p = pending h p \<and> live h' p = live h p"
    and publish_unwanted: "inv h \<Longrightarrow> exec (FPublish k e) h = Some h' \<Longrightarrow> cfg h p = Some w \<Longrightarrow>
          \<not> (live h p \<and> wants k e w) \<Longrightarrow> pending h' p = pending h p \<and> live h' p = live h p"
    and publish_wanted: "inv h \<Longrightarrow> exec (FPublish k e) h = Some h' \<Longrightarrow> cfg h p = Some w \<Longrightarrow>
          live h p \<Longrightarrow> wants k e w \<Longrightarrow>
          (if length (pending h p) < cap then live h' p \<and> pending h' p = pending h p @ [e]
           else \<not> live h' p \<and> pending h' p = pending h p)"
    and take_pending: "inv h \<Longrightarrow> exec (FTake q) h = Some h' \<Longrightarrow>
          pending h' p = (if q = p then tl (pending h p) else pending h p) \<and> live h' p = live h p"
    and leave_pending: "inv h \<Longrightarrow> exec (FLeave q) h = Some h' \<Longrightarrow>
          pending h' p = pending h p \<and> live h' p = (live h p \<and> p \<noteq> q)"
begin

lemma dead_frame:
  assumes "inv h" and "exec op h = Some h'" and "cfg h p = Some w" and "\<not> live h p"
  shows "\<not> live h' p" and "pending h p = (if op = FTake p then take 1 (pending h p) else []) @ pending h' p"
proof -
  have "\<not> live h' p \<and> pending h p = (if op = FTake p then take 1 (pending h p) else []) @ pending h' p"
  proof (cases op)
    case (FTake q)
    then show ?thesis using take_pending [of h q h' p] assms by (cases "pending h p") auto
  qed (use assms join_frame publish_unwanted leave_pending in fastforce)+
  then show "\<not> live h' p" and "pending h p = (if op = FTake p then take 1 (pending h p) else []) @ pending h' p"
    by blast+
qed

lemma dead_run:
  assumes "inv h" and "cfg h p = Some w" and "\<not> live h p"
  shows "\<exists>h'. feed_run exec ops h = Some h' \<and> inv h' \<and> \<not> live h' p \<and>
              pending h p = feed_got exec pending p ops h @ pending h' p"
  using assms
proof (induction ops arbitrary: h)
  case (Cons op ops)
  obtain h1 where h1: "exec op h = Some h1" "inv h1" using exec_safe Cons.prems(1) by blast
  note f = dead_frame [OF Cons.prems(1) h1(1) Cons.prems(2,3)]
  have c: "cfg h1 p = Some w" using cfg_stable Cons.prems h1 by blast
  from Cons.IH [OF h1(2) c f(1)] obtain h' where
    ih: "feed_run exec ops h1 = Some h'" "inv h'" "\<not> live h' p"
    "pending h1 p = feed_got exec pending p ops h1 @ pending h' p" by blast
  have "pending h p = feed_got exec pending p (op # ops) h @ pending h' p"
    by (subst f(2)) (simp add: h1(1) ih(4))
  with ih h1 show ?case by auto
qed simp

lemma cfg_run:
  "inv h \<Longrightarrow> cfg h p = Some w \<Longrightarrow> feed_run exec ops h = Some h' \<Longrightarrow> cfg h' p = Some w"
proof (induction ops arbitrary: h)
  case (Cons op ops)
  obtain h1 where h1: "exec op h = Some h1" "inv h1" using exec_safe Cons.prems(1) by blast
  then show ?case using Cons.IH [OF h1(2)] cfg_stable [OF Cons.prems(1) h1(1) Cons.prems(2)] Cons.prems(3) by simp
qed simp

text \<open>What a watcher has received, then what is queued for it, then what it will never get: the
  last part is empty as long as it is registered.\<close>

text \<open>One operation, seen by a registered watcher: what it takes, what is added to its queue, or its removal.\<close>

lemma feed_step:
  assumes "inv h" and "cfg h p = Some w" and "live h p" and h1: "exec op h = Some h1"
  defines "taken \<equiv> if op = FTake p then take 1 (pending h p) else []"
  shows "(live h1 p \<and> pending h p @ feed_log wants w [op] = taken @ pending h1 p) \<or>
         (\<not> live h1 p \<and> pending h p = pending h1 p \<and> taken = [])"
proof (cases op)
  case (FJoin w')
  then show ?thesis using join_frame [of h w' h1 p w] assms by simp
next
  case (FPublish k e)
  then show ?thesis
    using publish_wanted [of h k e h1 p w] publish_unwanted [of h k e h1 p w] assms
    by (cases "wants k e w") (auto split: if_splits)
next
  case (FTake q)
  then show ?thesis using take_pending [of h q h1 p] assms by (cases "pending h p") auto
next
  case (FLeave q)
  then show ?thesis using leave_pending [of h q h1 p] assms by auto
qed

lemma no_silent_gap:
  assumes "inv h" and "cfg h p = Some w" and "live h p"
  shows "\<exists>h' lost. feed_run exec ops h = Some h' \<and> inv h' \<and>
           pending h p @ feed_log wants w ops = feed_got exec pending p ops h @ pending h' p @ lost \<and>
           (live h' p \<longrightarrow> lost = [])"
  using assms
proof (induction ops arbitrary: h)
  case (Cons op ops)
  obtain h1 where h1: "exec op h = Some h1" "inv h1" using exec_safe Cons.prems(1) by blast
  have c: "cfg h1 p = Some w" using cfg_stable Cons.prems h1 by blast
  let ?t = "if op = FTake p then take 1 (pending h p) else []"
  let ?l = "feed_log wants w [op]"
  have log: "feed_log wants w (op # ops) = ?l @ feed_log wants w ops" by (cases op) simp_all
  from feed_step [OF Cons.prems h1(1)] show ?case
  proof (elim disjE conjE)
    assume l: "live h1 p" and e: "pending h p @ ?l = ?t @ pending h1 p"
    from Cons.IH [OF h1(2) c l] obtain h' lost where
      ih: "feed_run exec ops h1 = Some h'" "inv h'" "live h' p \<longrightarrow> lost = []"
      "pending h1 p @ feed_log wants w ops = feed_got exec pending p ops h1 @ pending h' p @ lost" by blast
    have "pending h p @ feed_log wants w (op # ops) = ?t @ (pending h1 p @ feed_log wants w ops)"
      unfolding log using e by (metis append.assoc)
    then show ?thesis using ih h1 by auto
  next
    assume d: "\<not> live h1 p" and e: "pending h p = pending h1 p" "?t = []"
    from dead_run [OF h1(2) c d, of ops] obtain h' where
      ih: "feed_run exec ops h1 = Some h'" "inv h'" "\<not> live h' p"
      "pending h1 p = feed_got exec pending p ops h1 @ pending h' p" by blast
    have "pending h p @ feed_log wants w (op # ops) =
        feed_got exec pending p (op # ops) h @ pending h' p @ feed_log wants w (op # ops)"
      using e ih h1 by simp
    with ih h1 show ?thesis by (intro exI [of _ h'] exI [of _ "feed_log wants w (op # ops)"]) simp
  qed
qed auto

end

subsection \<open>The hub keeps the contract\<close>

definition hub_join :: "'w \<Rightarrow> ('w, 'e) hub \<Rightarrow> nat \<times> ('w, 'e) hub" where
  "hub_join w h = (let (p, h') = alloc_watcher w h in (p, addWatcher p h'))"

fun hub_exec :: "('k \<Rightarrow> 'e \<Rightarrow> 'w \<Rightarrow> bool) \<Rightarrow> ('w, 'k, 'e) feed_op \<Rightarrow> ('w, 'e) hub \<Rightarrow> ('w, 'e) hub option" where
  "hub_exec wants (FJoin w) h = Some (snd (hub_join w h))"
| "hub_exec wants (FPublish k e) h = hub_broadcast (wants k e) e h"
| "hub_exec wants (FTake p) h = Some (snd (hub_recv p h))"
| "hub_exec wants (FLeave p) h = removeWatcher p h"

lemma hub_fresh: "hub_wf h \<Longrightarrow> hub_mem h (hub_alloc h) = None"
  by (cases "hub_mem h (hub_alloc h)") (auto simp: hub_wf_def)

lemma hub_wf_new [simp]: "hub_wf new_hub"
  by (simp add: hub_wf_def new_hub_def)

lemma hub_join_eq:
  "hub_wf h \<Longrightarrow> hub_join w h = (hub_alloc h,
     h\<lparr>hub_mem := (hub_mem h)(hub_alloc h \<mapsto> (w, make_chan)), hub_alloc := hub_alloc h + 1,
       hub_watchers := hub_alloc h # hub_watchers h\<rparr>)"
proof -
  assume wf: "hub_wf h"
  have "hub_alloc h \<notin> set (hub_watchers h)"
    using hub_fresh [OF wf] wf by (fastforce simp: hub_wf_def)
  then show ?thesis by (simp add: hub_join_def alloc_watcher_def addWatcher_def Let_def List.insert_def)
qed

lemma hub_wf_join: "hub_wf h \<Longrightarrow> hub_wf (snd (hub_join w h))"
  using hub_fresh [of h]
  by (fastforce simp: hub_join_eq hub_wf_def make_chan_def less_Suc_eq)

lemma hub_wf_recv: "hub_wf h \<Longrightarrow> hub_wf (snd (hub_recv p h))"
  by (fastforce simp: hub_recv_def chan_recv_def hub_wf_def split: option.splits list.splits prod.splits)

lemma removeWatcher_eq:
  assumes "hub_wf h"
  shows "\<exists>h'. removeWatcher p h = Some h' \<and> hub_wf h' \<and> hub_live h' q = (hub_live h q \<and> q \<noteq> p) \<and>
           hub_pending h' q = hub_pending h q \<and> hub_cfg h' q = hub_cfg h q"
proof (cases "p \<in> set (hub_watchers h)")
  case True
  with assms obtain w c where m: "hub_mem h p = Some (w, c)" "\<not> ch_closed c" by (rule hub_wfD)
  have d: "distinct (hub_watchers h)" using assms by (simp add: hub_wf_def)
  let ?h = "h\<lparr>hub_watchers := remove1 p (hub_watchers h), hub_mem := (hub_mem h)(p \<mapsto> (w, c\<lparr>ch_closed := True\<rparr>))\<rparr>"
  have "removeWatcher p h = Some ?h"
    using True m by (simp add: removeWatcher_def drop_watcher_def close_chan_def)
  moreover have "hub_wf ?h" using assms m d by (auto simp: hub_wf_def)
  ultimately show ?thesis using m d by (auto simp: hub_live_def hub_pending_def hub_cfg_def)
next
  case False
  then show ?thesis using assms by (auto simp: removeWatcher_def hub_live_def)
qed

lemma hub_broadcast_effect:
  assumes "hub_wf h" and "hub_broadcast wants e h = Some h'" and "hub_cfg h p = Some w"
  shows "hub_wf h'" and "hub_cfg h' p = Some w"
    and "\<not> (hub_live h p \<and> wants w) \<Longrightarrow> hub_pending h' p = hub_pending h p \<and> hub_live h' p = hub_live h p"
    and "hub_live h p \<Longrightarrow> wants w \<Longrightarrow>
          (if length (hub_pending h p) < watch_cap then hub_live h' p \<and> hub_pending h' p = hub_pending h p @ [e]
           else \<not> hub_live h' p \<and> hub_pending h' p = hub_pending h p)"
  using assms wf_broadcast_result [OF assms(1) order_refl, of wants e]
  by (auto simp: hub_broadcast_result broadcast_result_def hub_cfg_def hub_live_def hub_pending_def
      chan_after_def survives_def)

lemma hub_broadcast_safe: "hub_wf h \<Longrightarrow> \<exists>h'. hub_broadcast wants e h = Some h' \<and> hub_wf h'"
  by (simp add: hub_broadcast_result wf_broadcast_result)

lemma hub_recv_effect:
  "hub_pending (snd (hub_recv q h)) p = (if q = p then tl (hub_pending h p) else hub_pending h p)"
  "hub_live (snd (hub_recv q h)) p = hub_live h p"
  "hub_cfg (snd (hub_recv q h)) p = hub_cfg h p"
  by (auto simp: hub_recv_def chan_recv_def hub_pending_def hub_live_def hub_cfg_def split: option.splits list.splits)

lemma hub_join_effect:
  assumes "hub_wf h" and "hub_cfg h p = Some w"
  shows "hub_pending (snd (hub_join w' h)) p = hub_pending h p" and "hub_live (snd (hub_join w' h)) p = hub_live h p"
    and "hub_cfg (snd (hub_join w' h)) p = Some w"
  using assms hub_fresh [OF assms(1)]
  by (auto simp: hub_join_eq hub_pending_def hub_live_def hub_cfg_def)

lemma hub_exec_safe: "hub_wf h \<Longrightarrow> \<exists>h'. hub_exec wants op h = Some h' \<and> hub_wf h'"
proof (cases op)
  case (FLeave p)
  assume "hub_wf h"
  with removeWatcher_eq [of h p] FLeave show ?thesis by auto
qed (auto simp: hub_wf_join hub_wf_recv hub_broadcast_safe)

lemma hub_exec_cfg:
  assumes "hub_wf h" and "hub_exec wants op h = Some h'" and "hub_cfg h p = Some w"
  shows "hub_cfg h' p = Some w"
proof (cases op)
  case (FLeave q)
  then show ?thesis using assms removeWatcher_eq [OF assms(1), of q p] by auto
qed (use assms in \<open>auto simp: hub_join_effect hub_recv_effect hub_broadcast_effect(2)\<close>)

lemma hub_event_feed: "event_feed hub_wf hub_live hub_cfg hub_pending watch_cap wants (hub_exec wants)"
proof (unfold_locales, goal_cases)
  case (1 h op)
  then show ?case by (rule hub_exec_safe)
next
  case (2 h op h' p w)
  then show ?case by (rule hub_exec_cfg)
next
  case (3 h w' h' p w)
  then show ?case by (auto simp: hub_join_effect)
next
  case (4 h k e h' p w)
  then show ?case using hub_broadcast_effect(3) [of h "wants k e" e h' p w] by simp
next
  case (5 h k e h' p w)
  then show ?case using hub_broadcast_effect(4) [of h "wants k e" e h' p w] by simp
next
  case (6 h q h' p)
  then show ?case by (auto simp: hub_recv_effect)
next
  case (7 h q h' p)
  then show ?case using removeWatcher_eq [of h q p] by auto
qed

end
