(* ===== verification/Policy_Server.thy ===== *)
theory Policy_Server
  imports Store Control Hub
begin

text \<open>
  The policy service of the controller, \<open>pkg/policy/server.go\<close>: the rule API over the store, the
  Watch handler and its hub. A handler that both writes the store and publishes an event is the
  composition of a commit and a publish part, because the code holds no lock across the two and
  another handler may run in between. A panic is None.
\<close>

subsection \<open>Enum conversions\<close>

definition decisionString :: "Decision \<Rightarrow> string" where
  "decisionString d = (if d = DECISION_DENY then ''deny'' else ''allow'')"

definition decisionPB :: "string \<Rightarrow> Decision" where
  "decisionPB s = (if s = ''deny'' then DECISION_DENY else DECISION_ALLOW)"

fun p2pModeString :: "P2PMode \<Rightarrow> string" where
  "p2pModeString P2P_FORBIDDEN = ''forbidden''"
| "p2pModeString P2P_REQUIRED = ''required''"
| "p2pModeString _ = ''allowed''"

definition p2pModePB :: "string \<Rightarrow> P2PMode" where
  "p2pModePB s =
     (if s = ''forbidden'' then P2P_FORBIDDEN
      else if s = ''required'' then P2P_REQUIRED
      else P2P_ALLOWED)"

definition relayModeString :: "RelayMode \<Rightarrow> string" where
  "relayModeString m = (if m = RELAY_MODE_FORWARD then ''forward'' else ''splice'')"

definition relayModePB :: "string \<Rightarrow> RelayMode" where
  "relayModePB s = (if s = ''forward'' then RELAY_MODE_FORWARD else RELAY_MODE_SPLICE)"

definition toPB :: "Policy \<Rightarrow> PolicyRule" where
  "toPB r =
     \<lparr>pr_Id = po_id r, pr_Tenant = po_tenant r, pr_CallerPattern = po_caller_pattern r,
      pr_TargetPattern = po_target_pattern r, pr_MethodPattern = po_method_pattern r,
      pr_Decision = decisionPB (po_decision r), pr_ExpiresUnixMs = po_expires r,
      pr_CreatedAtUnixMs = po_created_at r, pr_P2PMode = p2pModePB (po_p2p_mode r),
      pr_RelayMode = relayModePB (po_relay_mode r)\<rparr>"

subsection \<open>Server\<close>

record policy_watcher =
  pw_id :: "64 word"
  pw_tenant :: string

record PolicyServer =
  ps_store :: Store
  ps_hub :: "(policy_watcher, PolicyEvent) hub"

definition policy_New :: "Store \<Rightarrow> PolicyServer" where
  "policy_New s = \<lparr>ps_store = s, ps_hub = new_hub\<rparr>"

definition policy_wants :: "string \<Rightarrow> PolicyEvent \<Rightarrow> policy_watcher \<Rightarrow> bool" where
  "policy_wants tenant ev w \<longleftrightarrow> \<not> (pw_tenant w \<noteq> '''' \<and> pw_tenant w \<noteq> tenant)"

definition policy_broadcast :: "PolicyEvent \<Rightarrow> string \<Rightarrow> PolicyServer \<Rightarrow> PolicyServer option" where
  "policy_broadcast ev tenant srv =
     map_option (\<lambda>h. srv\<lparr>ps_hub := h\<rparr>) (hub_broadcast (policy_wants tenant ev) ev (ps_hub srv))"

definition added_event :: "PolicyRule \<Rightarrow> PolicyEvent" where
  "added_event r = \<lparr>pe_Kind = POLICY_KIND_ADDED, pe_Rule = Some r, pe_RemovedId = ''''\<rparr>"

definition removed_event :: "string \<Rightarrow> PolicyEvent" where
  "removed_event i = \<lparr>pe_Kind = POLICY_KIND_REMOVED, pe_Rule = None, pe_RemovedId = i\<rparr>"

definition snapshot_end :: PolicyEvent where
  "snapshot_end = \<lparr>pe_Kind = POLICY_KIND_SNAPSHOT_END, pe_Rule = None, pe_RemovedId = ''''\<rparr>"

text \<open>
  \<open>AddPolicy\<close> up to and including the insert; \<open>uuid\<close> is what \<open>uuid.New().String()\<close> returns. The
  result is the rule with its id set.
\<close>

definition AddPolicy_commit ::
  "stmt_env \<Rightarrow> string \<Rightarrow> PolicyServer \<Rightarrow> AddPolicyRequest \<Rightarrow> PolicyRule res \<times> PolicyServer" where
  "AddPolicy_commit env uuid srv req =
     (case apr_Rule req of
        None \<Rightarrow> (Inl (Fresh ''policy: rule required''), srv)
      | Some r \<Rightarrow>
          if pr_Tenant r = '''' \<or> pr_TargetPattern r = '''' \<or> pr_CallerPattern r = ''''
          then (Inl (Fresh ''policy: tenant, caller_pattern, and target_pattern are required''), srv)
          else if pr_Decision r = DECISION_UNSPECIFIED
          then (Inl (Fresh ''policy: decision required''), srv)
          else
            (let i = (if pr_Id r = '''' then uuid else pr_Id r) in
             case store_AddPolicy env (ps_store srv)
                    \<lparr>po_id = i, po_tenant = pr_Tenant r, po_caller_pattern = pr_CallerPattern r,
                     po_target_pattern = pr_TargetPattern r, po_method_pattern = pr_MethodPattern r,
                     po_decision = decisionString (pr_Decision r), po_expires = pr_ExpiresUnixMs r,
                     po_created_at = 0, po_p2p_mode = p2pModeString (pr_P2PMode r),
                     po_relay_mode = relayModeString (pr_RelayMode r)\<rparr> of
               (Some e, s) \<Rightarrow> (Inl e, srv\<lparr>ps_store := s\<rparr>)
             | (None, s) \<Rightarrow> (Inr (r\<lparr>pr_Id := i\<rparr>), srv\<lparr>ps_store := s\<rparr>)))"

definition AddPolicy_publish :: "PolicyRule \<Rightarrow> PolicyServer \<Rightarrow> PolicyServer option" where
  "AddPolicy_publish r srv = policy_broadcast (added_event r) (pr_Tenant r) srv"

definition AddPolicy ::
  "stmt_env \<Rightarrow> string \<Rightarrow> PolicyServer \<Rightarrow> AddPolicyRequest \<Rightarrow> (string res \<times> PolicyServer) option" where
  "AddPolicy env uuid srv req =
     (case AddPolicy_commit env uuid srv req of
        (Inl e, srv) \<Rightarrow> Some (Inl e, srv)
      | (Inr r, srv) \<Rightarrow> map_option (\<lambda>srv. (Inr (pr_Id r), srv)) (AddPolicy_publish r srv))"

definition RemovePolicy_commit ::
  "stmt_env \<Rightarrow> PolicyServer \<Rightarrow> RemovePolicyRequest \<Rightarrow> bool res \<times> PolicyServer" where
  "RemovePolicy_commit env srv req =
     (let (r, s) = store_RemovePolicy env (ps_store srv) (rpr_Tenant req) (rpr_Id req)
      in (r, srv\<lparr>ps_store := s\<rparr>))"

definition RemovePolicy_publish :: "RemovePolicyRequest \<Rightarrow> PolicyServer \<Rightarrow> PolicyServer option" where
  "RemovePolicy_publish req srv = policy_broadcast (removed_event (rpr_Id req)) (rpr_Tenant req) srv"

definition RemovePolicy ::
  "stmt_env \<Rightarrow> PolicyServer \<Rightarrow> RemovePolicyRequest \<Rightarrow> (bool res \<times> PolicyServer) option" where
  "RemovePolicy env srv req =
     (case RemovePolicy_commit env srv req of
        (Inl e, srv) \<Rightarrow> Some (Inl e, srv)
      | (Inr removed, srv) \<Rightarrow>
          if removed then map_option (\<lambda>srv. (Inr removed, srv)) (RemovePolicy_publish req srv)
          else Some (Inr removed, srv))"

definition ListPolicies ::
  "stmt_env \<Rightarrow> (Policy list \<Rightarrow> Policy list) \<Rightarrow> PolicyServer \<Rightarrow> string \<Rightarrow> PolicyRule list res" where
  "ListPolicies env scan srv tenant =
     (case store_ListPolicies env scan (ps_store srv) tenant of
        Inl e \<Rightarrow> Inl e
      | Inr rows \<Rightarrow> Inr (map toPB rows))"

subsection \<open>The Watch handler\<close>

text \<open>
  A call of Watch is a session: its watcher object, where it is in the handler and the events it
  has sent. \<open>Watch_list\<close> and \<open>Watch_register\<close> are the two first parts of the handler;
  \<open>Watch_step\<close> runs it to its next call of \<open>stream.Send\<close> or to its return. What the world does
  at that point is a \<open>watch_io\<close>: the send succeeds or fails, or the context is done.
\<close>

datatype watch_pc = WSnapshot "Policy list" | WLive | WDone "goerr option"

record policy_session =
  se_tenant :: string
  se_ptr :: nat
  se_pc :: watch_pc
  se_sent :: "PolicyEvent list"

datatype watch_io = SendOK | SendErr goerr | CtxDone

definition watcher_dropped :: goerr where
  "watcher_dropped = Fresh ''policy: watcher dropped (slow consumer)''"

definition Watch_list ::
  "stmt_env \<Rightarrow> (Policy list \<Rightarrow> Policy list) \<Rightarrow> PolicyServer \<Rightarrow> string
     \<Rightarrow> (64 word \<times> Policy list) res \<times> PolicyServer" where
  "Watch_list env scan srv tenant =
     (let (i, h) = next_watch_id (ps_hub srv); srv = srv\<lparr>ps_hub := h\<rparr> in
      case store_ListPolicies env scan (ps_store srv) tenant of
        Inl e \<Rightarrow> (Inl e, srv)
      | Inr rows \<Rightarrow> (Inr (i, rows), srv))"

definition Watch_register ::
  "string \<Rightarrow> 64 word \<Rightarrow> Policy list \<Rightarrow> PolicyServer \<Rightarrow> policy_session \<times> PolicyServer" where
  "Watch_register tenant i rows srv =
     (let (p, h) = hub_join \<lparr>pw_id = i, pw_tenant = tenant\<rparr> (ps_hub srv) in
      (\<lparr>se_tenant = tenant, se_ptr = p, se_pc = WSnapshot rows, se_sent = []\<rparr>, srv\<lparr>ps_hub := h\<rparr>))"

definition Watch_return ::
  "goerr option \<Rightarrow> policy_session \<Rightarrow> PolicyServer \<Rightarrow> (policy_session \<times> PolicyServer) option" where
  "Watch_return r se srv =
     map_option (\<lambda>h. (se\<lparr>se_pc := WDone r\<rparr>, srv\<lparr>ps_hub := h\<rparr>)) (removeWatcher (se_ptr se) (ps_hub srv))"

definition Watch_send ::
  "watch_io \<Rightarrow> PolicyEvent \<Rightarrow> watch_pc \<Rightarrow> policy_session \<Rightarrow> PolicyServer
     \<Rightarrow> (policy_session \<times> PolicyServer) option" where
  "Watch_send io ev pc se srv =
     (case io of
        SendErr e \<Rightarrow> Watch_return (Some e) se srv
      | _ \<Rightarrow> Some (se\<lparr>se_sent := se_sent se @ [ev], se_pc := pc\<rparr>, srv))"

definition Watch_step ::
  "watch_io \<Rightarrow> policy_session \<Rightarrow> PolicyServer \<Rightarrow> (policy_session \<times> PolicyServer) option" where
  "Watch_step io se srv =
     (case se_pc se of
        WSnapshot (r # rs) \<Rightarrow> Watch_send io (added_event (toPB r)) (WSnapshot rs) se srv
      | WSnapshot [] \<Rightarrow> Watch_send io snapshot_end WLive se srv
      | WLive \<Rightarrow>
          if io = CtxDone then Watch_return None se srv
          else (case hub_recv (se_ptr se) (ps_hub srv) of
                  (RecvBlock, _) \<Rightarrow> Some (se, srv)
                | (RecvClosed, _) \<Rightarrow> Watch_return (Some watcher_dropped) se srv
                | (RecvVal ev _, h) \<Rightarrow> Watch_send io ev WLive se (srv\<lparr>ps_hub := h\<rparr>))
      | WDone _ \<Rightarrow> Some (se, srv))"

text \<open>The handler's beginning with nothing in between.\<close>

definition Watch_begin ::
  "stmt_env \<Rightarrow> (Policy list \<Rightarrow> Policy list) \<Rightarrow> PolicyServer \<Rightarrow> string \<Rightarrow> policy_session res \<times> PolicyServer" where
  "Watch_begin env scan srv tenant =
     (case Watch_list env scan srv tenant of
        (Inl e, srv) \<Rightarrow> (Inl e, srv)
      | (Inr (i, rows), srv) \<Rightarrow> (let (se, srv) = Watch_register tenant i rows srv in (Inr se, srv)))"

subsection \<open>The service under calls and watch sessions\<close>

text \<open>
  The runs in which the store part and the hub part of a call are not separated: any sequence of
  whole calls of AddPolicy and RemovePolicy, new Watch calls, and steps of the running sessions.
\<close>

record policy_sys =
  sy_srv :: PolicyServer
  sy_sessions :: "nat \<Rightarrow> policy_session option"

datatype policy_label =
    LAdd stmt_env string AddPolicyRequest
  | LRemove stmt_env RemovePolicyRequest
  | LWatch stmt_env "Policy list \<Rightarrow> Policy list" string
  | LStep nat watch_io

fun policy_exec :: "policy_label \<Rightarrow> policy_sys \<Rightarrow> policy_sys option" where
  "policy_exec (LAdd env uuid req) sy =
     map_option (\<lambda>(_, srv). sy\<lparr>sy_srv := srv\<rparr>) (AddPolicy env uuid (sy_srv sy) req)"
| "policy_exec (LRemove env req) sy =
     map_option (\<lambda>(_, srv). sy\<lparr>sy_srv := srv\<rparr>) (RemovePolicy env (sy_srv sy) req)"
| "policy_exec (LWatch env scan tenant) sy =
     (case Watch_begin env scan (sy_srv sy) tenant of
        (Inl _, srv) \<Rightarrow> Some (sy\<lparr>sy_srv := srv\<rparr>)
      | (Inr se, srv) \<Rightarrow>
          Some (sy\<lparr>sy_srv := srv, sy_sessions := (sy_sessions sy)(se_ptr se \<mapsto> se)\<rparr>))"
| "policy_exec (LStep p io) sy =
     (case sy_sessions sy p of
        None \<Rightarrow> Some sy
      | Some se \<Rightarrow>
          map_option (\<lambda>(se, srv). sy\<lparr>sy_srv := srv, sy_sessions := (sy_sessions sy)(p \<mapsto> se)\<rparr>)
            (Watch_step io se (sy_srv sy)))"

text \<open>A label is admissible if the row order it uses is one (every row once).\<close>

fun label_ok :: "policy_label \<Rightarrow> bool" where
  "label_ok (LWatch env scan tenant) \<longleftrightarrow> is_scan scan"
| "label_ok _ \<longleftrightarrow> True"

inductive policy_reach :: "policy_sys \<Rightarrow> bool" where
  policy_reach_init: "store_wf s \<Longrightarrow> policy_reach \<lparr>sy_srv = policy_New s, sy_sessions = (\<lambda>_. None)\<rparr>"
| policy_reach_step: "policy_reach sy \<Longrightarrow> label_ok l \<Longrightarrow> policy_exec l sy = Some sy' \<Longrightarrow> policy_reach sy'"

text \<open>
  What a subscriber holds after a list of events, and what the store says the tenant's rules are.
  The two agree up to \<open>canon_rule\<close>: an unnamed enum value reads as the one it is stored as, and
  the creation time is left out.
\<close>

definition canon_rule :: "PolicyRule \<Rightarrow> PolicyRule" where
  "canon_rule r =
     r\<lparr>pr_Decision := decisionPB (decisionString (pr_Decision r)),
       pr_P2PMode := p2pModePB (p2pModeString (pr_P2PMode r)),
       pr_RelayMode := relayModePB (relayModeString (pr_RelayMode r)), pr_CreatedAtUnixMs := 0\<rparr>"

fun mirror_step :: "PolicyEvent \<Rightarrow> (string \<rightharpoonup> PolicyRule) \<Rightarrow> (string \<rightharpoonup> PolicyRule)" where
  "mirror_step ev m =
     (case (pe_Kind ev, pe_Rule ev) of
        (POLICY_KIND_ADDED, Some r) \<Rightarrow> m(pr_Id r \<mapsto> canon_rule r)
      | (POLICY_KIND_REMOVED, _) \<Rightarrow> m(pe_RemovedId ev := None)
      | _ \<Rightarrow> m)"

declare mirror_step.simps [simp del]

definition mirror :: "PolicyEvent list \<Rightarrow> string \<rightharpoonup> PolicyRule" where
  "mirror evs = fold mirror_step evs Map.empty"

definition tenant_rules :: "Store \<Rightarrow> string \<Rightarrow> string \<rightharpoonup> PolicyRule" where
  "tenant_rules s t =
     map_of (map (\<lambda>p. (po_id p, canon_rule (toPB p))) (filter (\<lambda>p. po_tenant p = t) (st_policies s)))"

fun snapshot_rest :: "watch_pc \<Rightarrow> PolicyEvent list" where
  "snapshot_rest (WSnapshot rs) = map (\<lambda>r. added_event (toPB r)) rs"
| "snapshot_rest _ = []"

definition session_ok :: "PolicyServer \<Rightarrow> policy_session \<Rightarrow> bool" where
  "session_ok srv se \<longleftrightarrow>
     (\<exists>w. hub_cfg (ps_hub srv) (se_ptr se) = Some w \<and> pw_tenant w = se_tenant se) \<and>
     (hub_live (ps_hub srv) (se_ptr se) \<longrightarrow> se_tenant se \<noteq> '''' \<longrightarrow>
        mirror (se_sent se @ snapshot_rest (se_pc se) @ hub_pending (ps_hub srv) (se_ptr se))
          = tenant_rules (ps_store srv) (se_tenant se))"

definition policy_inv :: "policy_sys \<Rightarrow> bool" where
  "policy_inv sy \<longleftrightarrow> store_wf (ps_store (sy_srv sy)) \<and> hub_wf (ps_hub (sy_srv sy)) \<and>
     (\<forall>p se. sy_sessions sy p = Some se \<longrightarrow> se_ptr se = p \<and> session_ok (sy_srv sy) se)"

lemma mirror_simps [simp]:
  "mirror (evs @ [added_event r]) = (mirror evs)(pr_Id r \<mapsto> canon_rule r)"
  "mirror (evs @ [removed_event i]) = (mirror evs)(i := None)"
  "mirror (evs @ snapshot_end # evs') = mirror (evs @ evs')"
  by (simp_all add: mirror_def added_event_def removed_event_def snapshot_end_def mirror_step.simps)

lemma mirror_snoc_assoc:
  "mirror (a @ b @ c @ [e]) = mirror_step e (mirror (a @ b @ c))"
  by (simp add: mirror_def)

lemma mirror_step_simps [simp]:
  "mirror_step (added_event r) m = m(pr_Id r \<mapsto> canon_rule r)"
  "mirror_step (removed_event i) m = m(i := None)"
  by (simp_all add: added_event_def removed_event_def mirror_step.simps)

lemma conversions [simp]:
  "decisionString (decisionPB (decisionString d)) = decisionString d"
  "p2pModeString (p2pModePB (p2pModeString m)) = p2pModeString m"
  "relayModeString (relayModePB (relayModeString k)) = relayModeString k"
  by (auto simp: decisionString_def decisionPB_def relayModeString_def relayModePB_def p2pModePB_def)
     (cases m; simp add: p2pModePB_def)

lemma p2pModeString_nonempty [simp]: "p2pModeString m \<noteq> ''''"
  by (cases m) simp_all

lemma relayModeString_nonempty [simp]: "relayModeString m \<noteq> ''''"
  by (simp add: relayModeString_def)

lemma store_AddPolicy_okD:
  assumes "store_AddPolicy env s p = (None, s')"
  shows "s' = s\<lparr>st_policies := st_policies s @ [policy_defaults env p]\<rparr>"
    and "list_all (\<lambda>q. po_id q \<noteq> po_id p) (st_policies s)"
proof -
  have "po_id (policy_defaults env p) = po_id p" by (simp add: policy_defaults_def Let_def)
  with assms show "s' = s\<lparr>st_policies := st_policies s @ [policy_defaults env p]\<rparr>"
    and "list_all (\<lambda>q. po_id q \<noteq> po_id p) (st_policies s)"
    by (auto simp: store_AddPolicy_def Let_def list_all_iff list_ex_iff split: option.splits if_splits)
qed

subsubsection \<open>Effect of the calls\<close>

lemma AddPolicy_commit_rules:
  assumes "AddPolicy_commit env uuid srv req = (Inr r, srv')" and "store_wf (ps_store srv)"
  shows "ps_hub srv' = ps_hub srv" and "store_wf (ps_store srv')"
    and "tenant_rules (ps_store srv') t =
           (if pr_Tenant r = t then (tenant_rules (ps_store srv) t)(pr_Id r \<mapsto> canon_rule r)
            else tenant_rules (ps_store srv) t)"
proof -
  obtain p where p: "store_AddPolicy env (ps_store srv) p = (None, ps_store srv')"
    and hub: "ps_hub srv' = ps_hub srv"
    and f: "po_id p = pr_Id r" "po_tenant p = pr_Tenant r"
      "canon_rule (toPB (policy_defaults env p)) = canon_rule r"
    using assms(1)
    by (auto simp: AddPolicy_commit_def Let_def policy_defaults_def canon_rule_def toPB_def
        split: option.splits if_splits prod.splits)
  show "ps_hub srv' = ps_hub srv" by fact
  show "store_wf (ps_store srv')" using store_wf_AddPolicy [OF assms(2), of env p] p by simp
  have d: "po_id (policy_defaults env p) = po_id p" "po_tenant (policy_defaults env p) = po_tenant p"
    by (simp_all add: policy_defaults_def Let_def)
  note n = store_AddPolicy_okD(2) [OF p]
  have s: "st_policies (ps_store srv') = st_policies (ps_store srv) @ [policy_defaults env p]"
    by (simp add: store_AddPolicy_okD(1) [OF p])
  have "po_id p \<notin> dom (tenant_rules (ps_store srv) t)"
    using n by (auto simp: tenant_rules_def dom_map_of_conv_image_fst list_all_iff)
  then show "tenant_rules (ps_store srv') t =
           (if pr_Tenant r = t then (tenant_rules (ps_store srv) t)(pr_Id r \<mapsto> canon_rule r)
            else tenant_rules (ps_store srv) t)"
    using f d by (auto simp: tenant_rules_def s map_add_def fun_eq_iff domIff split: option.splits)
qed

lemma AddPolicy_commit_err:
  assumes "AddPolicy_commit env uuid srv req = (Inl e, srv')"
  shows "srv' = srv"
  using assms by (auto simp: AddPolicy_commit_def store_AddPolicy_def Let_def split: option.splits if_splits prod.splits)

lemma RemovePolicy_commit_rules:
  assumes "RemovePolicy_commit env srv req = (Inr removed, srv')" and "store_wf (ps_store srv)"
  shows "ps_hub srv' = ps_hub srv" and "store_wf (ps_store srv')"
    and "tenant_rules (ps_store srv') t =
           (if rpr_Tenant req = t then (tenant_rules (ps_store srv) t)(rpr_Id req := None)
            else tenant_rules (ps_store srv) t)"
    and "\<not> removed \<Longrightarrow> tenant_rules (ps_store srv') t = tenant_rules (ps_store srv) t"
proof -
  let ?hit = "\<lambda>p. po_tenant p = rpr_Tenant req \<and> po_id p = rpr_Id req"
  have s: "ps_store srv' = (ps_store srv)\<lparr>st_policies := filter (\<lambda>p. \<not> ?hit p) (st_policies (ps_store srv))\<rparr>"
    and h: "ps_hub srv' = ps_hub srv"
    and b: "removed \<longleftrightarrow> filter ?hit (st_policies (ps_store srv)) \<noteq> []"
    using assms(1) by (auto simp: RemovePolicy_commit_def store_RemovePolicy_def Let_def split: option.splits)
  show "ps_hub srv' = ps_hub srv" by (rule h)
  show "store_wf (ps_store srv')" unfolding s using assms(2) by (rule store_wf_filters)
  have d: "distinct (map po_id (st_policies (ps_store srv)))" using assms(2) by (simp add: store_wf_def)
  have "map_of (map (\<lambda>p. (po_id p, f p)) (filter (\<lambda>p. po_tenant p = t) (filter (\<lambda>p. \<not> ?hit p) ps))) =
     (if rpr_Tenant req = t then (map_of (map (\<lambda>p. (po_id p, f p)) (filter (\<lambda>p. po_tenant p = t) ps)))(rpr_Id req := None)
      else map_of (map (\<lambda>p. (po_id p, f p)) (filter (\<lambda>p. po_tenant p = t) ps)))" for f and ps :: "Policy list"
    by (induction ps) (auto simp: fun_eq_iff)
  note filter_rules = this
  have st: "st_policies (ps_store srv') = filter (\<lambda>p. \<not> ?hit p) (st_policies (ps_store srv))" by (simp add: s)
  show "tenant_rules (ps_store srv') t =
           (if rpr_Tenant req = t then (tenant_rules (ps_store srv) t)(rpr_Id req := None)
            else tenant_rules (ps_store srv) t)"
    unfolding tenant_rules_def st by (rule filter_rules)
  assume "\<not> removed"
  then have "filter (\<lambda>p. \<not> ?hit p) (st_policies (ps_store srv)) = st_policies (ps_store srv)"
    using b by (auto simp: filter_empty_conv filter_id_conv)
  then show "tenant_rules (ps_store srv') t = tenant_rules (ps_store srv) t"
    by (simp add: tenant_rules_def s)
qed

lemma RemovePolicy_commit_err:
  assumes "RemovePolicy_commit env srv req = (Inl e, srv')"
  shows "srv' = srv"
  using assms by (auto simp: RemovePolicy_commit_def store_RemovePolicy_def Let_def split: option.splits)

lemma session_publish:
  assumes "session_ok srv0 se" and "hub_wf (ps_hub srv0)" and "ps_hub srv = ps_hub srv0"
    and "policy_broadcast ev tenant srv = Some srv'"
    and rules: "\<And>t. tenant_rules (ps_store srv) t =
       (if tenant = t then mirror_step ev (tenant_rules (ps_store srv0) t) else tenant_rules (ps_store srv0) t)"
  shows "session_ok srv' se"
proof -
  obtain h where h: "hub_broadcast (policy_wants tenant ev) ev (ps_hub srv0) = Some h"
    and srv': "srv' = srv\<lparr>ps_hub := h\<rparr>"
    using assms(3,4) by (auto simp: policy_broadcast_def)
  obtain w where w: "hub_cfg (ps_hub srv0) (se_ptr se) = Some w" "pw_tenant w = se_tenant se"
    using assms(1) by (auto simp: session_ok_def)
  note eff = hub_broadcast_effect [OF assms(2) h w(1)]
  show ?thesis
  proof (cases "hub_live (ps_hub srv0) (se_ptr se) \<and> policy_wants tenant ev w")
    case True
    then show ?thesis using eff(2,4) assms(1) w rules [of "se_tenant se"]
      by (auto simp: session_ok_def srv' policy_wants_def mirror_snoc_assoc split: if_splits)
  next
    case False
    then show ?thesis using eff(2,3) assms(1) w rules [of "se_tenant se"]
      by (auto simp: session_ok_def srv' policy_wants_def)
  qed
qed

lemma session_store_frame:
  assumes "session_ok srv se" and "ps_hub srv' = ps_hub srv"
    and "\<And>t. tenant_rules (ps_store srv') t = tenant_rules (ps_store srv) t"
  shows "session_ok srv' se"
  using assms by (simp add: session_ok_def)

text \<open>A call of the rule API keeps every session in step with the store, and never panics.\<close>

definition server_ok :: "PolicyServer \<Rightarrow> bool" where
  "server_ok srv \<longleftrightarrow> store_wf (ps_store srv) \<and> hub_wf (ps_hub srv)"

lemma policy_broadcast_safe:
  assumes "server_ok srv"
  shows "\<exists>srv'. policy_broadcast ev tenant srv = Some srv' \<and> server_ok srv' \<and> ps_store srv' = ps_store srv"
  using assms hub_broadcast_safe [of "ps_hub srv" "policy_wants tenant ev" ev]
  by (auto simp: policy_broadcast_def server_ok_def)

lemma AddPolicy_keeps:
  assumes "server_ok srv"
  shows "\<exists>r srv'. AddPolicy env uuid srv req = Some (r, srv') \<and> server_ok srv' \<and>
           (\<forall>se. session_ok srv se \<longrightarrow> session_ok srv' se)"
proof (cases "AddPolicy_commit env uuid srv req")
  case (Pair r srv1)
  show ?thesis
  proof (cases r)
    case (Inl e)
    then show ?thesis using Pair assms AddPolicy_commit_err [of env uuid srv req e srv1]
      by (simp add: AddPolicy_def)
  next
    case (Inr rule)
    note eff = AddPolicy_commit_rules [OF Pair [unfolded Inr]]
    have wf: "store_wf (ps_store srv)" "hub_wf (ps_hub srv)" using assms by (simp_all add: server_ok_def)
    then have "server_ok srv1" using eff by (simp add: server_ok_def)
    then obtain srv2 where b: "policy_broadcast (added_event rule) (pr_Tenant rule) srv1 = Some srv2" "server_ok srv2"
      using policy_broadcast_safe by blast
    have "session_ok srv2 se" if "session_ok srv se" for se
      by (rule session_publish [OF that wf(2) eff(1) [OF wf(1)] b(1)]) (simp add: eff(3) [OF wf(1)])
    then show ?thesis using Pair Inr b by (simp add: AddPolicy_def AddPolicy_publish_def)
  qed
qed

lemma RemovePolicy_keeps:
  assumes "server_ok srv"
  shows "\<exists>r srv'. RemovePolicy env srv req = Some (r, srv') \<and> server_ok srv' \<and>
           (\<forall>se. session_ok srv se \<longrightarrow> session_ok srv' se)"
proof (cases "RemovePolicy_commit env srv req")
  case (Pair r srv1)
  show ?thesis
  proof (cases r)
    case (Inl e)
    then show ?thesis using Pair assms RemovePolicy_commit_err [of env srv req e srv1]
      by (simp add: RemovePolicy_def)
  next
    case (Inr removed)
    note eff = RemovePolicy_commit_rules [OF Pair [unfolded Inr]]
    have wf: "store_wf (ps_store srv)" "hub_wf (ps_hub srv)" using assms by (simp_all add: server_ok_def)
    then have ok: "server_ok srv1" using eff by (simp add: server_ok_def)
    then obtain srv2 where b: "policy_broadcast (removed_event (rpr_Id req)) (rpr_Tenant req) srv1 = Some srv2" "server_ok srv2"
      using policy_broadcast_safe by blast
    have "session_ok srv2 se" if "session_ok srv se" for se
      by (rule session_publish [OF that wf(2) eff(1) [OF wf(1)] b(1)]) (simp add: eff(3) [OF wf(1)])
    moreover have "session_ok srv1 se" if "session_ok srv se" "\<not> removed" for se
      by (rule session_store_frame [OF that(1) eff(1) [OF wf(1)] eff(4) [OF wf(1) that(2)]])
    ultimately show ?thesis using Pair Inr b ok by (auto simp: RemovePolicy_def RemovePolicy_publish_def)
  qed
qed

subsubsection \<open>Effect of the sessions\<close>

lemma map_of_mset_eq:
  assumes "mset xs = mset ys" and "distinct (map fst xs)"
  shows "map_of xs = map_of ys"
proof -
  have "set xs = set ys" using assms(1) by (rule mset_eq_setD)
  moreover have "mset (map fst xs) = mset (map fst ys)" using assms(1) by (simp add: mset_map)
  then have "distinct (map fst ys)" using assms(2) by (metis mset_eq_imp_distinct_iff)
  ultimately show ?thesis using assms(2) by (metis map_of_inject_set)
qed

lemma mirror_snapshot:
  "distinct (map po_id rows) \<Longrightarrow>
     mirror (map (\<lambda>r. added_event (toPB r)) rows) = map_of (map (\<lambda>p. (po_id p, canon_rule (toPB p))) rows)"
proof (induction rows rule: rev_induct)
  case (snoc r rows)
  then have "map_of (map (\<lambda>p. (po_id p, canon_rule (toPB p))) rows) (po_id r) = None"
    by (auto simp: map_of_eq_None_iff)
  with snoc show ?case by (auto simp: map_add_def fun_eq_iff toPB_def split: option.splits)
qed (simp add: mirror_def)

lemma snapshot_rules:
  assumes "store_wf s" and "is_scan scan" and "store_ListPolicies env scan s t = Inr rows"
  shows "mirror (map (\<lambda>r. added_event (toPB r)) rows) = tenant_rules s t"
proof -
  let ?f = "\<lambda>p. (po_id p, canon_rule (toPB p))"
  let ?mine = "filter (\<lambda>p. po_tenant p = t) (st_policies s)"
  have m: "mset rows = mset ?mine"
    using assms(2,3) by (auto simp: store_ListPolicies_def is_scan_def split: option.splits)
  have "distinct (map po_id ?mine)" using assms(1) by (simp add: store_wf_def distinct_map_filter_key)
  moreover have "mset (map po_id rows) = mset (map po_id ?mine)" using m by (simp add: mset_map)
  ultimately have d: "distinct (map po_id rows)" by (metis mset_eq_imp_distinct_iff)
  have "map_of (map ?f rows) = map_of (map ?f ?mine)"
    using m d by (intro map_of_mset_eq) (simp_all add: mset_map comp_def)
  then show ?thesis using mirror_snapshot [OF d] by (simp add: tenant_rules_def)
qed

lemma session_hub_frame:
  assumes "session_ok srv se" and "ps_store srv' = ps_store srv"
    and "hub_cfg (ps_hub srv') (se_ptr se) = hub_cfg (ps_hub srv) (se_ptr se)"
    and "hub_pending (ps_hub srv') (se_ptr se) = hub_pending (ps_hub srv) (se_ptr se)"
    and "hub_live (ps_hub srv') (se_ptr se) \<Longrightarrow> hub_live (ps_hub srv) (se_ptr se)"
  shows "session_ok srv' se"
  using assms by (auto simp: session_ok_def)

lemma Watch_return_keeps:
  assumes "server_ok srv" and "\<exists>w. hub_cfg (ps_hub srv) (se_ptr se) = Some w \<and> pw_tenant w = se_tenant se"
  shows "\<exists>srv'. Watch_return r se srv = Some (se\<lparr>se_pc := WDone r\<rparr>, srv') \<and> server_ok srv' \<and>
           session_ok srv' (se\<lparr>se_pc := WDone r\<rparr>) \<and> (\<forall>x. session_ok srv x \<longrightarrow> session_ok srv' x) \<and>
           \<not> hub_live (ps_hub srv') (se_ptr se)"
proof -
  have wf: "hub_wf (ps_hub srv)" using assms(1) by (simp add: server_ok_def)
  then obtain h where h: "removeWatcher (se_ptr se) (ps_hub srv) = Some h" "hub_wf h"
    using removeWatcher_eq by blast
  have eff: "hub_live h q = (hub_live (ps_hub srv) q \<and> q \<noteq> se_ptr se)" "hub_pending h q = hub_pending (ps_hub srv) q"
    "hub_cfg h q = hub_cfg (ps_hub srv) q" for q
    using removeWatcher_eq [OF wf, of "se_ptr se" q] h(1) by auto
  let ?srv = "srv\<lparr>ps_hub := h\<rparr>"
  have "session_ok ?srv x" if "session_ok srv x" for x
    using that by (rule session_hub_frame) (simp_all add: eff)
  moreover have "session_ok ?srv (se\<lparr>se_pc := WDone r\<rparr>)" using assms(2) by (simp add: session_ok_def eff)
  moreover have "server_ok ?srv" using assms(1) h(2) by (simp add: server_ok_def)
  ultimately show ?thesis using h(1) eff(1) [of "se_ptr se"] by (simp add: Watch_return_def)
qed

lemma session_cfg: "session_ok srv se \<Longrightarrow> \<exists>w. hub_cfg (ps_hub srv) (se_ptr se) = Some w \<and> pw_tenant w = se_tenant se"
  by (simp add: session_ok_def)

text \<open>Sending the event that comes next keeps the session in step.\<close>

lemma Watch_send_keeps:
  assumes "server_ok srv" and "\<exists>w. hub_cfg (ps_hub srv) (se_ptr se) = Some w \<and> pw_tenant w = se_tenant se"
    and next_ok: "session_ok srv (se\<lparr>se_sent := se_sent se @ [ev], se_pc := pc\<rparr>)"
  shows "\<exists>se' srv'. Watch_send io ev pc se srv = Some (se', srv') \<and> server_ok srv' \<and>
           se_ptr se' = se_ptr se \<and> session_ok srv' se' \<and> (\<forall>x. session_ok srv x \<longrightarrow> session_ok srv' x)"
  using assms Watch_return_keeps [OF assms(1,2)]
  by (cases io) (fastforce simp: Watch_send_def)+

lemma Watch_live_keeps:
  assumes "server_ok srv" and "session_ok srv se" and pc: "se_pc se = WLive"
  shows "\<exists>se' srv'. Watch_step io se srv = Some (se', srv') \<and> server_ok srv' \<and> se_ptr se' = se_ptr se \<and>
           session_ok srv' se' \<and> (\<forall>x. se_ptr x \<noteq> se_ptr se \<longrightarrow> session_ok srv x \<longrightarrow> session_ok srv' x)"
proof -
  note cfg = session_cfg [OF assms(2)]
  obtain w c where m: "hub_mem (ps_hub srv) (se_ptr se) = Some (w, c)" using cfg by (auto simp: hub_cfg_def)
  consider (stop) "io = CtxDone \<or> ch_buf c = []" | (val) ev rest where "io \<noteq> CtxDone" "ch_buf c = ev # rest"
    by (cases "ch_buf c") auto
  then show ?thesis
  proof cases
    case stop
    then show ?thesis using assms m Watch_return_keeps [OF assms(1) cfg]
      by (fastforce simp: Watch_step_def hub_recv_def chan_recv_def)
  next
    case val
    define h where "h = snd (hub_recv (se_ptr se) (ps_hub srv))"
    let ?srv = "srv\<lparr>ps_hub := h\<rparr>"
    have eff: "hub_pending h q = (if se_ptr se = q then tl (hub_pending (ps_hub srv) q) else hub_pending (ps_hub srv) q)"
      "hub_live h q = hub_live (ps_hub srv) q" "hub_cfg h q = hub_cfg (ps_hub srv) q" for q
      by (simp_all add: h_def hub_recv_effect)
    have step: "Watch_step io se srv = Watch_send io ev WLive se ?srv"
      using val m pc by (simp add: Watch_step_def hub_recv_def chan_recv_def h_def)
    have p: "hub_pending (ps_hub srv) (se_ptr se) = ev # rest" using m val by (simp add: hub_pending_def)
    have ok: "server_ok ?srv"
      using assms(1) hub_wf_recv [of "ps_hub srv" "se_ptr se"] by (simp add: server_ok_def h_def)
    have others: "session_ok ?srv x" if "session_ok srv x" "se_ptr x \<noteq> se_ptr se" for x
      using that(1) by (rule session_hub_frame) (use that(2) in \<open>simp_all add: eff\<close>)
    have "session_ok ?srv (se\<lparr>se_sent := se_sent se @ [ev], se_pc := WLive\<rparr>)"
      using assms(2) p pc by (simp add: session_ok_def eff)
    with Watch_send_keeps [OF ok, where se = se and ev = ev and pc = WLive and io = io] cfg others show ?thesis
      by (fastforce simp: step eff)
  qed
qed

lemma Watch_step_keeps:
  assumes "server_ok srv" and "session_ok srv se"
  shows "\<exists>se' srv'. Watch_step io se srv = Some (se', srv') \<and> server_ok srv' \<and> se_ptr se' = se_ptr se \<and>
           session_ok srv' se' \<and> (\<forall>x. se_ptr x \<noteq> se_ptr se \<longrightarrow> session_ok srv x \<longrightarrow> session_ok srv' x)"
proof (cases "se_pc se")
  case (WSnapshot rs)
  note cfg = session_cfg [OF assms(2)]
  show ?thesis
  proof (cases rs)
    case Nil
    have "session_ok srv (se\<lparr>se_sent := se_sent se @ [snapshot_end], se_pc := WLive\<rparr>)"
      using assms(2) WSnapshot Nil by (simp add: session_ok_def)
    with Watch_send_keeps [OF assms(1) cfg, where ev = snapshot_end and pc = WLive and io = io] show ?thesis
      using WSnapshot Nil by (fastforce simp: Watch_step_def)
  next
    case (Cons r rs')
    have "session_ok srv (se\<lparr>se_sent := se_sent se @ [added_event (toPB r)], se_pc := WSnapshot rs'\<rparr>)"
      using assms(2) WSnapshot Cons by (simp add: session_ok_def)
    with Watch_send_keeps [OF assms(1) cfg, where ev = "added_event (toPB r)" and pc = "WSnapshot rs'" and io = io] show ?thesis
      using WSnapshot Cons by (fastforce simp: Watch_step_def)
  qed
next
  case WLive
  then show ?thesis using assms by (intro Watch_live_keeps)
next
  case (WDone r)
  then show ?thesis using assms by (simp add: Watch_step_def)
qed

lemma next_watch_frame:
  "hub_cfg (snd (next_watch_id h)) = hub_cfg h" "hub_live (snd (next_watch_id h)) = hub_live h"
  "hub_pending (snd (next_watch_id h)) = hub_pending h" "hub_wf (snd (next_watch_id h)) = hub_wf h"
  by (simp_all add: next_watch_id_def Let_def hub_cfg_def hub_live_def hub_pending_def hub_wf_def fun_eq_iff)

lemma Watch_list_frame:
  assumes "Watch_list env scan srv t = (r, srv')"
  shows "ps_store srv' = ps_store srv" and "hub_cfg (ps_hub srv') = hub_cfg (ps_hub srv)"
    and "hub_live (ps_hub srv') = hub_live (ps_hub srv)" and "hub_pending (ps_hub srv') = hub_pending (ps_hub srv)"
    and "server_ok srv' = server_ok srv"
    and "r = Inr (i, rows) \<Longrightarrow> store_ListPolicies env scan (ps_store srv) t = Inr rows"
  using assms next_watch_frame [of "ps_hub srv"]
  by (auto simp: Watch_list_def Let_def server_ok_def split: prod.splits sum.splits)

lemma Watch_register_keeps:
  assumes "server_ok srv" and "Watch_register t i rows srv = (se, srv')"
  shows "server_ok srv'" and "ps_store srv' = ps_store srv" and "session_ok srv x \<Longrightarrow> session_ok srv' x"
    and "session_ok srv x \<Longrightarrow> se_ptr x \<noteq> se_ptr se"
    and "se = \<lparr>se_tenant = t, se_ptr = se_ptr se, se_pc = WSnapshot rows, se_sent = []\<rparr>"
    and "hub_pending (ps_hub srv') (se_ptr se) = []" and "hub_live (ps_hub srv') (se_ptr se)"
    and "hub_cfg (ps_hub srv') (se_ptr se) = Some \<lparr>pw_id = i, pw_tenant = t\<rparr>"
proof -
  let ?w = "\<lparr>pw_id = i, pw_tenant = t\<rparr>"
  have wf: "hub_wf (ps_hub srv)" using assms(1) by (simp add: server_ok_def)
  have se: "se = \<lparr>se_tenant = t, se_ptr = hub_alloc (ps_hub srv), se_pc = WSnapshot rows, se_sent = []\<rparr>"
    and srv': "srv' = srv\<lparr>ps_hub := snd (hub_join ?w (ps_hub srv))\<rparr>"
    using assms(2) by (auto simp: Watch_register_def hub_join_eq [OF wf] Let_def)
  show "server_ok srv'" using assms(1) hub_wf_join [OF wf, of ?w] by (simp add: srv' server_ok_def)
  show "session_ok srv' x" if x: "session_ok srv x"
    using x session_cfg [OF x] hub_join_effect [OF wf, of "se_ptr x" _ ?w]
    by (auto simp: srv' elim!: session_hub_frame)
  show "se_ptr x \<noteq> se_ptr se" if x: "session_ok srv x"
    using session_cfg [OF x] hub_fresh [OF wf] by (auto simp: se hub_cfg_def)
  show "ps_store srv' = ps_store srv" by (simp add: srv')
  show "se = \<lparr>se_tenant = t, se_ptr = se_ptr se, se_pc = WSnapshot rows, se_sent = []\<rparr>" by (simp add: se)
  show "hub_pending (ps_hub srv') (se_ptr se) = []" and "hub_live (ps_hub srv') (se_ptr se)"
    and "hub_cfg (ps_hub srv') (se_ptr se) = Some \<lparr>pw_id = i, pw_tenant = t\<rparr>"
    by (simp_all add: se srv' hub_join_eq [OF wf] hub_pending_def hub_live_def hub_cfg_def make_chan_def)
qed

text \<open>A dropped watcher that has drained its queue is told so.\<close>

lemma Watch_step_dropped:
  assumes "server_ok srv" and "hub_cfg (ps_hub srv) (se_ptr se) \<noteq> None" and "se_pc se = WLive"
    and "\<not> hub_live (ps_hub srv) (se_ptr se)" and "hub_pending (ps_hub srv) (se_ptr se) = []" and "io \<noteq> CtxDone"
  shows "Watch_step io se srv = Watch_return (Some watcher_dropped) se srv"
proof -
  obtain w c where m: "hub_mem (ps_hub srv) (se_ptr se) = Some (w, c)"
    using assms(2) by (auto simp: hub_cfg_def)
  have "ch_closed c" "ch_buf c = []"
    using assms(1,4,5) m by (auto simp: server_ok_def hub_wf_def hub_live_def hub_pending_def)
  then show ?thesis using m assms(3,6) by (simp add: Watch_step_def hub_recv_def chan_recv_def)
qed

subsubsection \<open>The invariant\<close>

lemma policy_inv_Watch:
  assumes "policy_inv sy" and "is_scan scan"
  shows "\<exists>sy'. policy_exec (LWatch env scan t) sy = Some sy' \<and> policy_inv sy'"
proof -
  have ok: "server_ok (sy_srv sy)" using assms(1) by (simp add: policy_inv_def server_ok_def)
  have ses: "sy_sessions sy p = Some se \<Longrightarrow> se_ptr se = p \<and> session_ok (sy_srv sy) se" for p se
    using assms(1) by (simp add: policy_inv_def)
  obtain r srv1 where l: "Watch_list env scan (sy_srv sy) t = (r, srv1)" by fastforce
  note fr = Watch_list_frame [OF l]
  have keep: "session_ok (sy_srv sy) x \<Longrightarrow> session_ok srv1 x" for x
    by (erule session_hub_frame) (simp_all add: fr)
  have ok1: "server_ok srv1" using ok fr(5) by simp
  show ?thesis
  proof (cases r)
    case (Inl e)
    then show ?thesis using l ses keep ok1 by (auto simp: Watch_begin_def policy_inv_def server_ok_def)
  next
    case (Inr irows)
    obtain i rows where r: "r = Inr (i, rows)" using Inr by (cases irows) auto
    obtain se srv2 where g: "Watch_register t i rows srv1 = (se, srv2)" by fastforce
    note rg = Watch_register_keeps [OF ok1 g]
    have "mirror (map (\<lambda>r. added_event (toPB r)) rows) = tenant_rules (ps_store srv2) t"
      using fr(6) [OF r] assms(2) ok rg(2) fr(1) by (auto simp: server_ok_def intro!: snapshot_rules)
    then have "session_ok srv2 se"
      by (subst rg(5)) (simp add: session_ok_def rg(6,8))
    moreover have "session_ok srv2 x" if "session_ok (sy_srv sy) x" for x
      using rg(3) keep that by blast
    ultimately show ?thesis using l r g ses rg(1)
      by (auto simp: Watch_begin_def policy_inv_def server_ok_def)
  qed
qed

lemma policy_inv_exec:
  assumes "policy_inv sy" and "label_ok l"
  shows "\<exists>sy'. policy_exec l sy = Some sy' \<and> policy_inv sy'"
proof -
  have ok: "server_ok (sy_srv sy)" using assms(1) by (simp add: policy_inv_def server_ok_def)
  have ses: "sy_sessions sy p = Some se \<Longrightarrow> se_ptr se = p \<and> session_ok (sy_srv sy) se" for p se
    using assms(1) by (simp add: policy_inv_def)
  show ?thesis
  proof (cases l)
    case (LAdd env uuid req)
    then show ?thesis using AddPolicy_keeps [OF ok, of env uuid req] ses
      by (auto simp: policy_inv_def server_ok_def)
  next
    case (LRemove env req)
    then show ?thesis using RemovePolicy_keeps [OF ok, of env req] ses
      by (auto simp: policy_inv_def server_ok_def)
  next
    case (LWatch env scan t)
    then show ?thesis using policy_inv_Watch assms by simp
  next
    case (LStep p io)
    show ?thesis
    proof (cases "sy_sessions sy p")
      case None
      then show ?thesis using LStep assms(1) by simp
    next
      case (Some se)
      from Watch_step_keeps [OF ok, of se io] ses [OF Some] obtain se' srv' where
        st: "Watch_step io se (sy_srv sy) = Some (se', srv')" "server_ok srv'" "se_ptr se' = p" "session_ok srv' se'"
        and others: "\<forall>x. se_ptr x \<noteq> p \<longrightarrow> session_ok (sy_srv sy) x \<longrightarrow> session_ok srv' x" by auto
      then show ?thesis using LStep Some ses by (auto simp: policy_inv_def server_ok_def)
    qed
  qed
qed

lemma policy_reach_inv: "policy_reach sy \<Longrightarrow> policy_inv sy"
proof (induction rule: policy_reach.induct)
  case (policy_reach_init s)
  then show ?case by (simp add: policy_inv_def policy_New_def)
next
  case (policy_reach_step sy l sy')
  then show ?case using policy_inv_exec by fastforce
qed

primrec policy_run :: "policy_label list \<Rightarrow> policy_sys \<Rightarrow> policy_sys option" where
  "policy_run [] sy = Some sy"
| "policy_run (l # ls) sy = (case policy_exec l sy of None \<Rightarrow> None | Some sy' \<Rightarrow> policy_run ls sy')"

lemma policy_reach_run:
  "policy_reach sy \<Longrightarrow> list_all label_ok ls \<Longrightarrow> policy_run ls sy = Some sy' \<Longrightarrow> policy_reach sy'"
  by (induction ls arbitrary: sy) (auto intro: policy_reach_step split: option.splits)

definition policy_init :: policy_sys where
  "policy_init = \<lparr>sy_srv = policy_New empty_store, sy_sessions = (\<lambda>_. None)\<rparr>"

lemma policy_reach_empty: "policy_reach policy_init"
  unfolding policy_init_def by (rule policy_reach_init) (simp add: store_wf_def empty_store_def)

subsection \<open>Properties\<close>

text \<open>
  A relay that follows a Watch stream holds exactly the tenant's rules: in every state reached
  by whole calls, for a session of a non-empty tenant that is in its live phase, is registered
  and has nothing queued, replaying the events it was sent (the snapshot, then the live ones)
  gives the rules the store has for that tenant, up to the creation time.
\<close>

theorem policy_mirror_exact:
  assumes "policy_reach sy" and "sy_sessions sy p = Some se" and "se_pc se = WLive" and "se_tenant se \<noteq> ''''"
    and "hub_live (ps_hub (sy_srv sy)) p" and "hub_pending (ps_hub (sy_srv sy)) p = []"
  shows "mirror (se_sent se) = tenant_rules (ps_store (sy_srv sy)) (se_tenant se)"
proof -
  have "se_ptr se = p" and "session_ok (sy_srv sy) se"
    using policy_reach_inv [OF assms(1)] assms(2) by (simp_all add: policy_inv_def)
  then show ?thesis using assms(3-) by (simp add: session_ok_def)
qed

definition demo_rule :: PolicyRule where
  "demo_rule = \<lparr>pr_Id = ''p1'', pr_Tenant = ''acme'', pr_CallerPattern = ''*'', pr_TargetPattern = ''*'',
     pr_MethodPattern = '''', pr_Decision = DECISION_DENY, pr_ExpiresUnixMs = 0, pr_CreatedAtUnixMs = 0,
     pr_P2PMode = P2P_ALLOWED, pr_RelayMode = RELAY_MODE_SPLICE\<rparr>"

definition demo_run :: "policy_label list" where
  "demo_run = [LWatch (ok_env 1) id ''acme'', LStep 0 SendOK,
               LAdd (ok_env 2) ''u'' \<lparr>apr_Rule = Some demo_rule\<rparr>, LStep 0 SendOK]"

lemmas policy_eval =
  demo_run_def demo_rule_def policy_init_def policy_New_def new_hub_def empty_store_def ok_env_def
  Watch_begin_def Watch_list_def Watch_register_def next_watch_id_def hub_join_def alloc_watcher_def
  addWatcher_def make_chan_def store_ListPolicies_def Watch_step_def Watch_send_def hub_recv_def chan_recv_def
  AddPolicy_def AddPolicy_commit_def AddPolicy_publish_def policy_broadcast_def hub_broadcast_def deliver_def
  policy_wants_def try_send_def watch_cap_def store_AddPolicy_def policy_defaults_def policy_check_def
  decisionString_def relayModeString_def Let_def List.insert_def

lemma demo_run_state:
  "\<exists>sy se. policy_run demo_run policy_init = Some sy \<and> sy_sessions sy 0 = Some se \<and> se_pc se = WLive \<and>
     se_tenant se = ''acme'' \<and> hub_live (ps_hub (sy_srv sy)) 0 \<and> hub_pending (ps_hub (sy_srv sy)) 0 = [] \<and>
     se_sent se = [snapshot_end, added_event demo_rule]"
  by (simp add: policy_eval hub_live_def hub_pending_def)

theorem policy_mirror_exact_witness:
  "\<exists>sy. policy_run demo_run policy_init = Some sy \<and>
     mirror [snapshot_end, added_event demo_rule] = tenant_rules (ps_store (sy_srv sy)) ''acme''"
proof -
  obtain sy se where run: "policy_run demo_run policy_init = Some sy" and
    se: "sy_sessions sy 0 = Some se" "se_pc se = WLive" "se_tenant se = ''acme''"
    "hub_live (ps_hub (sy_srv sy)) 0" "hub_pending (ps_hub (sy_srv sy)) 0 = []"
    "se_sent se = [snapshot_end, added_event demo_rule]"
    using demo_run_state by blast
  have "list_all label_ok demo_run" by (simp add: demo_run_def is_scan_def)
  then have "policy_reach sy" using policy_reach_run [OF policy_reach_empty _ run] by blast
  from policy_mirror_exact [OF this se(1,2) _ se(4,5)] show ?thesis using run se by auto
qed

text \<open>
  The service never panics and a dropped watcher is told: in every reached state every
  further call and session step is defined (no send on a closed channel, no second close), and
  a live session whose watcher was dropped for being slow and that has drained its queue
  returns with the slow-consumer error at its next step unless its client has gone.
\<close>

theorem policy_watch_safe:
  assumes "policy_reach sy"
  shows "(label_ok l \<longrightarrow> policy_exec l sy \<noteq> None) \<and>
         (\<forall>p se io. sy_sessions sy p = Some se \<longrightarrow> se_pc se = WLive \<longrightarrow> \<not> hub_live (ps_hub (sy_srv sy)) p \<longrightarrow>
            hub_pending (ps_hub (sy_srv sy)) p = [] \<longrightarrow> io \<noteq> CtxDone \<longrightarrow>
            (\<exists>sy' se'. policy_exec (LStep p io) sy = Some sy' \<and> sy_sessions sy' p = Some se' \<and>
               se_pc se' = WDone (Some watcher_dropped) \<and> se_sent se' = se_sent se))"
proof (intro conjI allI impI)
  have inv: "policy_inv sy" using assms by (rule policy_reach_inv)
  then show "policy_exec l sy \<noteq> None" if "label_ok l" using policy_inv_exec that by fastforce
  fix p se io
  assume a: "sy_sessions sy p = Some se" "se_pc se = WLive" "\<not> hub_live (ps_hub (sy_srv sy)) p"
    "hub_pending (ps_hub (sy_srv sy)) p = []" "io \<noteq> CtxDone"
  have ok: "server_ok (sy_srv sy)" and se: "se_ptr se = p" "session_ok (sy_srv sy) se"
    using inv a(1) by (auto simp: policy_inv_def server_ok_def)
  have "Watch_step io se (sy_srv sy) = Watch_return (Some watcher_dropped) se (sy_srv sy)"
    by (rule Watch_step_dropped [OF ok _ a(2)]) (use session_cfg [OF se(2)] se(1) a in auto)
  then show "\<exists>sy' se'. policy_exec (LStep p io) sy = Some sy' \<and> sy_sessions sy' p = Some se' \<and>
               se_pc se' = WDone (Some watcher_dropped) \<and> se_sent se' = se_sent se"
    using Watch_return_keeps [OF ok session_cfg [OF se(2)], of "Some watcher_dropped"] a(1) by auto
qed

theorem policy_watch_safe_witness: "policy_exec (LRemove (ok_env 3) \<lparr>rpr_Tenant = ''acme'', rpr_Id = ''p1''\<rparr>) policy_init \<noteq> None"
  using policy_watch_safe [OF policy_reach_empty, of "LRemove (ok_env 3) \<lparr>rpr_Tenant = ''acme'', rpr_Id = ''p1''\<rparr>"]
  by simp

interpretation policy_feed: event_feed hub_wf hub_live hub_cfg hub_pending watch_cap policy_wants "hub_exec policy_wants"
  by (rule hub_event_feed)

text \<open>
  C11. No silent gap in a policy Watch: whatever sequence of joins, broadcasts, receives and
  departures follows its registration, the events a watcher has received followed by those
  queued for it are the matching broadcasts in order, without loss or repetition, as long as it
  is registered; once it is dropped they are a prefix of them.
\<close>

theorem policy_no_silent_gap:
  assumes "hub_wf h" and "hub_join w h = (p, h0)"
  shows "\<exists>h' lost. feed_run (hub_exec policy_wants) ops h0 = Some h' \<and> hub_wf h' \<and>
           feed_log policy_wants w ops =
             feed_got (hub_exec policy_wants) hub_pending p ops h0 @ hub_pending h' p @ lost \<and>
           (hub_live h' p \<longrightarrow> lost = [])"
proof -
  have j: "p = hub_alloc h" "h0 = snd (hub_join w h)"
    using assms(2) hub_join_eq [OF assms(1), of w] by auto
  have "hub_wf h0" using assms(1) by (simp add: j hub_wf_join)
  moreover have "hub_cfg h0 p = Some w" "hub_live h0 p" "hub_pending h0 p = []"
    using assms(1) by (simp_all add: j hub_join_eq hub_cfg_def hub_live_def hub_pending_def make_chan_def)
  ultimately show ?thesis using policy_feed.no_silent_gap [of h0 p w ops] by auto
qed

theorem policy_no_silent_gap_witness:
  "\<exists>h0 h' lost. hub_join \<lparr>pw_id = 1, pw_tenant = ''acme''\<rparr> new_hub = (0, h0) \<and>
     feed_run (hub_exec policy_wants) [FPublish ''acme'' (removed_event ''p''), FTake 0] h0 = Some h' \<and>
     [removed_event ''p''] = feed_got (hub_exec policy_wants) hub_pending 0
        [FPublish ''acme'' (removed_event ''p''), FTake 0] h0 @ hub_pending h' 0 @ lost"
proof -
  let ?w = "\<lparr>pw_id = 1, pw_tenant = ''acme''\<rparr>"
  let ?ops = "[FPublish ''acme'' (removed_event ''p''), FTake 0]"
  have j: "hub_join ?w new_hub = (0, snd (hub_join ?w new_hub))"
    by (simp add: hub_join_eq) (simp add: new_hub_def)
  moreover have "feed_log policy_wants ?w ?ops = [removed_event ''p'']" by (simp add: policy_wants_def)
  ultimately show ?thesis using policy_no_silent_gap [OF hub_wf_new j, of ?ops] by metis
qed

subsection \<open>Interleavings that break the mirror\<close>

lemma AddPolicy_cases:
  assumes "AddPolicy env uuid srv req = Some (Inr i, srv')"
  obtains r srv1 where "AddPolicy_commit env uuid srv req = (Inr r, srv1)" "pr_Id r = i"
    "AddPolicy_publish r srv1 = Some srv'"
  using assms by (auto simp: AddPolicy_def split: prod.splits sum.splits)

lemma commit_tenant: "AddPolicy_commit env uuid srv req = (Inr r, srv1) \<Longrightarrow> \<exists>r0. apr_Rule req = Some r0 \<and> pr_Tenant r = pr_Tenant r0"
  by (auto simp: AddPolicy_commit_def Let_def split: option.splits if_splits prod.splits)

lemma commit_fresh:
  assumes "AddPolicy_commit env uuid srv req = (Inr r, srv1)"
  shows "tenant_rules (ps_store srv) t (pr_Id r) = None"
proof -
  obtain p s where p: "store_AddPolicy env (ps_store srv) p = (None, s)" "po_id p = pr_Id r"
    using assms by (auto simp: AddPolicy_commit_def Let_def split: option.splits if_splits prod.splits)
  with store_AddPolicy_okD(2) [OF p(1)] show ?thesis
    by (auto simp: tenant_rules_def map_of_eq_None_iff list_all_iff)
qed

text \<open>
  C28. The snapshot race: Watch lists the rules before it registers its watcher. A rule added in
  between is in the store and is in nothing the session has sent, has left to send or has
  queued, so this relay never learns of it. The comment at the registration speaks of updates
  during the send of the snapshot only; those between the listing and the registration are lost.
\<close>

theorem policy_watch_loses_update:
  assumes "server_ok srv" and "is_scan scan" and "Watch_list env scan srv t = (Inr (i, rows), srv1)"
    and "AddPolicy env' uuid srv1 req = Some (Inr rid, srv2)" and "apr_Rule req = Some r" and "pr_Tenant r = t"
    and "Watch_register t i rows srv2 = (se, srv3)"
  shows "tenant_rules (ps_store srv3) t rid \<noteq> None \<and>
         mirror (se_sent se @ snapshot_rest (se_pc se) @ hub_pending (ps_hub srv3) (se_ptr se)) rid = None"
proof -
  note fr = Watch_list_frame [OF assms(3)]
  have ok1: "server_ok srv1" using fr(5) assms(1) by simp
  then have wf1: "store_wf (ps_store srv1)" by (simp add: server_ok_def)
  from assms(4) obtain r' srv1' where c: "AddPolicy_commit env' uuid srv1 req = (Inr r', srv1')" "pr_Id r' = rid"
    and p: "AddPolicy_publish r' srv1' = Some srv2" by (rule AddPolicy_cases)
  have ten: "pr_Tenant r' = t" using commit_tenant [OF c(1)] assms(5,6) by auto
  have ok2: "server_ok srv2" using AddPolicy_keeps [OF ok1, of env' uuid req] assms(4) by auto
  note rg = Watch_register_keeps [OF ok2 assms(7)]
  have st: "ps_store srv3 = ps_store srv1'" using rg(2) p by (auto simp: AddPolicy_publish_def policy_broadcast_def)
  have "mirror (map (\<lambda>r. added_event (toPB r)) rows) = tenant_rules (ps_store srv1) t"
    using fr(1) fr(6) [OF refl] wf1 assms(2) by (intro snapshot_rules) simp_all
  moreover have "tenant_rules (ps_store srv1) t rid = None" using commit_fresh [OF c(1)] c(2) by simp
  moreover have "tenant_rules (ps_store srv3) t rid = Some (canon_rule r')"
    using AddPolicy_commit_rules(3) [OF c(1) wf1, of t] ten c(2) by (simp add: st)
  ultimately show ?thesis by (subst rg(5), subst (2) rg(5)) (simp add: rg(6))
qed

theorem policy_watch_loses_update_witness:
  "\<exists>srv1 srv2 srv3 se. Watch_list (ok_env 1) id (policy_New empty_store) ''acme'' = (Inr (1, []), srv1) \<and>
     AddPolicy (ok_env 2) ''u'' srv1 \<lparr>apr_Rule = Some demo_rule\<rparr> = Some (Inr ''p1'', srv2) \<and>
     Watch_register ''acme'' 1 [] srv2 = (se, srv3) \<and> tenant_rules (ps_store srv3) ''acme'' ''p1'' \<noteq> None \<and>
     mirror (se_sent se @ snapshot_rest (se_pc se) @ hub_pending (ps_hub srv3) (se_ptr se)) ''p1'' = None"
proof -
  let ?srv = "policy_New empty_store"
  obtain srv1 where l: "Watch_list (ok_env 1) id ?srv ''acme'' = (Inr (1, []), srv1)"
    and "\<exists>srv2. AddPolicy (ok_env 2) ''u'' srv1 \<lparr>apr_Rule = Some demo_rule\<rparr> = Some (Inr ''p1'', srv2)"
    by (simp add: policy_eval)
  then obtain srv2 where a: "AddPolicy (ok_env 2) ''u'' srv1 \<lparr>apr_Rule = Some demo_rule\<rparr> = Some (Inr ''p1'', srv2)" by blast
  obtain se srv3 where w: "Watch_register ''acme'' 1 [] srv2 = (se, srv3)" by fastforce
  have "server_ok ?srv" "is_scan (id :: Policy list \<Rightarrow> Policy list)" "pr_Tenant demo_rule = ''acme''"
    by (simp_all add: is_scan_def demo_rule_def server_ok_def policy_New_def store_wf_def empty_store_def)
  then have "tenant_rules (ps_store srv3) ''acme'' ''p1'' \<noteq> None \<and>
     mirror (se_sent se @ snapshot_rest (se_pc se) @ hub_pending (ps_hub srv3) (se_ptr se)) ''p1'' = None"
    by (intro policy_watch_loses_update [OF _ _ l a _ _ w]) simp_all
  with l a w show ?thesis by blast
qed

text \<open>
  C29. The publish race: the handlers release the store before they publish. If a rule is removed
  by a second call between the commit and the publish of the call that adds it, the events
  arrive in the opposite order of the commits: a relay that was in step ends up holding a rule
  the store no longer has.
\<close>

theorem policy_publish_reorder:
  assumes "server_ok srv" and "session_ok srv se" and "se_pc se = WLive" and "se_tenant se = t" and "t \<noteq> ''''"
    and "AddPolicy_commit env uuid srv req = (Inr r, srv1)" and "pr_Tenant r = t"
    and "RemovePolicy env' srv1 \<lparr>rpr_Tenant = t, rpr_Id = pr_Id r\<rparr> = Some (Inr True, srv2)"
    and "AddPolicy_publish r srv2 = Some srv3" and "hub_live (ps_hub srv3) (se_ptr se)"
  shows "tenant_rules (ps_store srv3) t (pr_Id r) = None \<and>
         mirror (se_sent se @ hub_pending (ps_hub srv3) (se_ptr se)) (pr_Id r) = Some (canon_rule r)"
proof -
  have wf: "store_wf (ps_store srv)" "hub_wf (ps_hub srv)" using assms(1) by (simp_all add: server_ok_def)
  note c1 = AddPolicy_commit_rules [OF assms(6) wf(1)]
  let ?req = "\<lparr>rpr_Tenant = t, rpr_Id = pr_Id r\<rparr>"
  obtain srv1' where rc: "RemovePolicy_commit env' srv1 ?req = (Inr True, srv1')"
    and rp: "RemovePolicy_publish ?req srv1' = Some srv2"
    using assms(8) by (auto simp: RemovePolicy_def split: prod.splits sum.splits if_splits)
  note c2 = RemovePolicy_commit_rules [OF rc c1(2)]
  have st: "ps_store srv3 = ps_store srv1'"
    using assms(9) rp by (auto simp: AddPolicy_publish_def RemovePolicy_publish_def policy_broadcast_def)
  have ok2: "server_ok srv2"
    using RemovePolicy_keeps [of srv1 env' ?req] assms(8) c1 wf by (auto simp: server_ok_def)
  obtain w where w: "hub_cfg (ps_hub srv) (se_ptr se) = Some w" "pw_tenant w = t"
    using session_cfg [OF assms(2)] assms(4) by auto
  have h2: "hub_broadcast (policy_wants t (removed_event (pr_Id r))) (removed_event (pr_Id r)) (ps_hub srv) = Some (ps_hub srv2)"
    using rp c1(1) c2(1) by (auto simp: RemovePolicy_publish_def policy_broadcast_def)
  have w2: "hub_cfg (ps_hub srv2) (se_ptr se) = Some w" using hub_broadcast_effect(2) [OF wf(2) h2 w(1)] .
  have h3: "hub_broadcast (policy_wants t (added_event r)) (added_event r) (ps_hub srv2) = Some (ps_hub srv3)"
    using assms(7,9) by (auto simp: AddPolicy_publish_def policy_broadcast_def)
  have "hub_wf (ps_hub srv2)" using ok2 by (simp add: server_ok_def)
  note e3 = hub_broadcast_effect(3,4) [OF this h3 w2]
  have "hub_pending (ps_hub srv3) (se_ptr se) = hub_pending (ps_hub srv2) (se_ptr se) @ [added_event r]"
  proof -
    have wt: "policy_wants t (added_event r) w" using w(2) by (simp add: policy_wants_def)
    have "hub_live (ps_hub srv2) (se_ptr se)" using e3(1) assms(10) by blast
    from e3(2) [OF this wt] assms(10) show ?thesis by (simp split: if_splits)
  qed
  moreover have "tenant_rules (ps_store srv3) t (pr_Id r) = None"
    using c2(3) [of t] by (simp add: st)
  ultimately show ?thesis by (simp add: append.assoc [symmetric] del: append.assoc append_assoc)
qed

definition reorder_srv :: PolicyServer where
  "reorder_srv = (policy_New empty_store)\<lparr>ps_hub := snd (hub_join \<lparr>pw_id = 1, pw_tenant = ''acme''\<rparr> new_hub)\<rparr>"

definition reorder_se :: policy_session where
  "reorder_se = \<lparr>se_tenant = ''acme'', se_ptr = 0, se_pc = WLive, se_sent = [snapshot_end]\<rparr>"

theorem policy_publish_reorder_witness:
  "\<exists>srv1 srv2 srv3. AddPolicy_commit (ok_env 2) ''u'' reorder_srv \<lparr>apr_Rule = Some demo_rule\<rparr> = (Inr demo_rule, srv1) \<and>
     RemovePolicy (ok_env 3) srv1 \<lparr>rpr_Tenant = ''acme'', rpr_Id = pr_Id demo_rule\<rparr> = Some (Inr True, srv2) \<and>
     AddPolicy_publish demo_rule srv2 = Some srv3 \<and> tenant_rules (ps_store srv3) ''acme'' ''p1'' = None \<and>
     mirror (se_sent reorder_se @ hub_pending (ps_hub srv3) 0) ''p1'' = Some (canon_rule demo_rule)"
proof -
  let ?w = "\<lparr>pw_id = 1, pw_tenant = ''acme''\<rparr>"
  note srv_def = reorder_srv_def
  let ?srv = reorder_srv
  obtain srv1 where a: "AddPolicy_commit (ok_env 2) ''u'' ?srv \<lparr>apr_Rule = Some demo_rule\<rparr> = (Inr demo_rule, srv1)"
    and "\<exists>srv2 srv3. RemovePolicy (ok_env 3) srv1 \<lparr>rpr_Tenant = ''acme'', rpr_Id = pr_Id demo_rule\<rparr> = Some (Inr True, srv2) \<and>
           AddPolicy_publish demo_rule srv2 = Some srv3 \<and> hub_live (ps_hub srv3) (se_ptr reorder_se)"
    by (simp add: policy_eval srv_def RemovePolicy_def RemovePolicy_commit_def RemovePolicy_publish_def
        store_RemovePolicy_def reorder_se_def hub_live_def)
  then obtain srv2 srv3 where
    b: "RemovePolicy (ok_env 3) srv1 \<lparr>rpr_Tenant = ''acme'', rpr_Id = pr_Id demo_rule\<rparr> = Some (Inr True, srv2)"
    "AddPolicy_publish demo_rule srv2 = Some srv3" "hub_live (ps_hub srv3) (se_ptr reorder_se)" by blast
  have "server_ok ?srv" using hub_wf_join [OF hub_wf_new, of ?w]
    by (simp add: srv_def server_ok_def policy_New_def store_wf_def empty_store_def)
  moreover have "session_ok ?srv reorder_se"
    by (simp add: session_ok_def srv_def reorder_se_def hub_cfg_def hub_pending_def policy_eval tenant_rules_def
        mirror_def mirror_step.simps snapshot_end_def)
  moreover have "pr_Tenant demo_rule = ''acme''" "pr_Id demo_rule = ''p1''" by (simp_all add: demo_rule_def)
  ultimately have "tenant_rules (ps_store srv3) ''acme'' ''p1'' = None \<and>
     mirror (se_sent reorder_se @ hub_pending (ps_hub srv3) 0) ''p1'' = Some (canon_rule demo_rule)"
    using policy_publish_reorder [of ?srv reorder_se "''acme''" "ok_env 2" "''u''" "\<lparr>apr_Rule = Some demo_rule\<rparr>"
        demo_rule srv1 "ok_env 3" srv2 srv3] a b
    by (auto simp: reorder_se_def)
  with a b show ?thesis by blast
qed

end
