(* ===== verification/Registry_Server.thy ===== *)
theory Registry_Server
  imports Store Control Hub
begin

text \<open>
  The service registry of the controller, \<open>pkg/registry/server.go\<close>: registration, deregistration
  and resolution of services over the store, relay heartbeats, and the Watch handler with its
  hub. A panic is None.
\<close>

subsection \<open>Server\<close>

record reg_watcher =
  rw_id :: "64 word"
  rw_tenant :: string
  rw_filter :: "string list" \<comment> \<open>the keys of the map, empty for all\<close>

record RegistryServer =
  rs_store :: Store
  rs_hub :: "(reg_watcher, WatchEvent) hub"

definition registry_New :: "Store \<Rightarrow> RegistryServer" where
  "registry_New s = \<lparr>rs_store = s, rs_hub = new_hub\<rparr>"

definition nameSet :: "string list \<Rightarrow> string list" where
  "nameSet names = (if names = [] then [] else remdups names)"

definition registry_wants :: "string \<Rightarrow> WatchEvent \<Rightarrow> reg_watcher \<Rightarrow> bool" where
  "registry_wants tenant ev w \<longleftrightarrow>
     \<not> (rw_tenant w \<noteq> '''' \<and> rw_tenant w \<noteq> tenant) \<and>
     \<not> (length (rw_filter w) > 0 \<and> we_ServiceName ev \<notin> set (rw_filter w))"

definition registry_broadcast :: "WatchEvent \<Rightarrow> string \<Rightarrow> RegistryServer \<Rightarrow> RegistryServer option" where
  "registry_broadcast ev tenant srv =
     map_option (\<lambda>h. srv\<lparr>rs_hub := h\<rparr>) (hub_broadcast (registry_wants tenant ev) ev (rs_hub srv))"

definition register_event :: "string \<Rightarrow> RegisterServiceRequest \<Rightarrow> WatchEvent" where
  "register_event i req =
     \<lparr>we_Kind = EVENT_KIND_REGISTER,
      we_Provider = Some \<lparr>pv_ServiceId = i, pv_AgentUri = rsr_AgentUri req, pv_RelayId = rsr_RelayId req,
                          pv_LocalAddr = rsr_LocalAddr req, pv_UpdatedAtUnixMs = 0, pv_RelayEndpoint = ''''\<rparr>,
      we_ServiceName = rsr_ServiceName req\<rparr>"

definition deregister_event :: "Service \<Rightarrow> WatchEvent" where
  "deregister_event svc =
     \<lparr>we_Kind = EVENT_KIND_DEREGISTER,
      we_Provider = Some \<lparr>pv_ServiceId = svc_ID svc, pv_AgentUri = svc_AgentURI svc, pv_RelayId = svc_RelayID svc,
                          pv_LocalAddr = '''', pv_UpdatedAtUnixMs = 0, pv_RelayEndpoint = ''''\<rparr>,
      we_ServiceName = svc_Name svc\<rparr>"

text \<open>Each of the two statements of a call has an environment of its own.\<close>

definition RegisterService ::
  "stmt_env \<Rightarrow> stmt_env \<Rightarrow> RegistryServer \<Rightarrow> RegisterServiceRequest \<Rightarrow> (string res \<times> RegistryServer) option" where
  "RegisterService env1 env2 srv req =
     (if rsr_Tenant req = '''' \<or> rsr_ServiceName req = '''' \<or> rsr_AgentUri req = '''' \<or> rsr_RelayId req = ''''
      then Some (Inl (Fresh ''registry: missing required field''), srv)
      else
        (case UpsertAgent env1 (rs_store srv) (rsr_Tenant req) (rsr_AgentUri req) of
           (Some e, s) \<Rightarrow> Some (Inl e, srv\<lparr>rs_store := s\<rparr>)
         | (None, s) \<Rightarrow>
             (case store_RegisterService env2 s
                     \<lparr>svc_ID = '''', svc_Tenant = rsr_Tenant req, svc_Name = rsr_ServiceName req,
                      svc_AgentURI = rsr_AgentUri req, svc_RelayID = rsr_RelayId req, svc_RelayEndpoint = '''',
                      svc_LocalAddr = rsr_LocalAddr req, svc_Health = '''', svc_UpdatedAt = 0\<rparr> of
                (Inl e, s) \<Rightarrow> Some (Inl e, srv\<lparr>rs_store := s\<rparr>)
              | (Inr i, s) \<Rightarrow>
                  map_option (\<lambda>srv. (Inr i, srv))
                    (registry_broadcast (register_event i req) (rsr_Tenant req) (srv\<lparr>rs_store := s\<rparr>)))))"

fun broadcast_removed :: "Service list \<Rightarrow> string \<Rightarrow> RegistryServer \<Rightarrow> RegistryServer option" where
  "broadcast_removed [] tenant srv = Some srv"
| "broadcast_removed (svc # svcs) tenant srv =
     (case registry_broadcast (deregister_event svc) tenant srv of
        None \<Rightarrow> None
      | Some srv' \<Rightarrow> broadcast_removed svcs tenant srv')"

definition DeregisterAgent ::
  "stmt_env \<Rightarrow> stmt_env \<Rightarrow> (service_row list \<Rightarrow> service_row list) \<Rightarrow> RegistryServer \<Rightarrow> DeregisterAgentRequest
     \<Rightarrow> (unit res \<times> RegistryServer) option" where
  "DeregisterAgent env1 env2 scan srv req =
     (case store_DeregisterAgent env1 env2 scan (rs_store srv) (dar_Tenant req) (dar_AgentUri req) (dar_RelayId req) of
        (Inl e, s) \<Rightarrow> Some (Inl e, srv\<lparr>rs_store := s\<rparr>)
      | (Inr removed, s) \<Rightarrow>
          map_option (\<lambda>srv. (Inr (), srv)) (broadcast_removed removed (dar_Tenant req) (srv\<lparr>rs_store := s\<rparr>)))"

definition Resolve ::
  "stmt_env \<Rightarrow> (service_row list \<Rightarrow> service_row list) \<Rightarrow> RegistryServer \<Rightarrow> ResolveRequest \<Rightarrow> Provider list res" where
  "Resolve env scan srv req =
     (case ResolveService env scan (rs_store srv) (rq_Tenant req) (rq_ServiceName req) (rq_CallerRegion req) of
        Inl e \<Rightarrow> (if e = ErrNotFound then Inr [] else Inl e)
      | Inr svc \<Rightarrow>
          Inr [\<lparr>pv_ServiceId = svc_ID svc, pv_AgentUri = svc_AgentURI svc, pv_RelayId = svc_RelayID svc,
                pv_LocalAddr = svc_LocalAddr svc, pv_UpdatedAtUnixMs = svc_UpdatedAt svc,
                pv_RelayEndpoint = svc_RelayEndpoint svc\<rparr>])"

definition UpsertRelay :: "stmt_env \<Rightarrow> RegistryServer \<Rightarrow> UpsertRelayRequest \<Rightarrow> unit res \<times> RegistryServer" where
  "UpsertRelay env srv req =
     (if ur_Id req = '''' \<or> ur_Endpoint req = ''''
      then (Inl (Fresh ''registry: relay id and endpoint required''), srv)
      else
        (case store_UpsertRelay env (rs_store srv) (ur_Id req) (ur_Region req) (ur_Endpoint req) of
           (Some e, s) \<Rightarrow> (Inl e, srv\<lparr>rs_store := s\<rparr>)
         | (None, s) \<Rightarrow> (Inr (), srv\<lparr>rs_store := s\<rparr>)))"

subsection \<open>The Watch handler\<close>

datatype reg_pc = RLive | RDone "goerr option"

record reg_session =
  rg_ptr :: nat
  rg_pc :: reg_pc
  rg_sent :: "WatchEvent list"

datatype reg_io = RSendOK | RSendErr goerr | RCtxDone

definition reg_watcher_dropped :: goerr where
  "reg_watcher_dropped = Fresh ''registry: watcher dropped (slow consumer)''"

definition registry_Watch :: "WatchRequest \<Rightarrow> RegistryServer \<Rightarrow> reg_session \<times> RegistryServer" where
  "registry_Watch req srv =
     (let (i, h) = next_watch_id (rs_hub srv);
          (p, h) = hub_join \<lparr>rw_id = i, rw_tenant = wr_Tenant req, rw_filter = nameSet (wr_ServiceNames req)\<rparr> h
      in (\<lparr>rg_ptr = p, rg_pc = RLive, rg_sent = []\<rparr>, srv\<lparr>rs_hub := h\<rparr>))"

definition registry_Watch_return ::
  "goerr option \<Rightarrow> reg_session \<Rightarrow> RegistryServer \<Rightarrow> (reg_session \<times> RegistryServer) option" where
  "registry_Watch_return r se srv =
     map_option (\<lambda>h. (se\<lparr>rg_pc := RDone r\<rparr>, srv\<lparr>rs_hub := h\<rparr>)) (removeWatcher (rg_ptr se) (rs_hub srv))"

text \<open>One turn of the handler's loop.\<close>

definition registry_Watch_step ::
  "reg_io \<Rightarrow> reg_session \<Rightarrow> RegistryServer \<Rightarrow> (reg_session \<times> RegistryServer) option" where
  "registry_Watch_step io se srv =
     (case rg_pc se of
        RDone _ \<Rightarrow> Some (se, srv)
      | RLive \<Rightarrow>
          (if io = RCtxDone then registry_Watch_return None se srv
           else
             (case hub_recv (rg_ptr se) (rs_hub srv) of
                (RecvBlock, _) \<Rightarrow> Some (se, srv)
              | (RecvClosed, _) \<Rightarrow> registry_Watch_return (Some reg_watcher_dropped) se srv
              | (RecvVal ev _, h) \<Rightarrow>
                  (case io of
                     RSendErr e \<Rightarrow> registry_Watch_return (Some e) se (srv\<lparr>rs_hub := h\<rparr>)
                   | _ \<Rightarrow> Some (se\<lparr>rg_sent := rg_sent se @ [ev]\<rparr>, srv\<lparr>rs_hub := h\<rparr>)))))"

subsection \<open>Watching and the store\<close>

text \<open>
  What a relay that replays the events holds for each service name, and what the store says of
  the names the watcher asked for.
\<close>

type_synonym binding = "string \<times> string \<times> string \<times> string" \<comment> \<open>service id, agent, relay, local address\<close>

fun svc_step :: "WatchEvent \<Rightarrow> (string \<rightharpoonup> binding) \<Rightarrow> (string \<rightharpoonup> binding)" where
  "svc_step ev m =
     (case (we_Kind ev, we_Provider ev) of
        (EVENT_KIND_REGISTER, Some p) \<Rightarrow>
          m(we_ServiceName ev \<mapsto> (pv_ServiceId p, pv_AgentUri p, pv_RelayId p, pv_LocalAddr p))
      | (EVENT_KIND_DEREGISTER, _) \<Rightarrow> m(we_ServiceName ev := None)
      | _ \<Rightarrow> m)"

declare svc_step.simps [simp del]

definition svc_row_binding :: "service_row \<Rightarrow> binding" where
  "svc_row_binding r = (sv_id r, sv_agent_uri r, sv_relay_id r, sv_local_addr r)"

definition service_view :: "Store \<Rightarrow> reg_watcher \<Rightarrow> string \<rightharpoonup> binding" where
  "service_view s w =
     (\<lambda>n. if rw_filter w = [] \<or> n \<in> set (rw_filter w)
          then map_option svc_row_binding (table_lookup sv_key (rw_tenant w, n) (st_services s))
          else None)"

definition reg_ok :: "RegistryServer \<Rightarrow> bool" where
  "reg_ok srv \<longleftrightarrow> store_wf (rs_store srv) \<and> canonical_ids (rs_store srv) \<and> hub_wf (rs_hub srv)"

text \<open>\<open>simulated srv srv' p w\<close>: if the watcher is still there, the events it gained explain the change.\<close>

definition simulated :: "RegistryServer \<Rightarrow> RegistryServer \<Rightarrow> nat \<Rightarrow> reg_watcher \<Rightarrow> bool" where
  "simulated srv srv' p w \<longleftrightarrow>
     (hub_live (rs_hub srv') p \<longrightarrow>
        (\<exists>evs. hub_pending (rs_hub srv') p = hub_pending (rs_hub srv) p @ evs \<and>
               service_view (rs_store srv') w = fold svc_step evs (service_view (rs_store srv) w)))"

lemma svc_step_register [simp]:
  "svc_step (register_event i req) m =
     m(rsr_ServiceName req \<mapsto> (i, rsr_AgentUri req, rsr_RelayId req, rsr_LocalAddr req))"
  by (simp add: svc_step.simps register_event_def)

lemma svc_step_deregister [simp]: "svc_step (deregister_event svc) m = m(svc_Name svc := None)"
  by (simp add: svc_step.simps deregister_event_def)

lemma event_names [simp]:
  "we_ServiceName (register_event i req) = rsr_ServiceName req"
  "we_ServiceName (deregister_event svc) = svc_Name svc"
  by (simp_all add: register_event_def deregister_event_def)

lemma registry_broadcast_safe:
  assumes "hub_wf (rs_hub srv)"
  shows "\<exists>srv'. registry_broadcast ev t srv = Some srv' \<and> hub_wf (rs_hub srv') \<and> rs_store srv' = rs_store srv"
  using assms hub_broadcast_safe [of "rs_hub srv" "registry_wants t ev" ev]
  by (auto simp: registry_broadcast_def)

lemma registry_broadcast_effect:
  assumes "hub_wf (rs_hub srv)" and "registry_broadcast ev t srv = Some srv'"
    and "hub_cfg (rs_hub srv) p = Some w" and "hub_live (rs_hub srv') p"
  shows "hub_live (rs_hub srv) p" and "hub_cfg (rs_hub srv') p = Some w"
    and "hub_pending (rs_hub srv') p = hub_pending (rs_hub srv) p @ (if registry_wants t ev w then [ev] else [])"
proof -
  have h: "hub_broadcast (registry_wants t ev) ev (rs_hub srv) = Some (rs_hub srv')"
    using assms(2) by (auto simp: registry_broadcast_def)
  note e = hub_broadcast_effect [OF assms(1) h assms(3)]
  show "hub_cfg (rs_hub srv') p = Some w" by (rule e(2))
  show l: "hub_live (rs_hub srv) p" using e(3) assms(4) by blast
  show "hub_pending (rs_hub srv') p = hub_pending (rs_hub srv) p @ (if registry_wants t ev w then [ev] else [])"
    using e(3) e(4) [OF l] assms(4) by (cases "registry_wants t ev w") (auto split: if_splits)
qed

lemma broadcast_removed_safe:
  "hub_wf (rs_hub srv) \<Longrightarrow>
     \<exists>srv'. broadcast_removed svcs t srv = Some srv' \<and> hub_wf (rs_hub srv') \<and> rs_store srv' = rs_store srv"
proof (induction svcs arbitrary: srv)
  case (Cons svc svcs)
  from registry_broadcast_safe [OF Cons.prems] obtain srv1 where
    "registry_broadcast (deregister_event svc) t srv = Some srv1" "hub_wf (rs_hub srv1)" "rs_store srv1 = rs_store srv"
    by blast
  with Cons.IH [of srv1] show ?case by auto
qed simp

lemma broadcast_removed_effect:
  assumes "hub_wf (rs_hub srv)" and "broadcast_removed svcs t srv = Some srv'"
    and "hub_cfg (rs_hub srv) p = Some w" and "hub_live (rs_hub srv') p"
  shows "hub_live (rs_hub srv) p \<and>
         hub_pending (rs_hub srv') p = hub_pending (rs_hub srv) p @
           filter (\<lambda>ev. registry_wants t ev w) (map deregister_event svcs)"
  using assms
proof (induction svcs arbitrary: srv)
  case (Cons svc svcs)
  obtain srv1 where b: "registry_broadcast (deregister_event svc) t srv = Some srv1" "hub_wf (rs_hub srv1)"
    using registry_broadcast_safe [OF Cons.prems(1)] by blast
  then have rest: "broadcast_removed svcs t srv1 = Some srv'" using Cons.prems(2) by simp
  have "hub_cfg (rs_hub srv1) p = Some w"
    using b(1) hub_broadcast_effect(2) [OF Cons.prems(1) _ Cons.prems(3)] by (auto simp: registry_broadcast_def)
  note ih = Cons.IH [OF b(2) rest this Cons.prems(4)]
  then show ?case using registry_broadcast_effect [OF Cons.prems(1) b(1) Cons.prems(3)] by auto
qed simp

lemma simulated_refl:
  "st_services (rs_store srv') = st_services (rs_store srv) \<Longrightarrow> rs_hub srv' = rs_hub srv \<Longrightarrow> simulated srv srv' p w"
  by (auto simp: simulated_def service_view_def fun_eq_iff)

lemma UpsertAgent_frame:
  assumes "UpsertAgent env s t u = (r, s')"
  shows "st_services s' = st_services s" and "store_wf s \<Longrightarrow> store_wf s'" and "canonical_ids s' = canonical_ids s"
  using assms by (auto simp: UpsertAgent_def store_wf_def canonical_ids_def agents.distinct_upsert split: option.splits)

lemma register_row:
  assumes "store_RegisterService env s svc = (Inr i, s')" and "svc_ID svc = ''''" and "canonical_ids s" and "store_wf s"
  shows "store_wf s'" and "canonical_ids s'" and "i = service_id (svc_Tenant svc) (svc_Name svc)"
    and "map_option svc_row_binding (table_lookup sv_key k (st_services s')) =
           (if k = (svc_Tenant svc, svc_Name svc)
            then Some (i, svc_AgentURI svc, svc_RelayID svc, svc_LocalAddr svc)
            else map_option svc_row_binding (table_lookup sv_key k (st_services s)))"
proof -
  define row where "row = \<lparr>sv_id = service_id (svc_Tenant svc) (svc_Name svc), sv_tenant = svc_Tenant svc,
      sv_name = svc_Name svc, sv_agent_uri = svc_AgentURI svc, sv_relay_id = svc_RelayID svc,
      sv_local_addr = svc_LocalAddr svc, sv_health = ''healthy'', sv_updated_at = env_now env\<rparr>"
  have "i = service_id (svc_Tenant svc) (svc_Name svc) \<and>
      s' = s\<lparr>st_services := upsert sv_key merge_service row (st_services s)\<rparr>"
    using assms(1) unfolding store_RegisterService_def Let_def assms(2) row_def
    by (auto split: option.splits if_splits)
  then have i: "i = service_id (svc_Tenant svc) (svc_Name svc)"
    and s': "s' = s\<lparr>st_services := upsert sv_key merge_service row (st_services s)\<rparr>" by blast+
  have row: "sv_key row = (svc_Tenant svc, svc_Name svc)" "sv_id row = i" "sv_agent_uri row = svc_AgentURI svc"
      "sv_relay_id row = svc_RelayID svc" "sv_local_addr row = svc_LocalAddr svc"
    by (simp_all add: row_def i sv_key_def)
  show "store_wf s'" using store_wf_RegisterService [OF assms(4), of env svc] assms(1) by simp
  show "i = service_id (svc_Tenant svc) (svc_Name svc)" by (rule i)
  show c: "canonical_ids s'"
    unfolding s' using assms(3) row i by (intro canonical_upsert) (simp_all add: sv_key_def)
  have "sv_id old = i" if "table_lookup sv_key (svc_Tenant svc, svc_Name svc) (st_services s) = Some old" for old
    using that assms(3) i by (auto simp: table_lookup_def find_Some_iff canonical_ids_def list_all_length sv_key_def)
  then show "map_option svc_row_binding (table_lookup sv_key k (st_services s')) =
           (if k = (svc_Tenant svc, svc_Name svc)
            then Some (i, svc_AgentURI svc, svc_RelayID svc, svc_LocalAddr svc)
            else map_option svc_row_binding (table_lookup sv_key k (st_services s)))"
    using row by (auto simp: s' services.lookup_upsert svc_row_binding_def merge_service_def split: option.splits)
qed

text \<open>The service a registration writes.\<close>

abbreviation requested_service :: "RegisterServiceRequest \<Rightarrow> Service" where
  "requested_service req \<equiv>
     \<lparr>svc_ID = '''', svc_Tenant = rsr_Tenant req, svc_Name = rsr_ServiceName req, svc_AgentURI = rsr_AgentUri req,
      svc_RelayID = rsr_RelayId req, svc_RelayEndpoint = '''', svc_LocalAddr = rsr_LocalAddr req, svc_Health = '''',
      svc_UpdatedAt = 0\<rparr>"

lemma register_simulated:
  assumes "reg_ok srv" and "st_services s1 = st_services (rs_store srv)" and "canonical_ids s1" and "store_wf s1"
    and "store_RegisterService env s1 (requested_service req) = (Inr i, s2)"
    and "registry_broadcast (register_event i req) (rsr_Tenant req) (srv\<lparr>rs_store := s2\<rparr>) = Some srv'"
    and "hub_cfg (rs_hub srv) p = Some w" and "rw_tenant w \<noteq> ''''"
  shows "simulated srv srv' p w"
  unfolding simulated_def
proof (intro impI exI conjI)
  let ?srv = "srv\<lparr>rs_store := s2\<rparr>" and ?ev = "register_event i req"
  note rr = register_row [OF assms(5) _ assms(3,4), simplified]
  have hw: "hub_wf (rs_hub ?srv)" and w': "hub_cfg (rs_hub ?srv) p = Some w" using assms(1,7) by (simp_all add: reg_ok_def)
  have st: "rs_store srv' = s2" using assms(6) by (auto simp: registry_broadcast_def)
  assume l: "hub_live (rs_hub srv') p"
  from registry_broadcast_effect(3) [OF hw assms(6) w' l]
  show "hub_pending (rs_hub srv') p = hub_pending (rs_hub srv) p @
      (if registry_wants (rsr_Tenant req) ?ev w then [?ev] else [])" by simp
  show "service_view (rs_store srv') w =
      fold svc_step (if registry_wants (rsr_Tenant req) ?ev w then [?ev] else []) (service_view (rs_store srv) w)"
    unfolding st service_view_def rr(4) assms(2) using assms(8) by (simp add: registry_wants_def fun_eq_iff)
qed

lemma RegisterService_keeps:
  assumes "reg_ok srv"
  shows "\<exists>r srv'. RegisterService env1 env2 srv req = Some (r, srv') \<and> reg_ok srv' \<and>
     (\<forall>p w. hub_cfg (rs_hub srv) p = Some w \<longrightarrow> rw_tenant w \<noteq> '''' \<longrightarrow> simulated srv srv' p w)"
proof -
  obtain e1 s1 where u: "UpsertAgent env1 (rs_store srv) (rsr_Tenant req) (rsr_AgentUri req) = (e1, s1)" by fastforce
  obtain r2 s2 where g: "store_RegisterService env2 s1 (requested_service req) = (r2, s2)" by fastforce
  note uf = UpsertAgent_frame [OF u]
  have ok1: "reg_ok (srv\<lparr>rs_store := s1\<rparr>)" using assms uf by (simp add: reg_ok_def)
  consider (missing) "rsr_Tenant req = '''' \<or> rsr_ServiceName req = '''' \<or> rsr_AgentUri req = '''' \<or> rsr_RelayId req = ''''"
    | (agent) e where "\<not> (rsr_Tenant req = '''' \<or> rsr_ServiceName req = '''' \<or> rsr_AgentUri req = '''' \<or> rsr_RelayId req = '''')"
        "e1 = Some e"
    | (service) e where "\<not> (rsr_Tenant req = '''' \<or> rsr_ServiceName req = '''' \<or> rsr_AgentUri req = '''' \<or> rsr_RelayId req = '''')"
        "e1 = None" "r2 = Inl e"
    | (stored) i where "\<not> (rsr_Tenant req = '''' \<or> rsr_ServiceName req = '''' \<or> rsr_AgentUri req = '''' \<or> rsr_RelayId req = '''')"
        "e1 = None" "r2 = Inr i"
    by (cases e1; cases r2) auto
  then show ?thesis
  proof cases
    case missing
    then show ?thesis using assms by (auto simp: RegisterService_def intro: simulated_refl)
  next
    case agent
    then show ?thesis using u ok1 uf by (auto simp: RegisterService_def intro: simulated_refl)
  next
    case service
    then have "s2 = s1" using g by (auto simp: store_RegisterService_def Let_def split: option.splits if_splits)
    then show ?thesis using service u g ok1 uf by (auto simp: RegisterService_def intro: simulated_refl)
  next
    case stored
    have wf1: "canonical_ids s1" "store_wf s1" using ok1 by (simp_all add: reg_ok_def)
    note rr = register_row [OF g [unfolded stored] _ wf1, simplified]
    let ?srv = "srv\<lparr>rs_store := s2\<rparr>" and ?ev = "register_event i req"
    have hw: "hub_wf (rs_hub ?srv)" using assms by (simp add: reg_ok_def)
    then obtain srv' where b: "registry_broadcast ?ev (rsr_Tenant req) ?srv = Some srv'"
      "hub_wf (rs_hub srv')" "rs_store srv' = s2" using registry_broadcast_safe by fastforce
    have call: "RegisterService env1 env2 srv req = Some (Inr i, srv')"
      using stored u g b by (simp add: RegisterService_def)
    have "simulated srv srv' p w" if w: "hub_cfg (rs_hub srv) p = Some w" "rw_tenant w \<noteq> ''''" for p w
      by (rule register_simulated [OF assms uf(1) wf1 g [unfolded stored(3)] b(1) w])
    then show ?thesis using call rr b assms by (auto simp: reg_ok_def)
  qed
qed

lemma RegisterService_stored:
  assumes "reg_ok srv" and "RegisterService env1 env2 srv req = Some (Inr i, srv1)"
  obtains s where "registry_broadcast (register_event i req) (rsr_Tenant req) (srv\<lparr>rs_store := s\<rparr>) = Some srv1"
    and "rs_store srv1 = s"
    and "map_option svc_row_binding (table_lookup sv_key (rsr_Tenant req, rsr_ServiceName req) (st_services s)) =
           Some (i, rsr_AgentUri req, rsr_RelayId req, rsr_LocalAddr req)"
proof -
  obtain s1 s where u: "UpsertAgent env1 (rs_store srv) (rsr_Tenant req) (rsr_AgentUri req) = (None, s1)"
    and g: "store_RegisterService env2 s1 (requested_service req) = (Inr i, s)"
    and b: "registry_broadcast (register_event i req) (rsr_Tenant req) (srv\<lparr>rs_store := s\<rparr>) = Some srv1"
    using assms(2) by (auto simp: RegisterService_def split: if_splits option.splits prod.splits sum.splits)
  have "canonical_ids s1" "store_wf s1" using UpsertAgent_frame [OF u] assms(1) by (simp_all add: reg_ok_def)
  from register_row(4) [OF g _ this, of "(rsr_Tenant req, rsr_ServiceName req)"]
  have "map_option svc_row_binding (table_lookup sv_key (rsr_Tenant req, rsr_ServiceName req) (st_services s)) =
           Some (i, rsr_AgentUri req, rsr_RelayId req, rsr_LocalAddr req)" by simp
  moreover have "rs_store srv1 = s" using b by (auto simp: registry_broadcast_def)
  ultimately show ?thesis using that b by blast
qed

lemma removed_lookup:
  assumes "store_wf s"
  shows "table_lookup sv_key (t', n) (filter (\<lambda>r. \<not> owned_by t a rl r) (st_services s)) =
    (if t' = t \<and> n \<in> sv_name ` {r \<in> set (st_services s). owned_by t a rl r} then None
     else table_lookup sv_key (t', n) (st_services s))"
proof (cases "table_lookup sv_key (t', n) (st_services s)")
  case None
  then show ?thesis by (simp add: filter_removed_lookup [OF assms])
next
  case (Some r)
  then have r: "r \<in> set (st_services s)" "sv_key r = (t', n)" by (auto simp: table_lookup_def find_Some_iff)
  have "owned_by t a rl r \<longleftrightarrow> t' = t \<and> n \<in> sv_name ` {r \<in> set (st_services s). owned_by t a rl r}"
  proof
    assume "owned_by t a rl r"
    with r show "t' = t \<and> n \<in> sv_name ` {r \<in> set (st_services s). owned_by t a rl r}"
      by (auto simp: owned_by_def sv_key_def)
  next
    assume "t' = t \<and> n \<in> sv_name ` {r \<in> set (st_services s). owned_by t a rl r}"
    then obtain r' where r': "r' \<in> set (st_services s)" "owned_by t a rl r'" and n: "t' = t" "n = sv_name r'" by blast
    have "sv_key r' = (t', n)" using r'(2) by (simp add: n owned_by_def sv_key_def)
    then have k: "sv_key r' = sv_key r" by (simp only: r(2))
    have "distinct (map sv_key (st_services s))" using assms by (simp add: store_wf_def)
    from distinct_map_key_inj [OF this r'(1) r(1) k] have "r' = r" .
    with r' show "owned_by t a rl r" by simp
  qed
  then show ?thesis using Some by (simp add: filter_removed_lookup [OF assms])
qed

text \<open>What DEREGISTER events do to a view of the services.\<close>

lemma dereg_events_view:
  "fold svc_step (filter P (map deregister_event xs)) m =
     (\<lambda>n. if \<exists>x \<in> set xs. P (deregister_event x) \<and> svc_Name x = n then None else m n)"
  by (induction xs arbitrary: m) (auto simp: fun_eq_iff)

lemma DeregisterAgent_keeps:
  assumes "reg_ok srv" and "is_scan scan"
  shows "\<exists>r srv'. DeregisterAgent env1 env2 scan srv req = Some (r, srv') \<and> reg_ok srv' \<and>
     (\<forall>p w. hub_cfg (rs_hub srv) p = Some w \<longrightarrow> rw_tenant w \<noteq> '''' \<longrightarrow> simulated srv srv' p w)"
proof -
  let ?t = "dar_Tenant req" and ?own = "owned_by (dar_Tenant req) (dar_AgentUri req) (dar_RelayId req)"
  let ?s = "rs_store srv"
  show ?thesis
  proof (cases "env_fail env1 = None \<and> env_fail env2 = None")
    case False
    then show ?thesis using assms(1)
      by (auto simp: DeregisterAgent_def store_DeregisterAgent_def dereg_select_def dereg_delete_def
          intro: simulated_refl split: option.splits)
  next
    case True
    define svcs where "svcs = map (\<lambda>r. to_Service r '''') (scan (filter ?own (st_services ?s)))"
    define s' where "s' = ?s\<lparr>st_services := filter (\<lambda>r. \<not> ?own r) (st_services ?s)\<rparr>"
    have d: "store_DeregisterAgent env1 env2 scan ?s ?t (dar_AgentUri req) (dar_RelayId req) = (Inr svcs, s')"
      using True by (simp add: store_DeregisterAgent_def dereg_select_def dereg_delete_def svcs_def s'_def)
    let ?srv = "srv\<lparr>rs_store := s'\<rparr>"
    have wf: "store_wf ?s" "hub_wf (rs_hub ?srv)" using assms(1) by (simp_all add: reg_ok_def)
    obtain srv' where b: "broadcast_removed svcs ?t ?srv = Some srv'" "hub_wf (rs_hub srv')" "rs_store srv' = s'"
      using broadcast_removed_safe [OF wf(2)] by fastforce
    have ok': "reg_ok srv'" using assms(1) b
      by (auto simp: reg_ok_def s'_def store_wf_filters canonical_ids_def list_all_iff)
    have names: "set (map svc_Name svcs) = sv_name ` {r \<in> set (st_services ?s). ?own r}"
      by (auto simp: svcs_def scan_set [OF assms(2)] to_Service_def)
    have "simulated srv srv' p w" if w: "hub_cfg (rs_hub srv) p = Some w" "rw_tenant w \<noteq> ''''" for p w
      unfolding simulated_def
    proof (intro impI exI conjI)
      assume l: "hub_live (rs_hub srv') p"
      have w': "hub_cfg (rs_hub ?srv) p = Some w" using w(1) by simp
      show "hub_pending (rs_hub srv') p = hub_pending (rs_hub srv) p @
           filter (\<lambda>ev. registry_wants ?t ev w) (map deregister_event svcs)"
        using broadcast_removed_effect [OF wf(2) b(1) w' l] by simp
      have look: "table_lookup sv_key (rw_tenant w, n) (st_services s') =
          (if rw_tenant w = ?t \<and> n \<in> set (map svc_Name svcs) then None
           else table_lookup sv_key (rw_tenant w, n) (st_services ?s))" for n
        by (simp only: s'_def names) (simp add: removed_lookup [OF wf(1)])
      show "service_view (rs_store srv') w =
          fold svc_step (filter (\<lambda>ev. registry_wants ?t ev w) (map deregister_event svcs)) (service_view ?s w)"
        unfolding dereg_events_view b(3) service_view_def look
        using w(2) by (auto simp: registry_wants_def fun_eq_iff)
    qed
    then show ?thesis using d b(1) ok' by (simp add: DeregisterAgent_def)
  qed
qed

subsection \<open>Properties\<close>

datatype reg_call =
    RcRegister stmt_env stmt_env RegisterServiceRequest
  | RcDeregister stmt_env stmt_env "service_row list \<Rightarrow> service_row list" DeregisterAgentRequest
  | RcUpsertRelay stmt_env UpsertRelayRequest

fun reg_exec :: "reg_call \<Rightarrow> RegistryServer \<Rightarrow> RegistryServer option" where
  "reg_exec (RcRegister env1 env2 req) srv = map_option snd (RegisterService env1 env2 srv req)"
| "reg_exec (RcDeregister env1 env2 scan req) srv = map_option snd (DeregisterAgent env1 env2 scan srv req)"
| "reg_exec (RcUpsertRelay env req) srv = Some (snd (UpsertRelay env srv req))"

fun reg_call_ok :: "reg_call \<Rightarrow> bool" where
  "reg_call_ok (RcDeregister env1 env2 scan req) \<longleftrightarrow> is_scan scan"
| "reg_call_ok _ \<longleftrightarrow> True"

lemma UpsertRelay_keeps:
  assumes "reg_ok srv"
  shows "reg_ok (snd (UpsertRelay env srv req))" and "simulated srv (snd (UpsertRelay env srv req)) p w"
  using assms
  by (auto simp: UpsertRelay_def store_UpsertRelay_def reg_ok_def store_wf_def canonical_ids_def relays.distinct_upsert
      intro!: simulated_refl split: option.splits)

lemma reg_exec_keeps:
  assumes "reg_ok srv" and "reg_call_ok c"
  shows "\<exists>srv'. reg_exec c srv = Some srv' \<and> reg_ok srv' \<and>
     (\<forall>p w. hub_cfg (rs_hub srv) p = Some w \<longrightarrow> rw_tenant w \<noteq> '''' \<longrightarrow> simulated srv srv' p w)"
proof (cases c)
  case (RcRegister env1 env2 req)
  then show ?thesis using RegisterService_keeps [OF assms(1), of env1 env2 req] by auto
next
  case (RcDeregister env1 env2 scan req)
  then show ?thesis using DeregisterAgent_keeps [OF assms(1), of scan env1 env2 req] assms(2) by auto
next
  case (RcUpsertRelay env req)
  then show ?thesis using UpsertRelay_keeps [OF assms(1), of env req] by auto
qed

text \<open>
  The registry's events explain the store: from a state that satisfies the invariant every
  call is defined (no panic) and keeps the invariant, and for a watcher of a tenant that is still
  registered afterwards, the events queued for it by the call, replayed on what the store said
  before of the service names it asked for, give what the store says now.
\<close>

theorem registry_events_explain_store:
  assumes "reg_ok srv" and "reg_call_ok c" and "hub_cfg (rs_hub srv) p = Some w" and "rw_tenant w \<noteq> ''''"
  shows "\<exists>srv'. reg_exec c srv = Some srv' \<and> reg_ok srv' \<and>
     (hub_live (rs_hub srv') p \<longrightarrow>
        (\<exists>evs. hub_pending (rs_hub srv') p = hub_pending (rs_hub srv) p @ evs \<and>
               service_view (rs_store srv') w = fold svc_step evs (service_view (rs_store srv) w)))"
  using reg_exec_keeps [OF assms(1,2)] assms(3,4) by (auto simp: simulated_def)

definition demo_watcher :: reg_watcher where
  "demo_watcher = \<lparr>rw_id = 1, rw_tenant = ''acme'', rw_filter = []\<rparr>"

definition demo_reg :: RegistryServer where
  "demo_reg = (registry_New empty_store)\<lparr>rs_hub := snd (hub_join demo_watcher new_hub)\<rparr>"

definition demo_req :: RegisterServiceRequest where
  "demo_req = \<lparr>rsr_Tenant = ''acme'', rsr_ServiceName = ''pay'', rsr_AgentUri = ''a1'', rsr_RelayId = ''r1'', rsr_LocalAddr = ''''\<rparr>"

lemma demo_reg_ok: "reg_ok demo_reg" "hub_cfg (rs_hub demo_reg) 0 = Some demo_watcher"
  "hub_live (rs_hub demo_reg) 0" "rw_tenant demo_watcher \<noteq> ''''" "rw_filter demo_watcher = []"
proof -
  have "hub_join demo_watcher new_hub = (0, snd (hub_join demo_watcher new_hub))"
    by (simp add: hub_join_eq) (simp add: new_hub_def)
  then show "reg_ok demo_reg" "hub_cfg (rs_hub demo_reg) 0 = Some demo_watcher" "hub_live (rs_hub demo_reg) 0"
    "rw_tenant demo_watcher \<noteq> ''''" "rw_filter demo_watcher = []"
    using hub_wf_join [OF hub_wf_new, of demo_watcher]
    by (simp_all add: demo_reg_def reg_ok_def registry_New_def store_wf_def canonical_ids_def empty_store_def
        hub_cfg_def hub_live_def hub_join_eq) (simp_all add: new_hub_def demo_watcher_def)
qed

theorem registry_events_explain_store_witness:
  "\<exists>srv'. reg_exec (RcRegister (ok_env 1) (ok_env 2) demo_req) demo_reg = Some srv' \<and> reg_ok srv'"
  using registry_events_explain_store [OF demo_reg_ok(1) _ demo_reg_ok(2,4), of "RcRegister (ok_env 1) (ok_env 2) demo_req"]
  by (simp del: reg_exec.simps) blast

interpretation registry_feed:
  event_feed hub_wf hub_live hub_cfg hub_pending watch_cap registry_wants "hub_exec registry_wants"
  by (rule hub_event_feed)

lemma hub_wf_Watch: "hub_wf (rs_hub srv) \<Longrightarrow> hub_wf (rs_hub (snd (registry_Watch req srv)))"
proof -
  assume "hub_wf (rs_hub srv)"
  then have "hub_wf (snd (next_watch_id (rs_hub srv)))" by (auto simp: next_watch_id_def hub_wf_def Let_def)
  from hub_wf_join [OF this] show ?thesis
    by (simp add: registry_Watch_def next_watch_id_def Let_def split: prod.splits) (metis snd_conv)
qed

text \<open>
  C12. Drops of the registry's Watch are not silent: whatever follows its registration, a watcher
  has received and has queued exactly the events of its tenant and names, in order, while it is
  registered; a session that is no longer registered and has drained its queue returns the
  slow-consumer error at its next turn unless its client has gone.
\<close>

theorem registry_drops_not_silent:
  assumes "hub_wf (rs_hub srv)" and "registry_Watch req srv = (se, srv0)"
    and "feed_run (hub_exec registry_wants) ops (rs_hub srv0) = Some h'"
  shows "\<exists>lost. feed_log registry_wants
             \<lparr>rw_id = hub_nextWatch (rs_hub srv) + 1, rw_tenant = wr_Tenant req, rw_filter = nameSet (wr_ServiceNames req)\<rparr> ops =
           feed_got (hub_exec registry_wants) hub_pending (rg_ptr se) ops (rs_hub srv0) @ hub_pending h' (rg_ptr se) @ lost \<and>
           (hub_live h' (rg_ptr se) \<longrightarrow> lost = []) \<and>
           (\<not> hub_live h' (rg_ptr se) \<longrightarrow> hub_pending h' (rg_ptr se) = [] \<longrightarrow> io \<noteq> RCtxDone \<longrightarrow>
              map_option (rg_pc \<circ> fst) (registry_Watch_step io se (srv0\<lparr>rs_hub := h'\<rparr>))
                = Some (RDone (Some reg_watcher_dropped)))"
proof -
  let ?w = "\<lparr>rw_id = hub_nextWatch (rs_hub srv) + 1, rw_tenant = wr_Tenant req, rw_filter = nameSet (wr_ServiceNames req)\<rparr>"
  define h where "h = snd (next_watch_id (rs_hub srv))"
  have wf: "hub_wf h" using assms(1) by (auto simp: h_def next_watch_id_def hub_wf_def Let_def)
  have se: "se = \<lparr>rg_ptr = hub_alloc h, rg_pc = RLive, rg_sent = []\<rparr>" and hub0: "rs_hub srv0 = snd (hub_join ?w h)"
    using assms(2) hub_join_eq [OF wf, of ?w]
    by (auto simp: registry_Watch_def next_watch_id_def h_def Let_def split: prod.splits)
  have wf0: "hub_wf (rs_hub srv0)" using wf by (simp add: hub0 hub_wf_join)
  have p0: "hub_cfg (rs_hub srv0) (rg_ptr se) = Some ?w" "hub_live (rs_hub srv0) (rg_ptr se)"
    "hub_pending (rs_hub srv0) (rg_ptr se) = []"
    by (simp_all add: hub0 se hub_join_eq [OF wf] hub_cfg_def hub_live_def hub_pending_def make_chan_def)
  from registry_feed.no_silent_gap [OF wf0 p0(1,2), of ops] p0(3) assms(3) obtain lost where
    g: "feed_log registry_wants ?w ops = feed_got (hub_exec registry_wants) hub_pending (rg_ptr se) ops (rs_hub srv0) @
          hub_pending h' (rg_ptr se) @ lost" "hub_live h' (rg_ptr se) \<longrightarrow> lost = []" "hub_wf h'"
    by auto
  have "hub_cfg h' (rg_ptr se) = Some ?w" using registry_feed.cfg_run [OF wf0 p0(1) assms(3)] .
  then obtain c where m: "hub_mem h' (rg_ptr se) = Some (?w, c)" by (auto simp: hub_cfg_def)
  have "map_option (rg_pc \<circ> fst) (registry_Watch_step io se (srv0\<lparr>rs_hub := h'\<rparr>)) = Some (RDone (Some reg_watcher_dropped))"
    if d: "\<not> hub_live h' (rg_ptr se)" "hub_pending h' (rg_ptr se) = []" "io \<noteq> RCtxDone"
  proof -
    have "ch_closed c" "ch_buf c = []" using g(3) m d by (auto simp: hub_wf_def hub_live_def hub_pending_def)
    then show ?thesis using m d removeWatcher_eq [OF g(3), of "rg_ptr se"]
      by (auto simp: registry_Watch_step_def registry_Watch_return_def hub_recv_def chan_recv_def se)
  qed
  with g show ?thesis by blast
qed

definition demo_watch_req :: WatchRequest where
  "demo_watch_req = \<lparr>wr_Tenant = ''acme'', wr_ServiceNames = [''pay'']\<rparr>"

theorem registry_drops_not_silent_witness:
  "\<exists>se srv0 h' lost. registry_Watch demo_watch_req (registry_New empty_store) = (se, srv0) \<and>
     feed_run (hub_exec registry_wants) [FPublish ''acme'' (register_event ''acme/pay'' demo_req)] (rs_hub srv0) = Some h' \<and>
     [register_event ''acme/pay'' demo_req] =
       feed_got (hub_exec registry_wants) hub_pending (rg_ptr se)
         [FPublish ''acme'' (register_event ''acme/pay'' demo_req)] (rs_hub srv0) @ hub_pending h' (rg_ptr se) @ lost"
proof -
  let ?srv = "registry_New empty_store" and ?ops = "[FPublish ''acme'' (register_event ''acme/pay'' demo_req)]"
  obtain se srv0 where j: "registry_Watch demo_watch_req ?srv = (se, srv0)" by fastforce
  have wf: "hub_wf (rs_hub ?srv)" by (simp add: registry_New_def)
  have "hub_wf (rs_hub srv0)" using hub_wf_Watch [OF wf, of demo_watch_req] j by simp
  then obtain h' where r: "feed_run (hub_exec registry_wants) ?ops (rs_hub srv0) = Some h'"
    using hub_broadcast_safe [of "rs_hub srv0" "registry_wants ''acme'' (register_event ''acme/pay'' demo_req)"
        "register_event ''acme/pay'' demo_req"] by auto
  have "feed_log registry_wants \<lparr>rw_id = hub_nextWatch (rs_hub ?srv) + 1, rw_tenant = wr_Tenant demo_watch_req,
      rw_filter = nameSet (wr_ServiceNames demo_watch_req)\<rparr> ?ops = [register_event ''acme/pay'' demo_req]"
    by (simp add: registry_wants_def demo_watch_req_def nameSet_def demo_req_def)
  then show ?thesis using registry_drops_not_silent [OF wf j r, of RSendOK] j r by metis
qed

lemma bound_row_gone:
  assumes "store_wf s" and "map_option svc_row_binding (table_lookup sv_key (t, n) (st_services s)) = Some (i, a, rl, la)"
  shows "table_lookup sv_key (t, n) (filter (\<lambda>r. \<not> owned_by t a rl r) (st_services s)) = None"
proof -
  obtain r where r: "table_lookup sv_key (t, n) (st_services s) = Some r" "svc_row_binding r = (i, a, rl, la)"
    using assms(2) by auto
  then have "sv_key r = (t, n)" by (auto simp: table_lookup_def find_Some_iff)
  then have "owned_by t a rl r" using r(2) by (simp add: svc_row_binding_def owned_by_def sv_key_def)
  then show ?thesis using r(1) by (simp add: filter_removed_lookup [OF assms(1)])
qed

lemma unlisted:
  assumes "dereg_select env scan s t a rl = Inr removed" and "is_scan scan"
    and "table_lookup sv_key (t, n) (st_services s) = None"
  shows "n \<notin> svc_Name ` set removed"
proof
  assume "n \<in> svc_Name ` set removed"
  then obtain r where "r \<in> set (st_services s)" "owned_by t a rl r" "sv_name r = n"
    using assms(1) by (auto simp: dereg_select_def scan_set [OF assms(2)] to_Service_def split: option.splits)
  with assms(3) show False by (auto simp: table_lookup_def find_None_iff owned_by_def sv_key_def)
qed

text \<open>
  C30. A lost deregistration: the store lists the agent's services and deletes them in two
  statements. A service the agent registers in between is deleted without being on the list, so
  the call that registered it was answered with success, the store does not have it, and a
  watcher was told of its registration and is never told of its removal.
\<close>

theorem deregister_race_loses_event:
  assumes "reg_ok srv" and "dereg_select env1 scan (rs_store srv) t a rl = Inr removed" and "is_scan scan"
    and "RegisterService e1 e2 srv req = Some (Inr i, srv1)"
    and "rsr_Tenant req = t" and "rsr_AgentUri req = a" and "rsr_RelayId req = rl"
    and "table_lookup sv_key (t, rsr_ServiceName req) (st_services (rs_store srv)) = None"
    and "dereg_delete env2 (rs_store srv1) t a rl = (None, s2)"
    and "broadcast_removed removed t (srv1\<lparr>rs_store := s2\<rparr>) = Some srv3"
    and "hub_cfg (rs_hub srv) p = Some w" and "rw_tenant w = t" and "rw_filter w = []" and "hub_live (rs_hub srv3) p"
  shows "service_view (rs_store srv3) w (rsr_ServiceName req) = None \<and>
         (\<exists>evs. hub_pending (rs_hub srv3) p = hub_pending (rs_hub srv) p @ evs \<and>
            fold svc_step evs (service_view (rs_store srv) w) (rsr_ServiceName req) = Some (i, a, rl, rsr_LocalAddr req))"
proof -
  let ?n = "rsr_ServiceName req" and ?ev = "register_event i req"
  have nonempty: "t \<noteq> ''''"
    using assms(4,5) by (auto simp: RegisterService_def split: if_splits)
  have ok1: "reg_ok srv1" using RegisterService_keeps [OF assms(1), of e1 e2 req] assms(4) by auto
  have hw: "hub_wf (rs_hub srv)" and wf: "store_wf (rs_store srv)" using assms(1) by (simp_all add: reg_ok_def)
  obtain s1 where b: "registry_broadcast ?ev t (srv\<lparr>rs_store := s1\<rparr>) = Some srv1" and st1: "rs_store srv1 = s1"
    and row: "map_option svc_row_binding (table_lookup sv_key (t, ?n) (st_services s1)) = Some (i, a, rl, rsr_LocalAddr req)"
    using RegisterService_stored [OF assms(1,4)] assms(5-7) by auto
  have c1: "hub_cfg (rs_hub srv1) p = Some w"
    using b hub_broadcast_effect(2) [OF hw _ assms(11)] by (auto simp: registry_broadcast_def)
  have hw1: "hub_wf (rs_hub (srv1\<lparr>rs_store := s2\<rparr>))" using ok1 by (simp add: reg_ok_def)
  have l1: "hub_live (rs_hub srv1) p" and p3: "hub_pending (rs_hub srv3) p = hub_pending (rs_hub srv1) p @
      filter (\<lambda>ev. registry_wants t ev w) (map deregister_event removed)"
    using broadcast_removed_effect [OF hw1 assms(10) _ assms(14)] c1 by simp_all
  have "registry_wants t ?ev w" using assms(12,13) by (simp add: registry_wants_def)
  then have p1: "hub_pending (rs_hub srv1) p = hub_pending (rs_hub srv) p @ [?ev]"
    using registry_broadcast_effect(3) [OF _ b _ l1] hw assms(11) by simp
  have s2: "s2 = (rs_store srv1)\<lparr>st_services := filter (\<lambda>r. \<not> owned_by t a rl r) (st_services (rs_store srv1))\<rparr>"
    using assms(9) by (auto simp: dereg_delete_def split: option.splits)
  have s3: "rs_store srv3 = s2" using broadcast_removed_safe [OF hw1, of removed t] assms(10) by auto
  have "table_lookup sv_key (t, ?n) (st_services s2) = None"
    unfolding s2 st1 using bound_row_gone [OF _ row] ok1 by (simp add: reg_ok_def st1)
  then have gone: "service_view (rs_store srv3) w ?n = None" by (simp add: service_view_def s3 assms(12))
  have "?n \<notin> svc_Name ` set removed" by (rule unlisted [OF assms(2,3,8)])
  then have "fold svc_step (filter P (map deregister_event removed)) m ?n = m ?n" for P m
    by (force simp: dereg_events_view image_iff)
  then have "fold svc_step (?ev # filter (\<lambda>ev. registry_wants t ev w) (map deregister_event removed))
      (service_view (rs_store srv) w) ?n = Some (i, a, rl, rsr_LocalAddr req)"
    using assms(6,7) by simp
  with gone p1 p3 show ?thesis by (metis append.assoc append_Cons append_Nil)
qed

theorem deregister_race_loses_event_witness:
  "\<exists>srv3 :: RegistryServer. service_view (rs_store srv3) demo_watcher ''pay'' = None \<and>
     (\<exists>evs. hub_pending (rs_hub srv3) 0 = hub_pending (rs_hub demo_reg) 0 @ evs \<and>
        fold svc_step evs (service_view (rs_store demo_reg) demo_watcher) ''pay'' = Some (''acme/pay'', ''a1'', ''r1'', ''''))"
proof -
  have sel: "dereg_select (ok_env 1) id (rs_store demo_reg) ''acme'' ''a1'' ''r1'' = Inr []"
    by (simp add: dereg_select_def ok_env_def demo_reg_def registry_New_def empty_store_def)
  have "\<exists>srv1. RegisterService (ok_env 2) (ok_env 3) demo_reg demo_req = Some (Inr ''acme/pay'', srv1) \<and>
      hub_live (rs_hub srv1) 0"
    by (simp add: registry_wants_def register_event_def demo_watcher_def RegisterService_def demo_req_def demo_reg_def registry_New_def empty_store_def ok_env_def
        UpsertAgent_def store_RegisterService_def service_id_def Let_def registry_broadcast_def hub_broadcast_def
        hub_join_def alloc_watcher_def addWatcher_def new_hub_def make_chan_def deliver_def try_send_def
        watch_cap_def hub_live_def)
  then obtain srv1 where r: "RegisterService (ok_env 2) (ok_env 3) demo_reg demo_req = Some (Inr ''acme/pay'', srv1)"
    and l1: "hub_live (rs_hub srv1) 0" by blast
  obtain s2 where d: "dereg_delete (ok_env 4) (rs_store srv1) ''acme'' ''a1'' ''r1'' = (None, s2)"
    by (simp add: dereg_delete_def ok_env_def)
  have f: "rsr_Tenant demo_req = ''acme''" "rsr_AgentUri demo_req = ''a1''" "rsr_RelayId demo_req = ''r1''"
    "rsr_ServiceName demo_req = ''pay''" "rsr_LocalAddr demo_req = ''''" by (simp_all add: demo_req_def)
  have n: "table_lookup sv_key (''acme'', rsr_ServiceName demo_req) (st_services (rs_store demo_reg)) = None"
    by (simp add: table_lookup_def demo_reg_def registry_New_def empty_store_def)
  have sc: "is_scan (id :: service_row list \<Rightarrow> service_row list)" by (simp add: is_scan_def)
  have bc: "broadcast_removed [] ''acme'' (srv1\<lparr>rs_store := s2\<rparr>) = Some (srv1\<lparr>rs_store := s2\<rparr>)" by simp
  have l: "hub_live (rs_hub (srv1\<lparr>rs_store := s2\<rparr>)) 0" using l1 by simp
  have "rw_tenant demo_watcher = ''acme''" by (simp add: demo_watcher_def)
  from deregister_race_loses_event [OF demo_reg_ok(1) sel sc r f(1-3) n d bc demo_reg_ok(2) this demo_reg_ok(5) l]
  show ?thesis unfolding f(4,5) by blast
qed

end
