(* ===== verification/Audit_Server.thy ===== *)
theory Audit_Server
  imports Store Control Metrics
begin

text \<open>
  The audit service, \<open>pkg/audit/server.go\<close>: it stores one row per decision a relay reports, counts
  the rows in a metric, and answers history queries on a stream.
\<close>

record AuditServer =
  as_store :: Store
  as_reg :: Registry \<comment> \<open>the metrics registry the counter lives in\<close>
  as_eventsCnt :: "nat option"

definition audit_New :: "Store \<Rightarrow> Registry option \<Rightarrow> AuditServer" where
  "audit_New s reg =
     (case reg of
        None \<Rightarrow> \<lparr>as_store = s, as_reg = NewRegistry, as_eventsCnt = None\<rparr>
      | Some r \<Rightarrow>
          (let (p, r) = Registry_Counter ''audit_events_total'' r
           in \<lparr>as_store = s, as_reg = r, as_eventsCnt = Some p\<rparr>))"

definition audit_decisionString :: "Decision \<Rightarrow> string" where
  "audit_decisionString d = (if d = DECISION_DENY then ''deny'' else ''allow'')"

definition audit_decisionPB :: "string \<Rightarrow> Decision" where
  "audit_decisionPB s = (if s = ''deny'' then DECISION_DENY else DECISION_ALLOW)"

definition audit_row_of :: "AuditEvent \<Rightarrow> audit_row" where
  "audit_row_of ev =
     \<lparr>au_ts = ae_TsUnixMs ev, au_tenant = ae_Tenant ev, au_caller = ae_Caller ev, au_target = ae_Target ev,
      au_method = ae_Method ev, au_decision = audit_decisionString (ae_Decision ev), au_reason = ae_Reason ev,
      au_stream_id = ae_StreamId ev\<rparr>"

definition audit_event_of :: "audit_row \<Rightarrow> AuditEvent" where
  "audit_event_of r =
     \<lparr>ae_TsUnixMs = au_ts r, ae_Tenant = au_tenant r, ae_Caller = au_caller r, ae_Target = au_target r,
      ae_Method = au_method r, ae_Decision = audit_decisionPB (au_decision r), ae_Reason = au_reason r,
      ae_StreamId = au_stream_id r\<rparr>"

text \<open>\<open>Record\<close> up to and including the insert, and the count; no lock spans the two.\<close>

definition Record_commit :: "stmt_env \<Rightarrow> AuditServer \<Rightarrow> RecordAuditRequest \<Rightarrow> goerr option \<times> AuditServer" where
  "Record_commit env srv req =
     (case rar_Event req of
        None \<Rightarrow> (Some (Fresh ''audit: event required''), srv)
      | Some ev \<Rightarrow>
          (let (r, s) = RecordAudit env (as_store srv) (audit_row_of ev) in (r, srv\<lparr>as_store := s\<rparr>)))"

definition Record_count :: "AuditServer \<Rightarrow> AuditServer" where
  "Record_count srv =
     (case as_eventsCnt srv of
        None \<Rightarrow> srv
      | Some p \<Rightarrow> srv\<lparr>as_reg := (as_reg srv)\<lparr>reg_c := pool_update p Counter_Inc (reg_c (as_reg srv))\<rparr>\<rparr>)"

definition Record :: "stmt_env \<Rightarrow> AuditServer \<Rightarrow> RecordAuditRequest \<Rightarrow> goerr option \<times> AuditServer" where
  "Record env srv req =
     (case Record_commit env srv req of
        (Some e, srv) \<Rightarrow> (Some e, srv)
      | (None, srv) \<Rightarrow> (None, Record_count srv))"

text \<open>The send loop of \<open>Query\<close>: the result of each \<open>stream.Send\<close> is given by its position.\<close>

fun send_rows :: "(nat \<Rightarrow> goerr option) \<Rightarrow> nat \<Rightarrow> audit_row list \<Rightarrow> AuditEvent list \<Rightarrow> goerr option \<times> AuditEvent list" where
  "send_rows send i [] sent = (None, sent)"
| "send_rows send i (r # rs) sent =
     (case send i of
        Some e \<Rightarrow> (Some e, sent)
      | None \<Rightarrow> send_rows send (i + 1) rs (sent @ [audit_event_of r]))"

definition Query ::
  "stmt_env \<Rightarrow> (audit_row list \<Rightarrow> audit_row list) \<Rightarrow> (nat \<Rightarrow> goerr option) \<Rightarrow> AuditServer \<Rightarrow> QueryAuditRequest
     \<Rightarrow> goerr option \<times> AuditEvent list" where
  "Query env scan send srv req =
     (case QueryAudit env scan (as_store srv) (qar_Tenant req) (qar_Caller req) (qar_Target req)
             (qar_SinceUnixMs req) (qar_Limit req) of
        Inl e \<Rightarrow> (Some e, [])
      | Inr rows \<Rightarrow> send_rows send 0 rows [])"

subsection \<open>Properties\<close>

lemma send_rows_sent:
  "\<exists>k \<le> length rs. snd (send_rows send i rs sent) = sent @ map audit_event_of (take k rs) \<and>
     fst (send_rows send i rs sent) = (if k < length rs then send (i + k) else None) \<and> (k < length rs \<longrightarrow> send (i + k) \<noteq> None)"
proof (induction rs arbitrary: i sent)
  case (Cons r rs)
  show ?case
  proof (cases "send i")
    case None
    obtain k where k: "k \<le> length rs"
      "snd (send_rows send (i + 1) rs (sent @ [audit_event_of r])) = (sent @ [audit_event_of r]) @ map audit_event_of (take k rs)"
      "fst (send_rows send (i + 1) rs (sent @ [audit_event_of r])) = (if k < length rs then send (i + 1 + k) else None)"
      "k < length rs \<longrightarrow> send (i + 1 + k) \<noteq> None"
      using Cons.IH by blast
    have step: "send_rows send i (r # rs) sent = send_rows send (i + 1) rs (sent @ [audit_event_of r])"
      using None by simp
    show ?thesis unfolding step using k by (intro exI [of _ "Suc k"]) auto
  next
    case (Some e)
    then show ?thesis by (intro exI [of _ 0]) simp
  qed
qed simp

definition counter_at :: "AuditServer \<Rightarrow> int option" where
  "counter_at srv = Option.bind (as_eventsCnt srv) (\<lambda>p. map_option counter_v (pool_objs (reg_c (as_reg srv)) p))"

lemma Record_effect:
  assumes "Record env srv req = (r, srv')"
  shows "as_eventsCnt srv' = as_eventsCnt srv"
    and "r \<noteq> None \<Longrightarrow> srv' = srv"
    and "r = None \<Longrightarrow> \<exists>row. st_audit (as_store srv') = st_audit (as_store srv) @ [row]"
    and "r = None \<Longrightarrow> counter_at srv' = map_option (\<lambda>v. i64 (v + 1)) (counter_at srv)"
  using assms
  by (auto simp: Record_def Record_commit_def Record_count_def RecordAudit_def Let_def counter_at_def pool_update_def Counter_Inc_def Counter_Add_def
      option.map_comp comp_def split: option.splits prod.splits if_splits)

definition record_all :: "(stmt_env \<times> RecordAuditRequest) list \<Rightarrow> AuditServer \<Rightarrow> AuditServer" where
  "record_all calls srv = fold (\<lambda>(env, req) srv. snd (Record env srv req)) calls srv"

lemma record_all_counts:
  assumes "counter_at srv = Some (i64 v)"
  shows "counter_at (record_all calls srv) =
    Some (i64 (v + int (length (st_audit (as_store (record_all calls srv)))) - int (length (st_audit (as_store srv)))))"
  using assms
proof (induction calls arbitrary: srv v)
  case (Cons c calls)
  obtain env req where c: "c = (env, req)" by (cases c)
  obtain r srv1 where rec: "Record env srv req = (r, srv1)" by fastforce
  note eff = Record_effect [OF rec]
  have run: "record_all (c # calls) srv = record_all calls srv1" by (simp add: record_all_def c rec)
  show ?case
  proof (cases r)
    case None
    then obtain row where row: "st_audit (as_store srv1) = st_audit (as_store srv) @ [row]" using eff(3) by blast
    have "counter_at srv1 = Some (i64 (v + 1))" using eff(4) None Cons.prems by simp
    from Cons.IH [OF this] show ?thesis by (simp add: run row algebra_simps)
  next
    case (Some e)
    then show ?thesis using eff(2) Cons run by simp
  qed
qed (simp add: record_all_def)

text \<open>
  The audit counter is exact: for a server made with a fresh metrics registry on a store
  with no audit rows, after any sequence of Record calls, failed ones included, the metric
  \<open>audit_events_total\<close> is the number of stored audit rows (up to the wrap-around of int64).
\<close>

theorem audit_counter_exact:
  assumes "st_audit s = []"
  shows "counter_at (record_all calls (audit_New s (Some NewRegistry))) =
           Some (i64 (int (length (st_audit (as_store (record_all calls (audit_New s (Some NewRegistry))))))))"
proof -
  let ?srv = "audit_New s (Some NewRegistry)"
  have "counter_at ?srv = Some (i64 0)" and "as_store ?srv = s"
    by (simp_all add: audit_New_def counter_at_def Registry_Counter_def NewRegistry_def new_pool_def pool_find_def
        counter_under_lock_def pool_ensure_def i64_def)
  then show ?thesis using record_all_counts [of ?srv 0 calls] assms by simp
qed

definition demo_event :: AuditEvent where
  "demo_event = \<lparr>ae_TsUnixMs = 7, ae_Tenant = ''acme'', ae_Caller = ''c'', ae_Target = ''x'', ae_Method = '''',
     ae_Decision = DECISION_DENY, ae_Reason = '''', ae_StreamId = ''s''\<rparr>"

theorem audit_counter_exact_witness:
  "counter_at (record_all [(ok_env 1, \<lparr>rar_Event = Some demo_event\<rparr>), (ok_env 2, \<lparr>rar_Event = None\<rparr>)]
     (audit_New empty_store (Some NewRegistry))) = Some 1"
  using audit_counter_exact [of empty_store "[(ok_env 1, \<lparr>rar_Event = Some demo_event\<rparr>), (ok_env 2, \<lparr>rar_Event = None\<rparr>)]"]
  by (simp add: empty_store_def record_all_def Record_def Record_commit_def Record_count_def RecordAudit_def ok_env_def audit_New_def Registry_Counter_def
      NewRegistry_def new_pool_def pool_find_def counter_under_lock_def pool_ensure_def Let_def i64_def)

text \<open>
  C25. A recorded decision comes back: a Record that succeeds for an event with a time stamp and a
  named decision is answered by an unlimited query of its tenant from its time stamp on, whose
  sends succeed, with an event equal to the one recorded, and the answer is in order of
  descending time. A query one of whose sends fails has sent the part of that answer before it
  and returns the error of that send; a query whose sends succeed has sent all of it.
\<close>

theorem audit_record_then_query:
  assumes "Record env srv \<lparr>rar_Event = Some ev\<rparr> = (None, srv')" and "ae_TsUnixMs ev \<noteq> 0"
    and "ae_Decision ev = DECISION_ALLOW \<or> ae_Decision ev = DECISION_DENY"
    and "is_scan scan" and "env_fail env' = None"
    and "req = \<lparr>qar_Tenant = ae_Tenant ev, qar_Caller = '''', qar_Target = '''', qar_SinceUnixMs = ae_TsUnixMs ev, qar_Limit = 0\<rparr>"
  shows "(fst (Query env' scan send srv' req) = None \<longrightarrow>
            ev \<in> set (snd (Query env' scan send srv' req)) \<and>
            sorted (map (\<lambda>e. - ae_TsUnixMs e) (snd (Query env' scan send srv' req)))) \<and>
         (\<exists>k. let answer = snd (Query env' scan (\<lambda>_. None) srv' req) in
            snd (Query env' scan send srv' req) = take k answer \<and>
            (if k < length answer then \<exists>e. send k = Some e \<and> fst (Query env' scan send srv' req) = Some e
             else fst (Query env' scan send srv' req) = None))"
proof -
  define rows where "rows = sort_key (\<lambda>r. - au_ts r)
      (scan (filter (audit_where (ae_Tenant ev) '''' '''' (ae_TsUnixMs ev)) (st_audit (as_store srv'))))"
  have q: "Query env' scan f srv' req = send_rows f 0 rows []" for f
    using assms(5,6) by (simp add: Query_def QueryAudit_def rows_def Let_def)
  have row: "audit_row_of ev \<in> set (st_audit (as_store srv'))"
    using assms(1,2) by (auto simp: Record_def Record_commit_def Record_count_def RecordAudit_def Let_def audit_row_of_def split: option.splits prod.splits if_splits)
  have "set rows = set (filter (audit_where (ae_Tenant ev) '''' '''' (ae_TsUnixMs ev)) (st_audit (as_store srv')))"
    unfolding rows_def set_sort using assms(4) by (metis is_scan_def mset_eq_setD)
  then have "audit_row_of ev \<in> set rows" using row by (auto simp: audit_where_def audit_row_of_def)
  moreover have "audit_event_of (audit_row_of ev) = ev"
    using assms(3) by (auto simp: audit_event_of_def audit_row_of_def audit_decisionPB_def audit_decisionString_def)
  ultimately have mem: "ev \<in> set (map audit_event_of rows)" by (force simp del: set_map simp: set_map image_iff)
  have srt: "sorted (map (\<lambda>e. - ae_TsUnixMs e) (map audit_event_of rows))"
    by (simp add: comp_def audit_event_of_def rows_def)
  obtain k where k: "k \<le> length rows" "snd (send_rows send 0 rows []) = map audit_event_of (take k rows)"
    "fst (send_rows send 0 rows []) = (if k < length rows then send k else None)" "k < length rows \<longrightarrow> send k \<noteq> None"
    using send_rows_sent [of rows send 0 "[]"] unfolding append_Nil add_0_left by blast
  have full: "snd (send_rows (\<lambda>_. None) 0 rows []) = map audit_event_of rows"
  proof -
    obtain m where "m \<le> length rows" "\<not> m < length rows" "snd (send_rows (\<lambda>_. None) 0 rows []) = map audit_event_of (take m rows)"
      using send_rows_sent [of rows "\<lambda>_. None" 0 "[]"] by auto
    then show ?thesis by simp
  qed
  show ?thesis
  proof (intro conjI impI)
    assume "fst (Query env' scan send srv' req) = None"
    then have "k = length rows" using k by (auto simp: q split: if_splits)
    then show "ev \<in> set (snd (Query env' scan send srv' req))"
      "sorted (map (\<lambda>e. - ae_TsUnixMs e) (snd (Query env' scan send srv' req)))"
      using mem srt by (simp_all add: q k(2))
  qed (rule exI [of _ k], use k in \<open>auto simp: q full Let_def take_map\<close>)
qed

theorem audit_record_then_query_witness:
  "demo_event \<in> set (snd (Query (ok_env 2) id (\<lambda>_. None)
      (snd (Record (ok_env 1) (audit_New empty_store None) \<lparr>rar_Event = Some demo_event\<rparr>))
      \<lparr>qar_Tenant = ''acme'', qar_Caller = '''', qar_Target = '''', qar_SinceUnixMs = 7, qar_Limit = 0\<rparr>))"
proof -
  let ?r = "Record (ok_env 1) (audit_New empty_store None) \<lparr>rar_Event = Some demo_event\<rparr>"
  let ?q = "\<lparr>qar_Tenant = ''acme'', qar_Caller = '''', qar_Target = '''', qar_SinceUnixMs = 7, qar_Limit = 0\<rparr>"
  have r: "?r = (None, snd ?r)"
    by (simp add: Record_def Record_commit_def Record_count_def RecordAudit_def ok_env_def audit_New_def empty_store_def Let_def)
  have "fst (Query (ok_env 2) id (\<lambda>_. None) (snd ?r) ?q) = None"
    by (simp add: Record_def Record_commit_def Record_count_def RecordAudit_def ok_env_def audit_New_def empty_store_def Let_def Query_def QueryAudit_def
        audit_where_def audit_row_of_def demo_event_def)
  then show ?thesis
    using audit_record_then_query [OF r, of id "ok_env 2" ?q "\<lambda>_. None"]
    by (simp add: demo_event_def is_scan_def ok_env_def)
qed

text \<open>An event without a decision is stored, and read back, as an allowed one.\<close>

lemma audit_unspecified_reads_allow:
  "ae_Decision ev = DECISION_UNSPECIFIED \<Longrightarrow> ae_Decision (audit_event_of (audit_row_of ev)) = DECISION_ALLOW"
  by (simp add: audit_event_of_def audit_row_of_def audit_decisionPB_def audit_decisionString_def)

end
