(* ===== verification/Cli.thy ===== *)
theory Cli
  imports Control Flags
begin

text \<open>
  The operator's command line, \<open>cmd/outrelay-cli/main.go\<close>. The program is a function from its
  arguments to what it does: it ends with the lines it prints and its exit status, or it makes one
  call of the controller and goes on with the answer. Arguments are ASCII. The clock, the rendering
  of times (\<open>Format(time.RFC3339)\<close>) and of quoted strings (\<open>%q\<close>) and what \<open>grpc.NewClient\<close> returns for an
  address are parameters.
\<close>

subsection \<open>Text\<close>

definition lower_char :: "char \<Rightarrow> char" where
  "lower_char c = (if 65 \<le> (of_char c :: nat) \<and> (of_char c :: nat) \<le> 90 then char_of ((of_char c :: nat) + 32) else c)"

definition ToLower :: "string \<Rightarrow> string" where
  "ToLower s = map lower_char s"

definition EqualFold :: "string \<Rightarrow> string \<Rightarrow> bool" where
  "EqualFold s t \<longleftrightarrow> ToLower s = ToLower t"

subsection \<open>Modes\<close>

definition parseP2PMode :: "string \<Rightarrow> P2PMode \<times> bool" where
  "parseP2PMode s =
     (let w = ToLower (TrimSpace s) in
      if w \<in> set ['''', ''allowed'', ''allow'', ''p2p_allowed''] then (P2P_ALLOWED, True)
      else if w \<in> set [''forbidden'', ''forbid'', ''deny'', ''p2p_forbidden''] then (P2P_FORBIDDEN, True)
      else if w \<in> set [''required'', ''require'', ''p2p_required''] then (P2P_REQUIRED, True)
      else (P2P_ALLOWED, False))"

fun cli_p2pModeString :: "P2PMode \<Rightarrow> string" where
  "cli_p2pModeString P2P_FORBIDDEN = ''forbidden''"
| "cli_p2pModeString P2P_REQUIRED = ''required''"
| "cli_p2pModeString _ = ''allowed''"

definition parseRelayMode :: "string \<Rightarrow> RelayMode \<times> bool" where
  "parseRelayMode s =
     (let w = ToLower (TrimSpace s) in
      if w \<in> set ['''', ''splice'', ''relay_mode_splice''] then (RELAY_MODE_SPLICE, True)
      else if w \<in> set [''forward'', ''relay_mode_forward''] then (RELAY_MODE_FORWARD, True)
      else (RELAY_MODE_SPLICE, False))"

definition cli_relayModeString :: "RelayMode \<Rightarrow> string" where
  "cli_relayModeString m = (if m = RELAY_MODE_FORWARD then ''forward'' else ''splice'')"

subsection \<open>Commands\<close>

text \<open>What a command did: the lines on standard output and on standard error, and the exit status.\<close>

record outcome =
  oc_stdout :: "string list"
  oc_stderr :: "string list"
  oc_status :: nat

text \<open>The lines of \<open>usage\<close>; the dash of the first line is its three UTF-8 bytes.\<close>

definition usage_text :: "string list" where
  "usage_text =
     [''outrelay-cli '' @ map char_of [226, 128, 148 :: nat] @ '' operator interface to outrelay-controller'',
      '''',
      ''  outrelay-cli policy add    --tenant T --caller P --target P [--method P] --decision allow|deny [--expires DURATION] [--p2p-mode allowed|forbidden|required] [--relay-mode splice|forward]'',
      ''  outrelay-cli policy list   --tenant T'',
      ''  outrelay-cli policy remove --tenant T --id ID'',
      ''  outrelay-cli audit  query  --tenant T [--caller P] [--target P] [--since DUR] [--limit N]'',
      '''',
      ''Common flags:'',
      ''  --controller HOST:PORT   default 127.0.0.1:7444'']"

definition fails :: "nat \<Rightarrow> string list \<Rightarrow> outcome" where
  "fails st lines = \<lparr>oc_stdout = [], oc_stderr = lines, oc_status = st\<rparr>"

definition prints :: "string list \<Rightarrow> outcome" where
  "prints lines = \<lparr>oc_stdout = lines, oc_stderr = [], oc_status = 0\<rparr>"

record add_flags =
  af_tenant :: string
  af_caller :: string
  af_target :: string
  af_method :: string
  af_decision :: string
  af_expires :: int \<comment> \<open>nanoseconds\<close>
  af_p2pMode :: string
  af_relayMode :: string

definition ns_to_ms :: "int \<Rightarrow> int" where "ns_to_ms ns = ns div 1000000"

text \<open>The checks of \<open>policyAdd\<close> and the request it sends; \<open>now\<close> is in nanoseconds.\<close>

definition policyAdd_request :: "int \<Rightarrow> add_flags \<Rightarrow> outcome + AddPolicyRequest" where
  "policyAdd_request now f =
     (if af_tenant f = '''' \<or> af_caller f = '''' \<or> af_target f = '''' \<or> af_decision f = ''''
      then Inl (fails 2 [''policy add: missing required flag''])
      else
        (let dec = (if EqualFold (af_decision f) ''deny'' then DECISION_DENY else DECISION_ALLOW);
             (p2p, ok) = parseP2PMode (af_p2pMode f)
         in if \<not> ok then Inl (fails 2 [''policy add: invalid --p2p-mode (allowed|forbidden|required)''])
            else
              (let (rm, ok) = parseRelayMode (af_relayMode f) in
               if \<not> ok then Inl (fails 2 [''policy add: invalid --relay-mode (splice|forward)''])
               else
                 (let expiresMs = (if af_expires f > 0 then ns_to_ms (now + af_expires f) else 0) in
                  Inr \<lparr>apr_Rule = Some
                     \<lparr>pr_Id = '''', pr_Tenant = af_tenant f, pr_CallerPattern = af_caller f,
                      pr_TargetPattern = af_target f, pr_MethodPattern = af_method f, pr_Decision = dec,
                      pr_ExpiresUnixMs = expiresMs, pr_CreatedAtUnixMs = 0, pr_P2PMode = p2p, pr_RelayMode = rm\<rparr>\<rparr>))))"

text \<open>
  What the program does next: it is over, or it has called the controller at an address. The rest of
  the program is a function of the answer; \<open>Inl\<close> is the text of an error. The answer to a query is the
  events of its stream and how the stream ends.
\<close>

datatype cli_step =
    Over outcome
  | CallAdd string AddPolicyRequest "string + string \<Rightarrow> outcome"
  | CallList string string "string + PolicyRule list \<Rightarrow> outcome"
  | CallRemove string RemovePolicyRequest "string + bool \<Rightarrow> outcome"
  | CallQuery string QueryAuditRequest "string + AuditEvent list \<times> string option \<Rightarrow> outcome"

record cli_env =
  ce_now :: int
  ce_rfc3339 :: "ms \<Rightarrow> string"
  ce_quote :: "string \<Rightarrow> string"
  ce_frac :: "nat \<Rightarrow> nat \<Rightarrow> nat \<Rightarrow> nat"
  ce_NewClient :: "string \<Rightarrow> string option" \<comment> \<open>the error for an address\<close>

definition parsing :: "cli_env \<Rightarrow> FlagSet \<Rightarrow> string list \<Rightarrow> (flag_vals \<Rightarrow> cli_step) \<Rightarrow> cli_step" where
  "parsing e fs args k =
     (case FlagSet_Parse (ce_frac e) (ce_quote e) fs args of
        Inl (st, err) \<Rightarrow> Over (fails st err)
      | Inr (vs, _) \<Rightarrow> k vs)"

definition dial :: "cli_env \<Rightarrow> string \<Rightarrow> cli_step \<Rightarrow> cli_step" where
  "dial e addr k = (case ce_NewClient e addr of Some err \<Rightarrow> Over (fails 1 [''dial: '' @ err]) | None \<Rightarrow> k)"

definition controller_flag :: Flag where
  "controller_flag = String_flag ''controller'' ''127.0.0.1:7444'' ''controller address''"

definition policyAdd_flags :: FlagSet where
  "policyAdd_flags = \<lparr>fs_name = ''policy add'', fs_flags =
     [controller_flag,
      String_flag ''tenant'' '''' ''tenant'',
      String_flag ''caller'' '''' ''caller pattern'',
      String_flag ''target'' '''' ''target pattern'',
      String_flag ''method'' '''' ''method pattern (optional)'',
      String_flag ''decision'' '''' ''allow | deny'',
      Duration_flag ''expires'' ''TTL from now (e.g. 24h); 0 = never'',
      String_flag ''p2p-mode'' '''' ''allowed | forbidden | required (default: allowed)'',
      String_flag ''relay-mode'' '''' ''splice | forward (default: splice)'']\<rparr>"

definition add_flags_of :: "flag_vals \<Rightarrow> add_flags" where
  "add_flags_of vs =
     \<lparr>af_tenant = str_of vs ''tenant'', af_caller = str_of vs ''caller'', af_target = str_of vs ''target'',
      af_method = str_of vs ''method'', af_decision = str_of vs ''decision'', af_expires = dur_of vs ''expires'',
      af_p2pMode = str_of vs ''p2p-mode'', af_relayMode = str_of vs ''relay-mode''\<rparr>"

fun add_answer :: "string + string \<Rightarrow> outcome" where
  "add_answer (Inl err) = fails 1 [''error: '' @ err]"
| "add_answer (Inr i) = prints [i]"

definition policyAdd :: "cli_env \<Rightarrow> string list \<Rightarrow> cli_step" where
  "policyAdd e args = parsing e policyAdd_flags args (\<lambda>vs.
     case policyAdd_request (ce_now e) (add_flags_of vs) of
       Inl out \<Rightarrow> Over out
     | Inr req \<Rightarrow> dial e (str_of vs ''controller'') (CallAdd (str_of vs ''controller'') req add_answer))"

definition tab :: string where "tab = [char_of (9 :: nat)]"

definition decision_word :: "Decision \<Rightarrow> string" where
  "decision_word d = (if d = DECISION_DENY then ''deny'' else ''allow'')"

definition policy_line :: "(ms \<Rightarrow> string) \<Rightarrow> (string \<Rightarrow> string) \<Rightarrow> PolicyRule \<Rightarrow> string" where
  "policy_line rfc3339 quote r =
     (let expires = (if pr_ExpiresUnixMs r > 0 then rfc3339 (pr_ExpiresUnixMs r) else ''-'') in
      pr_Id r @ tab @ pr_CallerPattern r @ '' -> '' @ pr_TargetPattern r @ '' ('' @ decision_word (pr_Decision r) @ '')'' @
      tab @ ''method='' @ quote (pr_MethodPattern r) @ tab @ ''p2p='' @ cli_p2pModeString (pr_P2PMode r) @
      tab @ ''relay='' @ cli_relayModeString (pr_RelayMode r) @ tab @ ''expires='' @ expires)"

definition policyList_flags :: FlagSet where
  "policyList_flags = \<lparr>fs_name = ''policy list'', fs_flags = [controller_flag, String_flag ''tenant'' '''' ''tenant'']\<rparr>"

fun list_answer :: "(ms \<Rightarrow> string) \<Rightarrow> (string \<Rightarrow> string) \<Rightarrow> string + PolicyRule list \<Rightarrow> outcome" where
  "list_answer rfc3339 quote (Inl err) = fails 1 [''error: '' @ err]"
| "list_answer rfc3339 quote (Inr rules) = prints (map (policy_line rfc3339 quote) rules)"

definition policyList :: "cli_env \<Rightarrow> string list \<Rightarrow> cli_step" where
  "policyList e args = parsing e policyList_flags args (\<lambda>vs.
     if str_of vs ''tenant'' = '''' then Over (fails 2 [''policy list: --tenant required''])
     else dial e (str_of vs ''controller'')
            (CallList (str_of vs ''controller'') (str_of vs ''tenant'') (list_answer (ce_rfc3339 e) (ce_quote e))))"

definition policyRemove_flags :: FlagSet where
  "policyRemove_flags = \<lparr>fs_name = ''policy remove'', fs_flags =
     [controller_flag, String_flag ''tenant'' '''' ''tenant'', String_flag ''id'' '''' ''policy id'']\<rparr>"

fun remove_answer :: "string + bool \<Rightarrow> outcome" where
  "remove_answer (Inl err) = fails 1 [''error: '' @ err]"
| "remove_answer (Inr removed) = (if \<not> removed then fails 1 [''no such policy''] else prints [''removed''])"

definition policyRemove :: "cli_env \<Rightarrow> string list \<Rightarrow> cli_step" where
  "policyRemove e args = parsing e policyRemove_flags args (\<lambda>vs.
     if str_of vs ''tenant'' = '''' \<or> str_of vs ''id'' = '''' then Over (fails 2 [''policy remove: --tenant and --id required''])
     else dial e (str_of vs ''controller'')
            (CallRemove (str_of vs ''controller'') \<lparr>rpr_Tenant = str_of vs ''tenant'', rpr_Id = str_of vs ''id''\<rparr> remove_answer))"

definition policyMain :: "cli_env \<Rightarrow> string list \<Rightarrow> cli_step" where
  "policyMain e args =
     (case args of
        [] \<Rightarrow> Over (fails 2 usage_text)
      | sub # rest \<Rightarrow>
          if sub = ''add'' then policyAdd e rest
          else if sub = ''list'' then policyList e rest
          else if sub = ''remove'' then policyRemove e rest
          else Over (fails 2 usage_text))"

record query_flags =
  qf_tenant :: string
  qf_caller :: string
  qf_target :: string
  qf_since :: int
  qf_limit :: int

definition MaxInt32 :: int where "MaxInt32 = 2 ^ 31 - 1"

definition i32 :: "int \<Rightarrow> int" where "i32 x = (x + 2 ^ 31) mod 2 ^ 32 - 2 ^ 31"

definition auditQuery_request :: "int \<Rightarrow> query_flags \<Rightarrow> QueryAuditRequest" where
  "auditQuery_request now f =
     \<lparr>qar_Tenant = qf_tenant f, qar_Caller = qf_caller f, qar_Target = qf_target f,
      qar_SinceUnixMs = (if qf_since f > 0 then ns_to_ms (now - qf_since f) else 0),
      qar_Limit = i32 (min (qf_limit f) MaxInt32)\<rparr>"

definition audit_line :: "(ms \<Rightarrow> string) \<Rightarrow> (string \<Rightarrow> string) \<Rightarrow> AuditEvent \<Rightarrow> string" where
  "audit_line rfc3339 quote ev =
     rfc3339 (ae_TsUnixMs ev) @ tab @ decision_word (ae_Decision ev) @ tab @ ae_Caller ev @ '' -> '' @ ae_Target ev @
     '' '' @ quote (ae_Method ev) @ tab @ ae_Reason ev"

text \<open>The receive loop: the events of the stream, then its end (None) or its error.\<close>

fun recv_loop :: "(ms \<Rightarrow> string) \<Rightarrow> (string \<Rightarrow> string) \<Rightarrow> AuditEvent list \<Rightarrow> string option \<Rightarrow> string list \<Rightarrow> outcome" where
  "recv_loop rfc3339 quote [] None printed = prints printed"
| "recv_loop rfc3339 quote [] (Some err) printed =
     \<lparr>oc_stdout = printed, oc_stderr = [''stream: '' @ err], oc_status = 1\<rparr>"
| "recv_loop rfc3339 quote (ev # evs) e printed = recv_loop rfc3339 quote evs e (printed @ [audit_line rfc3339 quote ev])"

definition auditQuery_flags :: FlagSet where
  "auditQuery_flags = \<lparr>fs_name = ''audit query'', fs_flags =
     [controller_flag,
      String_flag ''tenant'' '''' ''tenant'',
      String_flag ''caller'' '''' ''filter by caller (exact)'',
      String_flag ''target'' '''' ''filter by target (exact)'',
      Duration_flag ''since'' ''filter to events newer than now-DUR'',
      Int_flag ''limit'' 100 ''max events'']\<rparr>"

definition query_flags_of :: "flag_vals \<Rightarrow> query_flags" where
  "query_flags_of vs =
     \<lparr>qf_tenant = str_of vs ''tenant'', qf_caller = str_of vs ''caller'', qf_target = str_of vs ''target'',
      qf_since = dur_of vs ''since'', qf_limit = int_of_flag vs ''limit''\<rparr>"

fun query_answer :: "(ms \<Rightarrow> string) \<Rightarrow> (string \<Rightarrow> string) \<Rightarrow> string + AuditEvent list \<times> string option \<Rightarrow> outcome" where
  "query_answer rfc3339 quote (Inl err) = fails 1 [''error: '' @ err]"
| "query_answer rfc3339 quote (Inr (evs, err)) = recv_loop rfc3339 quote evs err []"

definition auditMain :: "cli_env \<Rightarrow> string list \<Rightarrow> cli_step" where
  "auditMain e args =
     (case args of
        [] \<Rightarrow> Over (fails 2 usage_text)
      | verb # rest \<Rightarrow>
          if verb \<noteq> ''query'' then Over (fails 2 usage_text)
          else parsing e auditQuery_flags rest (\<lambda>vs.
            if str_of vs ''tenant'' = '''' then Over (fails 2 [''audit query: --tenant required''])
            else dial e (str_of vs ''controller'')
                   (CallQuery (str_of vs ''controller'') (auditQuery_request (ce_now e) (query_flags_of vs))
                     (query_answer (ce_rfc3339 e) (ce_quote e)))))"

definition cli_Version :: string where "cli_Version = ''dev''"

text \<open>\<open>main\<close>, on the arguments behind the program's name.\<close>

definition cli_main :: "cli_env \<Rightarrow> string list \<Rightarrow> cli_step" where
  "cli_main e argv =
     (case argv of
        [] \<Rightarrow> Over (fails 2 usage_text)
      | cmd # args \<Rightarrow>
          if cmd = ''policy'' then policyMain e args
          else if cmd = ''audit'' then auditMain e args
          else if cmd \<in> set [''version'', ''--version'', ''-v''] then Over (prints [cli_Version])
          else if cmd \<in> set [''-h'', ''--help'', ''help''] then Over (fails 0 usage_text)
          else Over (fails 2 ((''unknown command '' @ ce_quote e cmd) # usage_text)))"

subsection \<open>Properties\<close>

lemma mode_words:
  "parseP2PMode ''allowed'' = (P2P_ALLOWED, True)" "parseP2PMode ''forbidden'' = (P2P_FORBIDDEN, True)"
  "parseP2PMode ''required'' = (P2P_REQUIRED, True)"
  "parseRelayMode ''splice'' = (RELAY_MODE_SPLICE, True)" "parseRelayMode ''forward'' = (RELAY_MODE_FORWARD, True)"
  by (simp_all add: parseP2PMode_def parseRelayMode_def ToLower_def lower_char_def TrimSpace_def is_space_def)

lemma EqualFold_refl [simp]: "EqualFold s s"
  by (simp add: EqualFold_def)

text \<open>
  What \<open>policy list\<close> prints can be given to \<open>policy add\<close>: for every named mode the word that is
  printed is accepted and means that mode, in either case and with spaces around it.
\<close>

theorem cli_modes_roundtrip:
  assumes "m \<in> {P2P_ALLOWED, P2P_FORBIDDEN, P2P_REQUIRED}" and "k \<in> {RELAY_MODE_SPLICE, RELAY_MODE_FORWARD}"
  shows "parseP2PMode (cli_p2pModeString m) = (m, True) \<and> parseRelayMode (cli_relayModeString k) = (k, True) \<and>
         parseP2PMode ('' '' @ cli_p2pModeString m @ '' '') = (m, True)"
  using assms
  by (elim insertE emptyE)
     (simp_all add: cli_relayModeString_def mode_words parseP2PMode_def ToLower_def lower_char_def TrimSpace_def is_space_def)

theorem cli_modes_roundtrip_witness:
  "parseP2PMode (cli_p2pModeString P2P_REQUIRED) = (P2P_REQUIRED, True)"
  using cli_modes_roundtrip [of P2P_REQUIRED RELAY_MODE_SPLICE] by simp

text \<open>
  A decision that is not a spelling of \<open>deny\<close> asks for an allow rule, a misspelt one included;
  \<open>allow\<close> is never checked.
\<close>

lemma policyAdd_decision:
  assumes "policyAdd_request now f = Inr req"
  shows "\<exists>r. apr_Rule req = Some r \<and> pr_Tenant r = af_tenant f \<and>
             pr_Decision r = (if EqualFold (af_decision f) ''deny'' then DECISION_DENY else DECISION_ALLOW)"
  using assms by (auto simp: policyAdd_request_def Let_def split: if_splits prod.splits)

text \<open>A negative limit is not a limit: it reaches the store, which reads it as none.\<close>

lemma audit_negative_limit:
  assumes "- (2 ^ 31) \<le> qf_limit f" and "qf_limit f < 0"
  shows "qar_Limit (auditQuery_request now f) < 0"
  using assms by (simp add: auditQuery_request_def i32_def MaxInt32_def min_def)

text \<open>
  The conversion of the limit is clamped at one end only: a limit below the int32 range wraps, so
  a large negative number, which is no limit, becomes a small positive one.
\<close>

lemma audit_limit_wraps: "qar_Limit (auditQuery_request now (f\<lparr>qf_limit := - 4294967295\<rparr>)) = 1"
  by (simp add: auditQuery_request_def i32_def MaxInt32_def)

text \<open>
  A negative \<open>--expires\<close>, which \<open>time.ParseDuration\<close> accepts, asks for a rule that never expires rather than
  for one that has expired.
\<close>

lemma minus_24h: "ParseDuration frac ''-24h'' = Some (- 86400000000000)"
  by (simp add: ParseDuration_def split_sign_def duration_loop.simps duration_part_def is_digit_def in_unit_def unit_ns_def)

lemma negative_expiry_never:
  assumes "policyAdd_request now f = Inr req" and "af_expires f < 0"
  shows "\<exists>r. apr_Rule req = Some r \<and> pr_ExpiresUnixMs r = 0"
  using assms by (auto simp: policyAdd_request_def Let_def split: if_splits prod.splits)

end
