(* ===== verification/Controller.thy ===== *)
theory Controller
  imports Policy_Server Registry_Server Audit_Server Cli
begin

text \<open>
  The controller process, \<open>cmd/outrelay-controller/main.go\<close>: one store and one metrics registry
  shared by the three services. A call of the API runs the handler of its service on the shared
  store and puts the store it leaves back.
\<close>

subsection \<open>Start-up\<close>

datatype Level = LevelDebug | LevelInfo | LevelWarn | LevelError

definition parseLogLevel :: "string \<Rightarrow> Level" where
  "parseLogLevel s =
     (if s = ''debug'' then LevelDebug
      else if s = ''warn'' then LevelWarn
      else if s = ''error'' then LevelError
      else LevelInfo)"

datatype handler = JSONHandler Level | TextHandler Level

definition newLogger :: "string \<Rightarrow> string \<Rightarrow> handler" where
  "newLogger format level =
     (let opts = parseLogLevel level in if format = ''json'' then JSONHandler opts else TextHandler opts)"

record Controller =
  ct_store :: Store
  ct_registry :: "(reg_watcher, WatchEvent) hub"
  ct_policy :: "(policy_watcher, PolicyEvent) hub"
  ct_metrics :: Registry
  ct_eventsCnt :: "nat option"

text \<open>The servers over one store and a new metrics registry.\<close>

definition controller_New :: "Store \<Rightarrow> Controller" where
  "controller_New st =
     (let au = audit_New st (Some NewRegistry)
      in \<lparr>ct_store = st, ct_registry = rs_hub (registry_New st), ct_policy = ps_hub (policy_New st),
          ct_metrics = as_reg au, ct_eventsCnt = as_eventsCnt au\<rparr>)"

text \<open>\<open>main\<close>: exit status 1 if the store cannot be opened or the address cannot be bound.\<close>

definition controller_main :: "Store res \<Rightarrow> goerr option \<Rightarrow> nat + Controller" where
  "controller_main opened listen_err =
     (case opened of
        Inl e \<Rightarrow> Inl 1
      | Inr st \<Rightarrow> (case listen_err of Some e \<Rightarrow> Inl 1 | None \<Rightarrow> Inr (controller_New st)))"

subsection \<open>The API\<close>

definition registry_of :: "Controller \<Rightarrow> RegistryServer" where
  "registry_of ct = \<lparr>rs_store = ct_store ct, rs_hub = ct_registry ct\<rparr>"

definition with_registry :: "Controller \<Rightarrow> RegistryServer \<Rightarrow> Controller" where
  "with_registry ct srv = ct\<lparr>ct_store := rs_store srv, ct_registry := rs_hub srv\<rparr>"

definition policy_of :: "Controller \<Rightarrow> PolicyServer" where
  "policy_of ct = \<lparr>ps_store = ct_store ct, ps_hub = ct_policy ct\<rparr>"

definition with_policy :: "Controller \<Rightarrow> PolicyServer \<Rightarrow> Controller" where
  "with_policy ct srv = ct\<lparr>ct_store := ps_store srv, ct_policy := ps_hub srv\<rparr>"

definition audit_of :: "Controller \<Rightarrow> AuditServer" where
  "audit_of ct = \<lparr>as_store = ct_store ct, as_reg = ct_metrics ct, as_eventsCnt = ct_eventsCnt ct\<rparr>"

definition with_audit :: "Controller \<Rightarrow> AuditServer \<Rightarrow> Controller" where
  "with_audit ct srv = ct\<lparr>ct_store := as_store srv, ct_metrics := as_reg srv\<rparr>"

datatype api_call =
    ApiRegistry reg_call
  | ApiRegistryWatch WatchRequest
  | ApiAddPolicy stmt_env string AddPolicyRequest
  | ApiRemovePolicy stmt_env RemovePolicyRequest
  | ApiPolicyWatch stmt_env "Policy list \<Rightarrow> Policy list" string
  | ApiRecord stmt_env RecordAuditRequest

text \<open>None is a panic of the handler.\<close>

fun api_exec :: "api_call \<Rightarrow> Controller \<Rightarrow> Controller option" where
  "api_exec (ApiRegistry c) ct = map_option (with_registry ct) (reg_exec c (registry_of ct))"
| "api_exec (ApiRegistryWatch req) ct = Some (with_registry ct (snd (registry_Watch req (registry_of ct))))"
| "api_exec (ApiAddPolicy env uuid req) ct = map_option (with_policy ct \<circ> snd) (AddPolicy env uuid (policy_of ct) req)"
| "api_exec (ApiRemovePolicy env req) ct = map_option (with_policy ct \<circ> snd) (RemovePolicy env (policy_of ct) req)"
| "api_exec (ApiPolicyWatch env scan tenant) ct = Some (with_policy ct (snd (Watch_begin env scan (policy_of ct) tenant)))"
| "api_exec (ApiRecord env req) ct = Some (with_audit ct (snd (Record env (audit_of ct) req)))"

fun api_ok :: "api_call \<Rightarrow> bool" where
  "api_ok (ApiRegistry c) \<longleftrightarrow> reg_call_ok c"
| "api_ok _ \<longleftrightarrow> True"

fun api_run :: "api_call list \<Rightarrow> Controller \<Rightarrow> Controller option" where
  "api_run [] ct = Some ct"
| "api_run (c # cs) ct = (case api_exec c ct of None \<Rightarrow> None | Some ct' \<Rightarrow> api_run cs ct')"

definition controller_ok :: "Controller \<Rightarrow> bool" where
  "controller_ok ct \<longleftrightarrow> store_wf (ct_store ct) \<and> canonical_ids (ct_store ct) \<and> hub_wf (ct_registry ct) \<and> hub_wf (ct_policy ct)"

lemma controller_parts:
  assumes "controller_ok ct"
  shows "reg_ok (registry_of ct)" and "server_ok (policy_of ct)"
  using assms by (simp_all add: controller_ok_def reg_ok_def server_ok_def registry_of_def policy_of_def)

lemma policy_commit_frame:
  "AddPolicy_commit env u srv req = (r, srv') \<Longrightarrow> \<exists>ps. ps_store srv' = (ps_store srv)\<lparr>st_policies := ps\<rparr>"
  "RemovePolicy_commit env srv req' = (b, srv') \<Longrightarrow> \<exists>ps. ps_store srv' = (ps_store srv)\<lparr>st_policies := ps\<rparr>"
proof -
  have same: "\<exists>ps. s = s\<lparr>st_policies := ps\<rparr>" for s :: Store by (intro exI [of _ "st_policies s"]) simp
  show "\<exists>ps. ps_store srv' = (ps_store srv)\<lparr>st_policies := ps\<rparr>" if "AddPolicy_commit env u srv req = (r, srv')"
    using that same by (auto simp: AddPolicy_commit_def store_AddPolicy_def Let_def split: option.splits if_splits prod.splits)
  show "\<exists>ps. ps_store srv' = (ps_store srv)\<lparr>st_policies := ps\<rparr>" if "RemovePolicy_commit env srv req' = (b, srv')"
    using that same by (auto simp: RemovePolicy_commit_def store_RemovePolicy_def Let_def split: option.splits prod.splits)
qed

lemma policy_publish_frame:
  "AddPolicy_publish r srv = Some srv' \<Longrightarrow> ps_store srv' = ps_store srv"
  "RemovePolicy_publish req srv = Some srv' \<Longrightarrow> ps_store srv' = ps_store srv"
  by (auto simp: AddPolicy_publish_def RemovePolicy_publish_def policy_broadcast_def)

lemma policy_store_frame:
  "AddPolicy env u srv req = Some (r, srv') \<Longrightarrow> \<exists>ps. ps_store srv' = (ps_store srv)\<lparr>st_policies := ps\<rparr>"
  "RemovePolicy env srv req' = Some (b, srv') \<Longrightarrow> \<exists>ps. ps_store srv' = (ps_store srv)\<lparr>st_policies := ps\<rparr>"
  by (auto simp: AddPolicy_def RemovePolicy_def policy_publish_frame dest!: policy_commit_frame
      split: sum.splits prod.splits if_splits)

lemma policy_services_frame:
  "AddPolicy env u srv req = Some (r, srv') \<Longrightarrow> st_services (ps_store srv') = st_services (ps_store srv)"
  "RemovePolicy env srv req' = Some (b, srv') \<Longrightarrow> st_services (ps_store srv') = st_services (ps_store srv)"
  using policy_store_frame by fastforce+

lemma Watch_begin_frame:
  assumes "server_ok srv"
  shows "ps_store (snd (Watch_begin env scan srv t)) = ps_store srv" and "server_ok (snd (Watch_begin env scan srv t))"
proof -
  obtain r srv1 where l: "Watch_list env scan srv t = (r, srv1)" by fastforce
  note fr = Watch_list_frame [OF l]
  have ok1: "server_ok srv1" using fr(5) assms by simp
  have "ps_store (snd (Watch_begin env scan srv t)) = ps_store srv \<and> server_ok (snd (Watch_begin env scan srv t))"
  proof (cases r)
    case (Inl e)
    then show ?thesis using l fr ok1 by (simp add: Watch_begin_def)
  next
    case (Inr x)
    obtain i rows where x: "x = (i, rows)" by (cases x)
    obtain se srv2 where g: "Watch_register t i rows srv1 = (se, srv2)" by fastforce
    show ?thesis using l Inr x g fr(1) Watch_register_keeps(1,2) [OF ok1 g] by (simp add: Watch_begin_def)
  qed
  then show "ps_store (snd (Watch_begin env scan srv t)) = ps_store srv" and "server_ok (snd (Watch_begin env scan srv t))"
    by blast+
qed

lemma Record_frame:
  "st_services (as_store (snd (Record env srv req))) = st_services (as_store srv)"
  "store_wf (as_store srv) \<Longrightarrow> store_wf (as_store (snd (Record env srv req)))"
  by (auto simp: Record_def Record_commit_def Record_count_def RecordAudit_def Let_def store_wf_def split: option.splits)

lemma api_exec_keeps:
  assumes "controller_ok ct" and "api_ok c"
  shows "\<exists>ct'. api_exec c ct = Some ct' \<and> controller_ok ct'"
proof -
  note parts = controller_parts [OF assms(1)]
  have parts': "store_wf (ct_store ct)" "canonical_ids (ct_store ct)" "hub_wf (ct_registry ct)" "hub_wf (ct_policy ct)"
    using assms(1) by (simp_all add: controller_ok_def)
  have canon: "canonical_ids s" if "st_services s = st_services (ct_store ct)" for s
    using that parts'(2) by (simp add: canonical_ids_def)
  show ?thesis
  proof (cases c)
    case (ApiRegistry rc)
    then show ?thesis using reg_exec_keeps [OF parts(1), of rc] assms(2) parts'(4)
      by (auto simp: controller_ok_def with_registry_def reg_ok_def)
  next
    case (ApiRegistryWatch req)
    have "rs_store (snd (registry_Watch req (registry_of ct))) = ct_store ct"
      by (simp add: registry_Watch_def registry_of_def split: prod.splits)
    then show ?thesis using ApiRegistryWatch hub_wf_Watch [of "registry_of ct" req] parts'
      by (simp add: controller_ok_def with_registry_def registry_of_def)
  next
    case (ApiAddPolicy env uuid req)
    obtain r srv where a: "AddPolicy env uuid (policy_of ct) req = Some (r, srv)" "server_ok srv"
      using AddPolicy_keeps [OF parts(2)] by blast
    have "canonical_ids (ps_store srv)" using policy_services_frame(1) [OF a(1)] by (intro canon) (simp add: policy_of_def)
    then show ?thesis using ApiAddPolicy a parts' by (simp add: controller_ok_def with_policy_def server_ok_def)
  next
    case (ApiRemovePolicy env req)
    obtain r srv where a: "RemovePolicy env (policy_of ct) req = Some (r, srv)" "server_ok srv"
      using RemovePolicy_keeps [OF parts(2)] by blast
    have "canonical_ids (ps_store srv)" using policy_services_frame(2) [OF a(1)] by (intro canon) (simp add: policy_of_def)
    then show ?thesis using ApiRemovePolicy a parts' by (simp add: controller_ok_def with_policy_def server_ok_def)
  next
    case (ApiPolicyWatch env scan t)
    then show ?thesis using Watch_begin_frame [OF parts(2), of env scan t] parts'
      by (simp add: controller_ok_def with_policy_def server_ok_def policy_of_def)
  next
    case (ApiRecord env req)
    have "canonical_ids (as_store (snd (Record env (audit_of ct) req)))"
      by (rule canon) (simp add: Record_frame audit_of_def)
    then show ?thesis using ApiRecord Record_frame(2) [of "audit_of ct" env req] parts'
      by (simp add: controller_ok_def with_audit_def audit_of_def)
  qed
qed

subsection \<open>What a tenant sees\<close>

definition tenant_view ::
  "Store \<Rightarrow> string \<Rightarrow> (string \<rightharpoonup> PolicyRule) \<times> (string \<rightharpoonup> service_row) \<times> audit_row list" where
  "tenant_view s t =
     (tenant_rules s t, (\<lambda>n. table_lookup sv_key (t, n) (st_services s)), filter (\<lambda>a. au_tenant a = t) (st_audit s))"

text \<open>The tenant a call is made for; None if the call does not write any tenant's data.\<close>

fun api_tenant :: "api_call \<Rightarrow> string option" where
  "api_tenant (ApiRegistry (RcRegister env1 env2 req)) = Some (rsr_Tenant req)"
| "api_tenant (ApiRegistry (RcDeregister env1 env2 scan req)) = Some (dar_Tenant req)"
| "api_tenant (ApiRegistry (RcUpsertRelay env req)) = None"
| "api_tenant (ApiRegistryWatch req) = None"
| "api_tenant (ApiAddPolicy env uuid req) = map_option pr_Tenant (apr_Rule req)"
| "api_tenant (ApiRemovePolicy env req) = Some (rpr_Tenant req)"
| "api_tenant (ApiPolicyWatch env scan t) = None"
| "api_tenant (ApiRecord env req) = map_option ae_Tenant (rar_Event req)"

lemma tenant_view_cong:
  assumes "st_policies s' = st_policies s" and "\<And>n. table_lookup sv_key (t, n) (st_services s') = table_lookup sv_key (t, n) (st_services s)"
    and "st_audit s' = st_audit s"
  shows "tenant_view s' t = tenant_view s t"
  using assms by (simp add: tenant_view_def tenant_rules_def)

lemma UpsertAgent_view: "tenant_view (snd (UpsertAgent env s t' u)) t = tenant_view s t"
  by (rule tenant_view_cong) (auto simp: UpsertAgent_def split: option.splits)

lemma register_view:
  assumes "svc_Tenant svc \<noteq> t"
  shows "tenant_view (snd (store_RegisterService env s svc)) t = tenant_view s t"
proof (rule tenant_view_cong)
  fix n :: string
  have k: "(t, n) \<noteq> (svc_Tenant svc, m)" for m :: string using assms by simp
  show "table_lookup sv_key (t, n) (st_services (snd (store_RegisterService env s svc))) = table_lookup sv_key (t, n) (st_services s)"
    using k by (auto simp: store_RegisterService_def Let_def services.lookup_upsert sv_key_def split: option.splits)
qed (auto simp: store_RegisterService_def Let_def split: option.splits)

lemma dereg_view:
  assumes "store_wf s" and "tenant \<noteq> t"
  shows "tenant_view (snd (store_DeregisterAgent env1 env2 scan s tenant a r)) t = tenant_view s t"
proof (rule tenant_view_cong)
  fix n
  show "table_lookup sv_key (t, n) (st_services (snd (store_DeregisterAgent env1 env2 scan s tenant a r))) =
      table_lookup sv_key (t, n) (st_services s)"
    using assms(2) removed_lookup [OF assms(1), of t n tenant a r]
    by (auto simp: store_DeregisterAgent_def dereg_select_def dereg_delete_def split: option.splits)
qed (auto simp: store_DeregisterAgent_def dereg_select_def dereg_delete_def split: option.splits)

lemma RegisterService_view:
  assumes "RegisterService env1 env2 srv req = Some (r, srv')" and "rsr_Tenant req \<noteq> t"
  shows "tenant_view (rs_store srv') t = tenant_view (rs_store srv) t"
proof -
  let ?svc = "requested_service req"
  let ?s1 = "snd (UpsertAgent env1 (rs_store srv) (rsr_Tenant req) (rsr_AgentUri req))"
  let ?s2 = "snd (store_RegisterService env2 ?s1 ?svc)"
  have "rs_store srv' \<in> {rs_store srv, ?s1, ?s2}"
    using assms(1)
    by (auto simp: RegisterService_def registry_broadcast_def split: if_splits option.splits prod.splits sum.splits)
  then show ?thesis using register_view [of ?svc t env2 ?s1] UpsertAgent_view assms(2) by auto
qed

lemma DeregisterAgent_view:
  assumes "reg_ok srv" and "DeregisterAgent env1 env2 scan srv req = Some (r, srv')" and "dar_Tenant req \<noteq> t"
  shows "tenant_view (rs_store srv') t = tenant_view (rs_store srv) t"
proof -
  obtain x s where d: "store_DeregisterAgent env1 env2 scan (rs_store srv) (dar_Tenant req) (dar_AgentUri req) (dar_RelayId req) = (x, s)"
    by fastforce
  have hw: "hub_wf (rs_hub (srv\<lparr>rs_store := s\<rparr>))" and wf: "store_wf (rs_store srv)"
    using assms(1) by (simp_all add: reg_ok_def)
  have "rs_store srv' = s"
  proof (cases x)
    case (Inl e)
    then show ?thesis using assms(2) d by (auto simp: DeregisterAgent_def)
  next
    case (Inr removed)
    obtain srv2 where "broadcast_removed removed (dar_Tenant req) (srv\<lparr>rs_store := s\<rparr>) = Some srv2" "rs_store srv2 = s"
      using broadcast_removed_safe [OF hw, of removed "dar_Tenant req"] by auto
    then show ?thesis using assms(2) d Inr by (auto simp: DeregisterAgent_def)
  qed
  then show ?thesis using dereg_view [OF wf assms(3), of env1 env2 scan "dar_AgentUri req" "dar_RelayId req"] d by simp
qed

lemma AddPolicy_commit_view:
  assumes "store_wf (ps_store srv)" and c: "AddPolicy_commit env uuid srv req = (r, srv')"
    and "map_option pr_Tenant (apr_Rule req) \<noteq> Some t"
  shows "tenant_view (ps_store srv') t = tenant_view (ps_store srv) t"
proof (cases r)
  case (Inl e)
  then show ?thesis using AddPolicy_commit_err [of env uuid srv req e srv'] c by simp
next
  case (Inr rule)
  have "pr_Tenant rule \<noteq> t" using commit_tenant [OF c [unfolded Inr]] assms(3) by auto
  then have "tenant_rules (ps_store srv') t = tenant_rules (ps_store srv) t"
    using AddPolicy_commit_rules(3) [OF c [unfolded Inr] assms(1), of t] by simp
  then show ?thesis using policy_commit_frame(1) [OF c] by (auto simp: tenant_view_def)
qed

lemma RemovePolicy_commit_view:
  assumes "store_wf (ps_store srv)" and c: "RemovePolicy_commit env srv req = (r, srv')" and "rpr_Tenant req \<noteq> t"
  shows "tenant_view (ps_store srv') t = tenant_view (ps_store srv) t"
proof (cases r)
  case (Inl e)
  then show ?thesis using RemovePolicy_commit_err [of env srv req e srv'] c by simp
next
  case (Inr b)
  have "tenant_rules (ps_store srv') t = tenant_rules (ps_store srv) t"
    using RemovePolicy_commit_rules(3) [OF c [unfolded Inr] assms(1), of t] assms(3) by simp
  then show ?thesis using policy_commit_frame(2) [OF c] by (auto simp: tenant_view_def)
qed

lemma AddPolicy_view:
  assumes "store_wf (ps_store srv)" and "AddPolicy env uuid srv req = Some (r, srv')"
    and "map_option pr_Tenant (apr_Rule req) \<noteq> Some t"
  shows "tenant_view (ps_store srv') t = tenant_view (ps_store srv) t"
proof -
  obtain r1 srv1 where c: "AddPolicy_commit env uuid srv req = (r1, srv1)" by fastforce
  then have "ps_store srv' = ps_store srv1"
    using assms(2) by (auto simp: AddPolicy_def policy_publish_frame split: sum.splits)
  then show ?thesis using AddPolicy_commit_view [OF assms(1) c assms(3)] by simp
qed

lemma RemovePolicy_view:
  assumes "store_wf (ps_store srv)" and "RemovePolicy env srv req = Some (r, srv')" and "rpr_Tenant req \<noteq> t"
  shows "tenant_view (ps_store srv') t = tenant_view (ps_store srv) t"
proof -
  obtain r1 srv1 where c: "RemovePolicy_commit env srv req = (r1, srv1)" by fastforce
  then have "ps_store srv' = ps_store srv1"
    using assms(2) by (auto simp: RemovePolicy_def policy_publish_frame split: sum.splits if_splits)
  then show ?thesis using RemovePolicy_commit_view [OF assms(1) c assms(3)] by simp
qed

lemma Record_view:
  assumes "map_option ae_Tenant (rar_Event req) \<noteq> Some t"
  shows "tenant_view (as_store (snd (Record env srv req))) t = tenant_view (as_store srv) t"
  using assms
  by (auto simp: Record_def Record_commit_def Record_count_def RecordAudit_def Let_def audit_row_of_def tenant_view_def tenant_rules_def split: option.splits)

lemma api_exec_view:
  assumes "controller_ok ct" and "api_exec c ct = Some ct'" and "api_tenant c \<noteq> Some t"
  shows "tenant_view (ct_store ct') t = tenant_view (ct_store ct) t"
proof -
  note parts = controller_parts [OF assms(1)]
  have stores: "rs_store (registry_of ct) = ct_store ct" "ps_store (policy_of ct) = ct_store ct" "as_store (audit_of ct) = ct_store ct"
    by (simp_all add: registry_of_def policy_of_def audit_of_def)
  have wf: "store_wf (ct_store ct)" using assms(1) by (simp add: controller_ok_def)
  show ?thesis
  proof (cases c rule: api_tenant.cases)
    case (1 env1 env2 req)
    then obtain r srv where "RegisterService env1 env2 (registry_of ct) req = Some (r, srv)" "ct_store ct' = rs_store srv"
      using assms(2) by (auto simp: with_registry_def)
    then show ?thesis using RegisterService_view [of env1 env2 "registry_of ct" req r srv t] 1 assms(3) stores by simp
  next
    case (2 env1 env2 scan req)
    then obtain r srv where "DeregisterAgent env1 env2 scan (registry_of ct) req = Some (r, srv)" "ct_store ct' = rs_store srv"
      using assms(2) by (auto simp: with_registry_def)
    then show ?thesis using DeregisterAgent_view [OF parts(1), of env1 env2 scan req r srv t] 2 assms(3) stores by simp
  next
    case (3 env req)
    have "tenant_view (rs_store (snd (UpsertRelay env (registry_of ct) req))) t = tenant_view (ct_store ct) t"
      by (rule tenant_view_cong)
         (auto simp: UpsertRelay_def store_UpsertRelay_def registry_of_def split: option.splits)
    then show ?thesis using assms(2) 3 by (auto simp: with_registry_def)
  next
    case (4 req)
    then have "ct_store ct' = ct_store ct"
      using assms(2) by (auto simp: with_registry_def registry_Watch_def registry_of_def split: prod.splits)
    then show ?thesis by simp
  next
    case (5 env uuid req)
    then obtain r srv where "AddPolicy env uuid (policy_of ct) req = Some (r, srv)" "ct_store ct' = ps_store srv"
      using assms(2) by (auto simp: with_policy_def)
    then show ?thesis using AddPolicy_view [of "policy_of ct" env uuid req r srv t] 5 assms(3) stores wf by simp
  next
    case (6 env req)
    then obtain r srv where "RemovePolicy env (policy_of ct) req = Some (r, srv)" "ct_store ct' = ps_store srv"
      using assms(2) by (auto simp: with_policy_def)
    then show ?thesis using RemovePolicy_view [of "policy_of ct" env req r srv t] 6 assms(3) stores wf by simp
  next
    case (7 env scan tenant)
    then show ?thesis using assms(2) Watch_begin_frame(1) [OF parts(2), of env scan tenant] stores
      by (auto simp: with_policy_def)
  next
    case (8 env req)
    then show ?thesis using assms(2,3) Record_view [of req t env "audit_of ct"] stores by (auto simp: with_audit_def)
  qed
qed

subsection \<open>The audit counter\<close>

lemma reg_exec_audit:
  assumes "reg_exec c srv = Some srv'"
  shows "st_audit (rs_store srv') = st_audit (rs_store srv)"
proof (cases c)
  case (RcRegister env1 env2 req)
  then show ?thesis using assms
    by (auto simp: RegisterService_def UpsertAgent_def store_RegisterService_def Let_def registry_broadcast_def
        split: if_splits option.splits prod.splits sum.splits)
next
  case (RcDeregister env1 env2 scan req)
  have b: "broadcast_removed svcs t x = Some y \<Longrightarrow> rs_store y = rs_store x" for svcs t x y
    by (induction svcs arbitrary: x) (auto simp: registry_broadcast_def split: option.splits)
  show ?thesis using RcDeregister assms
    by (auto simp: DeregisterAgent_def store_DeregisterAgent_def dereg_select_def dereg_delete_def dest!: b
        split: option.splits prod.splits sum.splits if_splits)
next
  case (RcUpsertRelay env req)
  then show ?thesis using assms
    by (auto simp: UpsertRelay_def store_UpsertRelay_def split: option.splits prod.splits if_splits)
qed

text \<open>Only Record writes audit rows and metrics.\<close>

lemma api_exec_audit:
  assumes "controller_ok ct" and "api_exec c ct = Some ct'" and "\<And>env req. c \<noteq> ApiRecord env req"
  shows "st_audit (ct_store ct') = st_audit (ct_store ct)" and "ct_metrics ct' = ct_metrics ct" and "ct_eventsCnt ct' = ct_eventsCnt ct"
proof -
  have "st_audit (ct_store ct') = st_audit (ct_store ct) \<and> ct_metrics ct' = ct_metrics ct \<and> ct_eventsCnt ct' = ct_eventsCnt ct"
  proof (cases c)
    case (ApiRegistry rc)
    then show ?thesis using assms(2) reg_exec_audit [of rc "registry_of ct"]
      by (auto simp: with_registry_def registry_of_def)
  next
    case (ApiRegistryWatch req)
    then show ?thesis using assms(2) by (auto simp: with_registry_def registry_Watch_def registry_of_def split: prod.splits)
  next
    case (ApiAddPolicy env uuid req)
    then show ?thesis using assms(2) policy_store_frame(1) [of env uuid "policy_of ct" req]
      by (fastforce simp: with_policy_def policy_of_def)
  next
    case (ApiRemovePolicy env req)
    then show ?thesis using assms(2) policy_store_frame(2) [of env "policy_of ct" req]
      by (fastforce simp: with_policy_def policy_of_def)
  next
    case (ApiPolicyWatch env scan t)
    then show ?thesis using assms(2) Watch_begin_frame(1) [OF controller_parts(2) [OF assms(1)], of env scan t]
      by (auto simp: with_policy_def policy_of_def)
  qed (use assms(3) in blast)
  then show "st_audit (ct_store ct') = st_audit (ct_store ct)" and "ct_metrics ct' = ct_metrics ct" and "ct_eventsCnt ct' = ct_eventsCnt ct"
    by simp_all
qed

text \<open>The counter is the only one of the process, and it counts the rows written since the start.\<close>

definition counts_audit :: "nat \<Rightarrow> Controller \<Rightarrow> bool" where
  "counts_audit n0 ct \<longleftrightarrow> n0 \<le> length (st_audit (ct_store ct)) \<and>
     (\<exists>p. ct_eventsCnt ct = Some p \<and> pool_names (reg_c (ct_metrics ct)) = [(''audit_events_total'', p)]) \<and>
     counter_at (audit_of ct) = Some (i64 (int (length (st_audit (ct_store ct)) - n0)))"

lemma counts_audit_New: "counts_audit (length (st_audit st)) (controller_New st)"
  by (simp add: counts_audit_def controller_New_def audit_New_def audit_of_def counter_at_def Registry_Counter_def NewRegistry_def
      new_pool_def pool_find_def counter_under_lock_def pool_ensure_def i64_def Let_def)

lemma counts_audit_exec:
  assumes "controller_ok ct" and "counts_audit n0 ct" and "api_exec c ct = Some ct'"
  shows "counts_audit n0 ct'"
proof (cases "\<exists>env req. c = ApiRecord env req")
  case True
  then obtain env req where c: "c = ApiRecord env req" by blast
  obtain r srv where rec: "Record env (audit_of ct) req = (r, srv)" by fastforce
  note eff = Record_effect [OF rec]
  have ct': "ct' = with_audit ct srv" using assms(3) c rec by simp
  have au: "audit_of ct' = srv" using eff(1) by (simp add: ct' audit_of_def with_audit_def)
  have names: "pool_names (reg_c (as_reg srv)) = pool_names (reg_c (ct_metrics ct))"
    using rec by (auto simp: Record_def Record_commit_def Record_count_def Let_def audit_of_def pool_update_def split: option.splits prod.splits)
  show ?thesis
  proof (cases r)
    case None
    obtain row where row: "st_audit (as_store srv) = st_audit (ct_store ct) @ [row]"
      using eff(3) None by (auto simp: audit_of_def)
    have "i64 (i64 (int n) + 1) = i64 (int (Suc n))" for n by (simp, simp add: add.commute)
    then have "counter_at srv = Some (i64 (int (Suc (length (st_audit (ct_store ct)) - n0))))"
      using eff(4) [OF None] assms(2) unfolding counts_audit_def by (metis option.map(2))
    moreover have "ct_store ct' = as_store srv" "ct_metrics ct' = as_reg srv" "ct_eventsCnt ct' = ct_eventsCnt ct"
      by (simp_all add: ct' with_audit_def)
    ultimately show ?thesis using assms(2) row names by (simp add: counts_audit_def au Suc_diff_le)
  next
    case (Some e)
    then have "srv = audit_of ct" using eff(2) by simp
    then have "ct' = ct" by (simp add: ct' with_audit_def audit_of_def)
    then show ?thesis using assms(2) by simp
  qed
next
  case False
  note fr = api_exec_audit [OF assms(1,3)]
  have "st_audit (ct_store ct') = st_audit (ct_store ct)" "ct_metrics ct' = ct_metrics ct" "ct_eventsCnt ct' = ct_eventsCnt ct"
    using fr False by blast+
  then show ?thesis using assms(2) by (simp add: counts_audit_def audit_of_def counter_at_def)
qed

lemma counts_audit_snapshot:
  assumes "counts_audit n0 ct"
  shows "sn_Counters (Registry_Snapshot now (ct_metrics ct)) =
     [(''audit_events_total'', i64 (int (length (st_audit (ct_store ct)) - n0)))]"
proof -
  obtain p where p: "ct_eventsCnt ct = Some p" "pool_names (reg_c (ct_metrics ct)) = [(''audit_events_total'', p)]"
    using assms by (auto simp: counts_audit_def)
  then obtain m where "pool_objs (reg_c (ct_metrics ct)) p = Some m" "counter_v m = i64 (int (length (st_audit (ct_store ct)) - n0))"
    using assms by (auto simp: counts_audit_def counter_at_def audit_of_def)
  then show ?thesis using p
    by (simp add: Registry_Snapshot_def pool_snapshot_def sortedKeys_def pool_find_def List.map_filter_def Counter_Value_def)
qed

end
