(* ===== verification/Policy_Concurrent.thy ===== *)
theory Policy_Concurrent
  imports Policy_Server
begin

text \<open>
  The policy service under concurrent calls. gRPC runs every call of \<open>pkg/policy/server.go\<close> in a
  goroutine of its own; what is atomic is one statement of the store and one critical section of
  the server's mutex. So a call of AddPolicy or RemovePolicy is two actions, the commit and the
  broadcast, and the beginning of Watch is two actions, the listing and the registration. Between
  the two a call is pending. A schedule is any sequence of actions of any calls and of steps of
  the running Watch sessions.

  Three things are shown. Whatever the schedule, nothing panics and the server's invariant holds.
  Whatever the schedule, a Watch stream carries only rules that were stored for its own tenant.
  And the stream mirrors the store on every rule that is not pending, as long as the schedule
  avoids two races: a commit on a rule that another call has pending, and a commit for a tenant
  between the listing and the registration of a Watch of that tenant. Both races do break the
  mirror (\<open>policy_publish_reorder\<close>, \<open>policy_watch_loses_update\<close> in \<open>Policy_Server\<close>).
\<close>

subsection \<open>Actions\<close>

datatype pending =
    PAdd PolicyRule \<comment> \<open>committed, not yet broadcast\<close>
  | PRemove RemovePolicyRequest \<comment> \<open>committed, not yet broadcast\<close>
  | PWatch string "64 word" "Policy list" \<comment> \<open>listed, not yet registered\<close>

text \<open>\<open>cs_ever\<close> is a ghost: every rule the store has had, in canonical form.\<close>

record conc_sys =
  cs_srv :: PolicyServer
  cs_calls :: "pending list"
  cs_sessions :: "nat \<Rightarrow> policy_session option"
  cs_ever :: "PolicyRule list"

datatype conc_label =
    CAdd stmt_env string AddPolicyRequest
  | CRemove stmt_env RemovePolicyRequest
  | CWatch stmt_env "Policy list \<Rightarrow> Policy list" string
  | CContinue nat \<comment> \<open>the second action of a pending call\<close>
  | CStep nat watch_io


fun continue_call :: "pending \<Rightarrow> conc_sys \<Rightarrow> conc_sys option" where
  "continue_call (PAdd r) sy = map_option (\<lambda>srv. sy\<lparr>cs_srv := srv\<rparr>) (AddPolicy_publish r (cs_srv sy))"
| "continue_call (PRemove req) sy = map_option (\<lambda>srv. sy\<lparr>cs_srv := srv\<rparr>) (RemovePolicy_publish req (cs_srv sy))"
| "continue_call (PWatch t i rows) sy =
     (let (se, srv) = Watch_register t i rows (cs_srv sy)
      in Some (sy\<lparr>cs_srv := srv, cs_sessions := (cs_sessions sy)(se_ptr se \<mapsto> se)\<rparr>))"

text \<open>None is a panic.\<close>

fun conc_exec :: "conc_label \<Rightarrow> conc_sys \<Rightarrow> conc_sys option" where
  "conc_exec (CAdd env uuid req) sy =
     (case AddPolicy_commit env uuid (cs_srv sy) req of
        (Inl e, srv) \<Rightarrow> Some (sy\<lparr>cs_srv := srv\<rparr>)
      | (Inr r, srv) \<Rightarrow>
          Some (sy\<lparr>cs_srv := srv, cs_calls := cs_calls sy @ [PAdd r], cs_ever := canon_rule r # cs_ever sy\<rparr>))"
| "conc_exec (CRemove env req) sy =
     (case RemovePolicy_commit env (cs_srv sy) req of
        (Inr True, srv) \<Rightarrow> Some (sy\<lparr>cs_srv := srv, cs_calls := cs_calls sy @ [PRemove req]\<rparr>)
      | (_, srv) \<Rightarrow> Some (sy\<lparr>cs_srv := srv\<rparr>))"
| "conc_exec (CWatch env scan t) sy =
     (case Watch_list env scan (cs_srv sy) t of
        (Inl e, srv) \<Rightarrow> Some (sy\<lparr>cs_srv := srv\<rparr>)
      | (Inr (i, rows), srv) \<Rightarrow> Some (sy\<lparr>cs_srv := srv, cs_calls := cs_calls sy @ [PWatch t i rows]\<rparr>))"
| "conc_exec (CContinue k) sy =
     (if k < length (cs_calls sy)
      then continue_call (cs_calls sy ! k) (sy\<lparr>cs_calls := drop_nth k (cs_calls sy)\<rparr>)
      else Some sy)"
| "conc_exec (CStep p io) sy =
     (case cs_sessions sy p of
        None \<Rightarrow> Some sy
      | Some se \<Rightarrow>
          map_option (\<lambda>(se, srv). sy\<lparr>cs_srv := srv, cs_sessions := (cs_sessions sy)(p \<mapsto> se)\<rparr>)
            (Watch_step io se (cs_srv sy)))"

fun conc_label_ok :: "conc_label \<Rightarrow> bool" where
  "conc_label_ok (CWatch env scan t) \<longleftrightarrow> is_scan scan"
| "conc_label_ok _ \<longleftrightarrow> True"

subsection \<open>Schedules\<close>

fun pending_id :: "string \<Rightarrow> pending \<Rightarrow> string option" where
  "pending_id t (PAdd r) = (if pr_Tenant r = t then Some (pr_Id r) else None)"
| "pending_id t (PRemove req) = (if rpr_Tenant req = t then Some (rpr_Id req) else None)"
| "pending_id t (PWatch _ _ _) = None"

definition in_flight :: "string \<Rightarrow> pending list \<Rightarrow> string list" where
  "in_flight t calls = List.map_filter (pending_id t) calls"

fun is_watch_of :: "string \<Rightarrow> pending \<Rightarrow> bool" where
  "is_watch_of t (PWatch t' _ _) \<longleftrightarrow> t' = t"
| "is_watch_of t _ \<longleftrightarrow> False"

text \<open>The rule a commit is about must not be pending, and no Watch of the tenant may be half begun.\<close>

definition quiet :: "string \<Rightarrow> string \<Rightarrow> conc_sys \<Rightarrow> bool" where
  "quiet t i sy \<longleftrightarrow> i \<notin> set (in_flight t (cs_calls sy)) \<and> \<not> list_ex (is_watch_of t) (cs_calls sy)"

fun race_free :: "conc_label \<Rightarrow> conc_sys \<Rightarrow> bool" where
  "race_free (CAdd env uuid req) sy \<longleftrightarrow>
     (case apr_Rule req of
        None \<Rightarrow> True
      | Some r \<Rightarrow> quiet (pr_Tenant r) (if pr_Id r = '''' then uuid else pr_Id r) sy)"
| "race_free (CRemove env req) sy \<longleftrightarrow> quiet (rpr_Tenant req) (rpr_Id req) sy"
| "race_free _ sy \<longleftrightarrow> True"

definition conc_init :: "Store \<Rightarrow> conc_sys" where
  "conc_init s = \<lparr>cs_srv = policy_New s, cs_calls = [], cs_sessions = (\<lambda>_. None),
                  cs_ever = map (\<lambda>p. canon_rule (toPB p)) (st_policies s)\<rparr>"

inductive conc_reach :: "(conc_label \<Rightarrow> conc_sys \<Rightarrow> bool) \<Rightarrow> conc_sys \<Rightarrow> bool" for allowed where
  conc_reach_init: "store_wf s \<Longrightarrow> conc_reach allowed (conc_init s)"
| conc_reach_step: "conc_reach allowed sy \<Longrightarrow> conc_label_ok l \<Longrightarrow> allowed l sy \<Longrightarrow> conc_exec l sy = Some sy'
     \<Longrightarrow> conc_reach allowed sy'"

abbreviation any_schedule :: "conc_label \<Rightarrow> conc_sys \<Rightarrow> bool" where
  "any_schedule \<equiv> \<lambda>_ _. True"

subsection \<open>The stream of a session\<close>

text \<open>What a session has sent, will send of its snapshot, and has queued.\<close>

fun to_send :: "watch_pc \<Rightarrow> PolicyEvent list" where
  "to_send (WSnapshot rs) = map (\<lambda>r. added_event (toPB r)) rs @ [snapshot_end]"
| "to_send _ = []"

definition stream :: "PolicyServer \<Rightarrow> policy_session \<Rightarrow> PolicyEvent list" where
  "stream srv se = se_sent se @ to_send (se_pc se) @ hub_pending (ps_hub srv) (se_ptr se)"

definition owns_watcher :: "PolicyServer \<Rightarrow> policy_session \<Rightarrow> bool" where
  "owns_watcher srv se \<longleftrightarrow> (\<exists>w. hub_cfg (ps_hub srv) (se_ptr se) = Some w \<and> pw_tenant w = se_tenant se)"

text \<open>Two servers that look the same to a session.\<close>

definition same_watcher :: "nat \<Rightarrow> PolicyServer \<Rightarrow> PolicyServer \<Rightarrow> bool" where
  "same_watcher p srv srv' \<longleftrightarrow>
     hub_cfg (ps_hub srv') p = hub_cfg (ps_hub srv) p \<and> hub_pending (ps_hub srv') p = hub_pending (ps_hub srv) p \<and>
     (hub_live (ps_hub srv') p \<longrightarrow> hub_live (ps_hub srv) p)"

lemma stream_same: "same_watcher (se_ptr se) srv srv' \<Longrightarrow> stream srv' se = stream srv se"
  by (simp add: stream_def same_watcher_def)

lemma owns_same: "same_watcher (se_ptr se) srv srv' \<Longrightarrow> owns_watcher srv' se \<longleftrightarrow> owns_watcher srv se"
  by (simp add: owns_watcher_def same_watcher_def)

lemma Watch_return_stream:
  assumes "server_ok srv"
  shows "\<exists>srv'. Watch_return r se srv = Some (se\<lparr>se_pc := WDone r\<rparr>, srv') \<and> server_ok srv' \<and>
           ps_store srv' = ps_store srv \<and> \<not> hub_live (ps_hub srv') (se_ptr se) \<and> (\<forall>q. same_watcher q srv srv')"
proof -
  have wf: "hub_wf (ps_hub srv)" using assms by (simp add: server_ok_def)
  then obtain h where h: "removeWatcher (se_ptr se) (ps_hub srv) = Some h" "hub_wf h"
    using removeWatcher_eq by blast
  have eff: "hub_live h q = (hub_live (ps_hub srv) q \<and> q \<noteq> se_ptr se)" "hub_pending h q = hub_pending (ps_hub srv) q"
    "hub_cfg h q = hub_cfg (ps_hub srv) q" for q
    using removeWatcher_eq [OF wf, of "se_ptr se" q] h(1) by auto
  then show ?thesis using h assms by (simp add: Watch_return_def server_ok_def same_watcher_def)
qed

text \<open>What a step of a session may do: its stream stays as it is or, when the session ends, loses events.\<close>

definition session_moves :: "PolicyServer \<Rightarrow> policy_session \<Rightarrow> PolicyServer \<Rightarrow> policy_session \<Rightarrow> bool" where
  "session_moves srv se srv' se' \<longleftrightarrow>
     server_ok srv' \<and> ps_store srv' = ps_store srv \<and> se_ptr se' = se_ptr se \<and> se_tenant se' = se_tenant se \<and>
     owns_watcher srv' se' \<and> (\<forall>q. q \<noteq> se_ptr se \<longrightarrow> same_watcher q srv srv') \<and>
     (hub_live (ps_hub srv') (se_ptr se) \<longrightarrow> hub_live (ps_hub srv) (se_ptr se) \<and> stream srv' se' = stream srv se) \<and>
     set (stream srv' se') \<subseteq> set (stream srv se)"

lemma return_moves:
  assumes "server_ok srv" and "owns_watcher srv se"
  shows "\<exists>se' srv'. Watch_return r se srv = Some (se', srv') \<and> session_moves srv se srv' se'"
proof -
  obtain srv' where r: "Watch_return r se srv = Some (se\<lparr>se_pc := WDone r\<rparr>, srv')" "server_ok srv'"
    "ps_store srv' = ps_store srv" "\<not> hub_live (ps_hub srv') (se_ptr se)" "\<forall>q. same_watcher q srv srv'"
    using Watch_return_stream [OF assms(1)] by blast
  have "owns_watcher srv' (se\<lparr>se_pc := WDone r\<rparr>)" using assms(2) r(5) by (simp add: owns_watcher_def same_watcher_def)
  moreover have "set (stream srv' (se\<lparr>se_pc := WDone r\<rparr>)) \<subseteq> set (stream srv se)"
    using r(5) by (auto simp: stream_def same_watcher_def)
  ultimately show ?thesis using r by (simp add: session_moves_def)
qed

text \<open>Sending the next event of the stream moves it from what is left to what was sent.\<close>

lemma send_moves:
  assumes "server_ok srv" and "owns_watcher srv se"
    and "to_send (se_pc se) @ hub_pending (ps_hub srv) (se_ptr se) = ev # to_send pc @ hub_pending (ps_hub srv) (se_ptr se)"
  shows "\<exists>se' srv'. Watch_send io ev pc se srv = Some (se', srv') \<and> session_moves srv se srv' se'"
proof (cases io)
  case (SendErr e)
  then show ?thesis using return_moves [OF assms(1,2)] by (simp add: Watch_send_def)
qed (use assms in \<open>auto simp: Watch_send_def session_moves_def owns_watcher_def stream_def same_watcher_def\<close>)

lemma received_moves:
  assumes "server_ok srv" and "owns_watcher srv se" and pc: "se_pc se = WLive"
    and p: "hub_pending (ps_hub srv) (se_ptr se) = ev # rest"
  shows "\<exists>se' srv'. Watch_send io ev WLive se (srv\<lparr>ps_hub := snd (hub_recv (se_ptr se) (ps_hub srv))\<rparr>) = Some (se', srv') \<and>
           session_moves srv se srv' se'"
proof -
  define h where "h = snd (hub_recv (se_ptr se) (ps_hub srv))"
  let ?srv = "srv\<lparr>ps_hub := h\<rparr>"
  have eff: "hub_pending h q = (if se_ptr se = q then tl (hub_pending (ps_hub srv) q) else hub_pending (ps_hub srv) q)"
    "hub_live h q = hub_live (ps_hub srv) q" "hub_cfg h q = hub_cfg (ps_hub srv) q" for q
    by (simp_all add: h_def hub_recv_effect)
  have ok: "server_ok ?srv"
    using assms(1) hub_wf_recv [of "ps_hub srv" "se_ptr se"] by (simp add: server_ok_def h_def)
  have own: "owns_watcher ?srv se" using assms(2) by (simp add: owns_watcher_def eff)
  show ?thesis unfolding h_def [symmetric]
  proof (cases "\<exists>e. io = SendErr e")
    case True
    then obtain e where io: "io = SendErr e" by blast
    obtain se' srv' where r: "Watch_return (Some e) se ?srv = Some (se', srv')" "session_moves ?srv se srv' se'"
      "\<not> hub_live (ps_hub srv') (se_ptr se)"
      using return_moves [OF ok own, of "Some e"] Watch_return_stream [OF ok, of "Some e" se] by auto
    then have "session_moves srv se srv' se'" using p pc
      by (auto simp: session_moves_def same_watcher_def stream_def eff)
    then show "\<exists>se' srv'. Watch_send io ev WLive se ?srv = Some (se', srv') \<and> session_moves srv se srv' se'"
      using r(1) by (simp add: io Watch_send_def)
  next
    case False
    have "session_moves srv se ?srv (se\<lparr>se_sent := se_sent se @ [ev], se_pc := WLive\<rparr>)"
      using own ok p pc by (auto simp: session_moves_def same_watcher_def owns_watcher_def stream_def eff)
    then show "\<exists>se' srv'. Watch_send io ev WLive se ?srv = Some (se', srv') \<and> session_moves srv se srv' se'"
      using False by (auto simp: Watch_send_def split: watch_io.splits)
  qed
qed

lemma live_moves:
  assumes "server_ok srv" and "owns_watcher srv se" and pc: "se_pc se = WLive"
  shows "\<exists>se' srv'. Watch_step io se srv = Some (se', srv') \<and> session_moves srv se srv' se'"
proof -
  obtain w c where m: "hub_mem (ps_hub srv) (se_ptr se) = Some (w, c)"
    using assms(2) by (auto simp: owns_watcher_def hub_cfg_def)
  have refl: "session_moves srv se srv se" using assms by (simp add: session_moves_def same_watcher_def)
  consider (stop) "io = CtxDone \<or> ch_buf c = []" | (val) ev rest where "io \<noteq> CtxDone" "ch_buf c = ev # rest"
    by (cases "ch_buf c") auto
  then show ?thesis
  proof cases
    case stop
    then show ?thesis using m pc refl return_moves [OF assms(1,2)]
      by (auto simp: Watch_step_def hub_recv_def chan_recv_def)
  next
    case val
    have "hub_pending (ps_hub srv) (se_ptr se) = ev # rest" using m val by (simp add: hub_pending_def)
    moreover have "Watch_step io se srv = Watch_send io ev WLive se (srv\<lparr>ps_hub := snd (hub_recv (se_ptr se) (ps_hub srv))\<rparr>)"
      using val m pc by (simp add: Watch_step_def hub_recv_def chan_recv_def)
    ultimately show ?thesis using received_moves [OF assms] by simp
  qed
qed

lemma Watch_step_moves:
  assumes "server_ok srv" and "owns_watcher srv se"
  shows "\<exists>se' srv'. Watch_step io se srv = Some (se', srv') \<and> session_moves srv se srv' se'"
proof (cases "se_pc se")
  case (WSnapshot rs)
  then show ?thesis
    using send_moves [OF assms, of "added_event (toPB (hd rs))" "WSnapshot (tl rs)" io]
      send_moves [OF assms, of snapshot_end WLive io]
    by (cases rs) (simp_all add: Watch_step_def)
next
  case WLive
  then show ?thesis by (rule live_moves [OF assms])
next
  case (WDone r)
  then show ?thesis using assms by (simp add: Watch_step_def session_moves_def same_watcher_def)
qed

subsection \<open>Effect of an action on the sessions\<close>

fun published_by :: "pending \<Rightarrow> string \<Rightarrow> PolicyEvent list" where
  "published_by (PAdd r) t = (if t = '''' \<or> t = pr_Tenant r then [added_event r] else [])"
| "published_by (PRemove req) t = (if t = '''' \<or> t = rpr_Tenant req then [removed_event (rpr_Id req)] else [])"
| "published_by (PWatch _ _ _) t = []"

fun published :: "conc_label \<Rightarrow> conc_sys \<Rightarrow> string \<Rightarrow> PolicyEvent list" where
  "published (CContinue k) sy t = (if k < length (cs_calls sy) then published_by (cs_calls sy ! k) t else [])"
| "published _ sy t = []"

definition conc_ok :: "conc_sys \<Rightarrow> bool" where
  "conc_ok sy \<longleftrightarrow> server_ok (cs_srv sy) \<and>
     (\<forall>p se. cs_sessions sy p = Some se \<longrightarrow> se_ptr se = p \<and> owns_watcher (cs_srv sy) se)"

text \<open>The stream of a session grows by what is published for its tenant, or the session is dropped.\<close>

definition grows :: "PolicyServer \<Rightarrow> policy_session \<Rightarrow> PolicyEvent list \<Rightarrow> PolicyServer \<Rightarrow> policy_session \<Rightarrow> bool" where
  "grows srv se evs srv' se' \<longleftrightarrow> se_ptr se' = se_ptr se \<and> se_tenant se' = se_tenant se \<and> owns_watcher srv' se' \<and>
     (hub_live (ps_hub srv') (se_ptr se) \<longrightarrow>
        hub_live (ps_hub srv) (se_ptr se) \<and> stream srv' se' = stream srv se @ evs) \<and>
     set (stream srv' se') \<subseteq> set (stream srv se) \<union> set evs"

lemma grows_same:
  assumes "owns_watcher srv se" and "same_watcher (se_ptr se) srv srv'"
  shows "grows srv se [] srv' se"
  using assms by (auto simp: grows_def owns_same stream_same) (simp add: same_watcher_def)

lemma grows_moves: "session_moves srv se srv' se' \<Longrightarrow> grows srv se [] srv' se'"
  by (simp add: session_moves_def grows_def)

lemma grows_publish:
  assumes "server_ok srv" and "owns_watcher srv se" and "policy_broadcast ev t srv = Some srv'"
  shows "grows srv se (if se_tenant se = '''' \<or> se_tenant se = t then [ev] else []) srv' se"
proof -
  obtain h where h: "hub_broadcast (policy_wants t ev) ev (ps_hub srv) = Some h" and srv': "srv' = srv\<lparr>ps_hub := h\<rparr>"
    using assms(3) by (auto simp: policy_broadcast_def)
  have wf: "hub_wf (ps_hub srv)" using assms(1) by (simp add: server_ok_def)
  obtain w where w: "hub_cfg (ps_hub srv) (se_ptr se) = Some w" "pw_tenant w = se_tenant se"
    using assms(2) by (auto simp: owns_watcher_def)
  note eff = hub_broadcast_effect [OF wf h w(1)]
  have wants: "policy_wants t ev w \<longleftrightarrow> se_tenant se = '''' \<or> se_tenant se = t"
    using w(2) by (simp add: policy_wants_def)
  show ?thesis
    using eff(2-4) w(2) wants
    by (cases "hub_live (ps_hub srv) (se_ptr se) \<and> policy_wants t ev w")
       (auto simp: grows_def srv' owns_watcher_def stream_def split: if_splits)
qed

text \<open>Every action is defined, keeps the sessions' watchers, and changes streams as published.\<close>

definition steps_to :: "conc_label \<Rightarrow> conc_sys \<Rightarrow> conc_sys \<Rightarrow> bool" where
  "steps_to l sy sy' \<longleftrightarrow> conc_ok sy' \<and>
     (\<forall>p se. cs_sessions sy p = Some se \<longrightarrow>
        (\<exists>se'. cs_sessions sy' p = Some se' \<and> grows (cs_srv sy) se (published l sy (se_tenant se)) (cs_srv sy') se')) \<and>
     (\<forall>p se'. cs_sessions sy p = None \<longrightarrow> cs_sessions sy' p = Some se' \<longrightarrow>
        (\<exists>k i rows. l = CContinue k \<and> k < length (cs_calls sy) \<and> cs_calls sy ! k = PWatch (se_tenant se') i rows \<and>
           stream (cs_srv sy') se' = map (\<lambda>r. added_event (toPB r)) rows @ [snapshot_end]))"

lemma steps_to_new:
  assumes "steps_to l sy sy'" and "cs_sessions sy p = None" and "cs_sessions sy' p = Some se'"
  obtains k i rows where "l = CContinue k" and "k < length (cs_calls sy)" and "cs_calls sy ! k = PWatch (se_tenant se') i rows"
    and "stream (cs_srv sy') se' = map (\<lambda>r. added_event (toPB r)) rows @ [snapshot_end]"
proof -
  from assms(1) have "cs_sessions sy p = None \<longrightarrow> cs_sessions sy' p = Some se' \<longrightarrow>
      (\<exists>k i rows. l = CContinue k \<and> k < length (cs_calls sy) \<and> cs_calls sy ! k = PWatch (se_tenant se') i rows \<and>
         stream (cs_srv sy') se' = map (\<lambda>r. added_event (toPB r)) rows @ [snapshot_end])"
    unfolding steps_to_def by blast
  with assms(2,3) that show ?thesis by blast
qed

lemma steps_to_old:
  assumes "steps_to l sy sy'" and "cs_sessions sy p = Some se" and "cs_sessions sy' p = Some se'"
  shows "grows (cs_srv sy) se (published l sy (se_tenant se')) (cs_srv sy') se'" and "se_tenant se = se_tenant se'"
proof -
  from assms(1) have "cs_sessions sy p = Some se \<longrightarrow>
      (\<exists>se'. cs_sessions sy' p = Some se' \<and> grows (cs_srv sy) se (published l sy (se_tenant se)) (cs_srv sy') se')"
    unfolding steps_to_def by blast
  with assms(2,3) have "grows (cs_srv sy) se (published l sy (se_tenant se)) (cs_srv sy') se'" by simp
  then show "grows (cs_srv sy) se (published l sy (se_tenant se')) (cs_srv sy') se'" and "se_tenant se = se_tenant se'"
    by (simp_all add: grows_def)
qed

lemma steps_to_frame:
  assumes "conc_ok sy" and "server_ok srv'" and "\<And>q. same_watcher q (cs_srv sy) srv'"
    and "cs_srv sy' = srv'" and "cs_sessions sy' = cs_sessions sy" and "\<And>t. published l sy t = []"
  shows "steps_to l sy sy'"
proof -
  have own: "owns_watcher (cs_srv sy) se" "se_ptr se = p" if "cs_sessions sy p = Some se" for p se
    using assms(1) that by (simp_all add: conc_ok_def)
  then have "owns_watcher srv' se" if "cs_sessions sy p = Some se" for p se
    using owns_same [OF assms(3), of se] that by blast
  then show ?thesis using own assms(2,4,5,6) grows_same [OF _ assms(3)] by (simp add: steps_to_def conc_ok_def)
qed

lemma same_watcher_hub: "ps_hub srv' = ps_hub srv \<Longrightarrow> same_watcher q srv srv'"
  by (simp add: same_watcher_def)

lemma commit_steps:
  assumes "conc_ok sy" and "l = CAdd env uuid req \<or> l = CRemove env rreq \<or> l = CWatch env scan t"
  shows "\<exists>sy'. conc_exec l sy = Some sy' \<and> steps_to l sy sy'"
proof -
  let ?srv = "cs_srv sy"
  have ok: "server_ok ?srv" "store_wf (ps_store ?srv)" using assms(1) by (simp_all add: conc_ok_def server_ok_def)
  have hub: "steps_to l sy sy'" if "server_ok (cs_srv sy')" "ps_hub (cs_srv sy') = ps_hub ?srv"
      "cs_sessions sy' = cs_sessions sy" for sy'
    by (rule steps_to_frame [OF assms(1) that(1) _ refl that(3)])
       (use that(2) assms(2) in \<open>auto intro: same_watcher_hub\<close>)
  from assms(2) consider (add) "l = CAdd env uuid req" | (remove) "l = CRemove env rreq" | (watch) "l = CWatch env scan t" by blast
  then show ?thesis
  proof cases
    case add
    obtain r srv1 where c: "AddPolicy_commit env uuid ?srv req = (r, srv1)" by fastforce
    show ?thesis
    proof (cases r)
      case (Inl e)
      then show ?thesis using add c ok AddPolicy_commit_err [of env uuid ?srv req e srv1] hub by simp
    next
      case (Inr rule)
      note eff = AddPolicy_commit_rules [OF c [unfolded Inr] ok(2)]
      then show ?thesis using add c Inr ok hub by (simp add: server_ok_def)
    qed
  next
    case remove
    obtain r srv1 where c: "RemovePolicy_commit env ?srv rreq = (r, srv1)" by fastforce
    show ?thesis
    proof (cases r)
      case (Inl e)
      then show ?thesis using remove c ok RemovePolicy_commit_err [of env ?srv rreq e srv1] hub by simp
    next
      case (Inr b)
      note eff = RemovePolicy_commit_rules [OF c [unfolded Inr] ok(2)]
      then show ?thesis using remove c Inr ok hub by (cases b) (simp_all add: server_ok_def)
    qed
  next
    case watch
    obtain r srv1 where c: "Watch_list env scan ?srv t = (r, srv1)" by fastforce
    note fr = Watch_list_frame [OF c]
    have "steps_to l sy sy'" if "cs_srv sy' = srv1" "cs_sessions sy' = cs_sessions sy" for sy'
      by (rule steps_to_frame [OF assms(1) _ _ that]) (use fr ok watch in \<open>simp_all add: same_watcher_def\<close>)
    then show ?thesis using watch c by (cases r) auto
  qed
qed

lemma publish_steps:
  assumes "conc_ok sy" and "\<And>t'. published l sy t' = (if t' = '''' \<or> t' = t then [ev] else [])"
    and "policy_broadcast ev t (cs_srv sy) = Some srv'" and "cs_srv sy' = srv'" and "cs_sessions sy' = cs_sessions sy"
  shows "steps_to l sy sy'"
proof -
  have ok: "server_ok (cs_srv sy)" using assms(1) by (simp add: conc_ok_def)
  then have ok': "server_ok srv'" using policy_broadcast_safe [OF ok, of ev t] assms(3) by auto
  have g: "grows (cs_srv sy) se (published l sy (se_tenant se)) srv' se" "se_ptr se = p" if "cs_sessions sy p = Some se" for p se
    using grows_publish [OF ok _ assms(3)] assms(1) that by (simp_all add: assms(2) conc_ok_def)
  then have "owns_watcher srv' se" if "cs_sessions sy p = Some se" for p se
    using that by (auto simp: grows_def)
  then show ?thesis using ok' g assms(4,5) by (simp add: steps_to_def conc_ok_def)
qed

lemma register_steps:
  assumes "conc_ok sy" and "k < length (cs_calls sy)" and "cs_calls sy ! k = PWatch t i rows"
    and "Watch_register t i rows (cs_srv sy) = (se, srv')"
    and "cs_srv sy' = srv'" and "cs_sessions sy' = (cs_sessions sy)(se_ptr se \<mapsto> se)"
  shows "steps_to (CContinue k) sy sy'"
proof -
  let ?srv = "cs_srv sy" and ?w = "\<lparr>pw_id = i, pw_tenant = t\<rparr>"
  have ok: "server_ok ?srv" "hub_wf (ps_hub ?srv)" using assms(1) by (simp_all add: conc_ok_def server_ok_def)
  note rg = Watch_register_keeps [OF ok(1) assms(4)]
  have se: "se_ptr se = hub_alloc (ps_hub ?srv)" and srv': "srv' = ?srv\<lparr>ps_hub := snd (hub_join ?w (ps_hub ?srv))\<rparr>"
    using assms(4) by (auto simp: Watch_register_def hub_join_eq [OF ok(2)] Let_def)
  have old: "grows ?srv x [] srv' x" "se_ptr x = p" "p \<noteq> se_ptr se" if x: "cs_sessions sy p = Some x" for p x
  proof -
    have own: "owns_watcher ?srv x" and p: "se_ptr x = p" using assms(1) x by (simp_all add: conc_ok_def)
    then obtain w where w: "hub_cfg (ps_hub ?srv) (se_ptr x) = Some w" by (auto simp: owns_watcher_def)
    show "grows ?srv x [] srv' x"
      using own w hub_join_effect [OF ok(2) w, of ?w] by (intro grows_same) (simp_all add: same_watcher_def srv')
    show "se_ptr x = p" by (rule p)
    show "p \<noteq> se_ptr se" using w p hub_fresh [OF ok(2)] by (auto simp: se hub_cfg_def)
  qed
  have new: "owns_watcher srv' se" "stream srv' se = map (\<lambda>r. added_event (toPB r)) rows @ [snapshot_end]"
    by (subst rg(5); simp add: owns_watcher_def stream_def rg(6,8))+
  have t: "se_tenant se = t" by (subst rg(5)) simp
  have pub: "published (CContinue k) sy t' = []" for t' using assms(2,3) by simp
  have own': "owns_watcher srv' x" if "cs_sessions sy p = Some x" for p x
    using old(1) [OF that] by (simp add: grows_def)
  show ?thesis
    unfolding steps_to_def assms(5,6) pub
    using new t old own' rg(1) assms(2,3) by (auto simp: conc_ok_def assms(5,6))
qed

lemma continue_steps:
  assumes "conc_ok sy"
  shows "\<exists>sy'. conc_exec (CContinue k) sy = Some sy' \<and> steps_to (CContinue k) sy sy'"
proof (cases "k < length (cs_calls sy)")
  case True
  let ?sy = "sy\<lparr>cs_calls := drop_nth k (cs_calls sy)\<rparr>"
  have ok: "server_ok (cs_srv sy)" using assms by (simp add: conc_ok_def)
  show ?thesis
  proof (cases "cs_calls sy ! k")
    case (PAdd r)
    obtain srv' where b: "policy_broadcast (added_event r) (pr_Tenant r) (cs_srv sy) = Some srv'"
      using policy_broadcast_safe [OF ok] by blast
    have "steps_to (CContinue k) sy (?sy\<lparr>cs_srv := srv'\<rparr>)"
      by (rule publish_steps [OF assms _ b]) (use True PAdd in simp_all)
    then show ?thesis using True PAdd b by (simp add: AddPolicy_publish_def)
  next
    case (PRemove req)
    obtain srv' where b: "policy_broadcast (removed_event (rpr_Id req)) (rpr_Tenant req) (cs_srv sy) = Some srv'"
      using policy_broadcast_safe [OF ok] by blast
    have "steps_to (CContinue k) sy (?sy\<lparr>cs_srv := srv'\<rparr>)"
      by (rule publish_steps [OF assms _ b]) (use True PRemove in simp_all)
    then show ?thesis using True PRemove b by (simp add: RemovePolicy_publish_def)
  next
    case (PWatch t i rows)
    obtain se srv' where g: "Watch_register t i rows (cs_srv sy) = (se, srv')" by fastforce
    have "steps_to (CContinue k) sy (?sy\<lparr>cs_srv := srv', cs_sessions := (cs_sessions sy)(se_ptr se \<mapsto> se)\<rparr>)"
      by (rule register_steps [OF assms True PWatch g]) simp_all
    then show ?thesis using True PWatch g by simp
  qed
next
  case False
  then show ?thesis using assms by (auto intro!: steps_to_frame same_watcher_hub simp: conc_ok_def)
qed

lemma session_steps:
  assumes "conc_ok sy"
  shows "\<exists>sy'. conc_exec (CStep p io) sy = Some sy' \<and> steps_to (CStep p io) sy sy'"
proof (cases "cs_sessions sy p")
  case None
  then show ?thesis using assms by (auto intro!: steps_to_frame same_watcher_hub simp: conc_ok_def)
next
  case (Some se)
  have ok: "server_ok (cs_srv sy)" and own: "owns_watcher (cs_srv sy) se" "se_ptr se = p"
    using assms Some by (simp_all add: conc_ok_def)
  obtain se' srv' where st: "Watch_step io se (cs_srv sy) = Some (se', srv')" and m: "session_moves (cs_srv sy) se srv' se'"
    using Watch_step_moves [OF ok own(1)] by blast
  let ?sy = "sy\<lparr>cs_srv := srv', cs_sessions := (cs_sessions sy)(p \<mapsto> se')\<rparr>"
  have other: "grows (cs_srv sy) x [] srv' x" "se_ptr x = q" if "cs_sessions sy q = Some x" "q \<noteq> p" for q x
    using that assms m own(2) by (auto intro!: grows_same simp: conc_ok_def session_moves_def)
  have ok': "server_ok srv'" "owns_watcher srv' se'" "se_ptr se' = p" using m own(2) by (simp_all add: session_moves_def)
  have "steps_to (CStep p io) sy ?sy"
    using Some other grows_moves [OF m] ok' own(2) by (auto simp: steps_to_def conc_ok_def grows_def)
  then show ?thesis using Some st by simp
qed

lemma conc_exec_steps:
  assumes "conc_ok sy"
  shows "\<exists>sy'. conc_exec l sy = Some sy' \<and> steps_to l sy sy'"
proof (cases l)
  case (CAdd env uuid req)
  then show ?thesis using commit_steps [OF assms, of l env uuid req] by simp
next
  case (CRemove env req)
  then show ?thesis using commit_steps [OF assms, of l env _ _ req] by simp
next
  case (CWatch env scan t)
  then show ?thesis using commit_steps [OF assms, of l env _ _ _ scan t] by simp
qed (use continue_steps [OF assms] session_steps [OF assms] in simp_all)

subsection \<open>No panic under any schedule\<close>

lemma conc_ok_init: "store_wf s \<Longrightarrow> conc_ok (conc_init s)"
  by (simp add: conc_ok_def conc_init_def policy_New_def server_ok_def)

lemma conc_reach_ok: "conc_reach allowed sy \<Longrightarrow> conc_ok sy"
proof (induction rule: conc_reach.induct)
  case (conc_reach_init s)
  then show ?case by (rule conc_ok_init)
next
  case (conc_reach_step sy l sy')
  then show ?case using conc_exec_steps [of sy l] by (auto simp: steps_to_def)
qed

subsection \<open>Provenance\<close>

text \<open>An event that speaks of a rule of tenant t that was stored at some time, or of none.\<close>

definition about_tenant :: "PolicyRule list \<Rightarrow> string \<Rightarrow> PolicyEvent \<Rightarrow> bool" where
  "about_tenant ever t ev \<longleftrightarrow>
     (case pe_Rule ev of
        Some r \<Rightarrow> pr_Tenant r = t \<and> canon_rule r \<in> set ever
      | None \<Rightarrow> pe_Kind ev = POLICY_KIND_SNAPSHOT_END \<or>
          list_ex (\<lambda>r. pr_Tenant r = t \<and> pr_Id r = pe_RemovedId ev) ever)"

text \<open>What a session may be sent: events of its tenant, and of every tenant if it asked for none.\<close>

definition about_watch :: "PolicyRule list \<Rightarrow> string \<Rightarrow> PolicyEvent \<Rightarrow> bool" where
  "about_watch ever t ev \<longleftrightarrow> (\<exists>t'. (t = '''' \<or> t' = t) \<and> about_tenant ever t' ev)"

fun pending_ok :: "PolicyRule list \<Rightarrow> pending \<Rightarrow> bool" where
  "pending_ok ever (PAdd r) \<longleftrightarrow> canon_rule r \<in> set ever"
| "pending_ok ever (PRemove req) \<longleftrightarrow> list_ex (\<lambda>r. pr_Tenant r = rpr_Tenant req \<and> pr_Id r = rpr_Id req) ever"
| "pending_ok ever (PWatch t i rows) \<longleftrightarrow> (\<forall>p \<in> set rows. po_tenant p = t \<and> canon_rule (toPB p) \<in> set ever)"

definition provenance :: "conc_sys \<Rightarrow> bool" where
  "provenance sy \<longleftrightarrow>
     (\<forall>p \<in> set (st_policies (ps_store (cs_srv sy))). canon_rule (toPB p) \<in> set (cs_ever sy)) \<and>
     list_all (pending_ok (cs_ever sy)) (cs_calls sy) \<and>
     (\<forall>p se. cs_sessions sy p = Some se \<longrightarrow> list_all (about_watch (cs_ever sy) (se_tenant se)) (stream (cs_srv sy) se))"

lemma canon_rule_key [simp]: "pr_Tenant (canon_rule r) = pr_Tenant r" "pr_Id (canon_rule r) = pr_Id r"
  by (simp_all add: canon_rule_def)

lemma about_tenant_mono: "set ever \<subseteq> set ever' \<Longrightarrow> about_tenant ever t ev \<Longrightarrow> about_tenant ever' t ev"
  by (auto simp: about_tenant_def list_ex_iff split: option.splits)

lemma pending_ok_mono: "set ever \<subseteq> set ever' \<Longrightarrow> pending_ok ever c \<Longrightarrow> pending_ok ever' c"
  by (cases c) (auto simp: list_ex_iff)

lemma AddPolicy_commit_rows:
  assumes "AddPolicy_commit env uuid srv req = (Inr r, srv')"
  shows "\<exists>p. st_policies (ps_store srv') = st_policies (ps_store srv) @ [p] \<and> canon_rule (toPB p) = canon_rule r"
proof -
  obtain p where p: "store_AddPolicy env (ps_store srv) p = (None, ps_store srv')"
    and "canon_rule (toPB (policy_defaults env p)) = canon_rule r"
    using assms
    by (auto simp: AddPolicy_commit_def Let_def policy_defaults_def canon_rule_def toPB_def
        split: option.splits if_splits prod.splits)
  then show ?thesis using store_AddPolicy_okD(1) [OF p] by simp
qed

lemma RemovePolicy_commit_rows:
  assumes "RemovePolicy_commit env srv req = (Inr b, srv')"
  shows "set (st_policies (ps_store srv')) \<subseteq> set (st_policies (ps_store srv))"
    and "b \<Longrightarrow> \<exists>p \<in> set (st_policies (ps_store srv)). po_tenant p = rpr_Tenant req \<and> po_id p = rpr_Id req"
  using assms by (auto simp: RemovePolicy_commit_def store_RemovePolicy_def Let_def filter_empty_conv split: option.splits)

lemma Watch_list_rows:
  assumes "Watch_list env scan srv t = (Inr (i, rows), srv')" and "is_scan scan"
  shows "set rows = {p \<in> set (st_policies (ps_store srv)). po_tenant p = t}"
  using Watch_list_frame(6) [OF assms(1), of i rows] assms(2)
  by (auto simp: store_ListPolicies_def scan_set split: option.splits)

lemma about_watch_mono: "set ever \<subseteq> set ever' \<Longrightarrow> about_watch ever t ev \<Longrightarrow> about_watch ever' t ev"
  unfolding about_watch_def using about_tenant_mono by blast

lemma published_about:
  assumes "list_all (pending_ok ever) (cs_calls sy)"
  shows "list_all (about_watch ever t) (published l sy t)"
proof (cases l)
  case (CContinue k)
  show ?thesis
  proof (cases "k < length (cs_calls sy)")
    case True
    then have "pending_ok ever (cs_calls sy ! k)" using assms(1) by (simp add: list_all_length)
    then show ?thesis using CContinue True
      by (cases "cs_calls sy ! k") (auto simp: about_watch_def about_tenant_def added_event_def removed_event_def list_ex_iff)
  qed (use CContinue in simp)
qed simp_all

lemma provenance_sessions:
  assumes "provenance sy" and "steps_to l sy sy'" and "set (cs_ever sy) \<subseteq> set (cs_ever sy')"
    and "cs_sessions sy' p = Some se'"
  shows "list_all (about_watch (cs_ever sy') (se_tenant se')) (stream (cs_srv sy') se')"
proof -
  let ?t = "se_tenant se'"
  have calls: "list_all (pending_ok (cs_ever sy)) (cs_calls sy)" using assms(1) by (simp add: provenance_def)
  have "list_all (about_watch (cs_ever sy) ?t) (stream (cs_srv sy') se')"
  proof (cases "cs_sessions sy p")
    case None
    then obtain k i rows where r: "k < length (cs_calls sy)" "cs_calls sy ! k = PWatch ?t i rows"
      "stream (cs_srv sy') se' = map (\<lambda>r. added_event (toPB r)) rows @ [snapshot_end]"
      by (rule steps_to_new [OF assms(2) _ assms(4)])
    have "pending_ok (cs_ever sy) (PWatch ?t i rows)" using r calls by (metis list_all_length)
    then have "list_all (about_tenant (cs_ever sy) ?t) (stream (cs_srv sy') se')"
      by (auto simp: r(3) list_all_iff about_tenant_def added_event_def snapshot_end_def toPB_def)
    then show ?thesis by (auto simp: list_all_iff about_watch_def)
  next
    case (Some se)
    note g = steps_to_old(1) [OF assms(2) Some assms(4)] and t = steps_to_old(2) [OF assms(2) Some assms(4)]
    have "list_all (about_watch (cs_ever sy) ?t) (stream (cs_srv sy) se)"
      using assms(1) Some unfolding provenance_def t [symmetric] by blast
    moreover have "list_all (about_watch (cs_ever sy) ?t) (published l sy ?t)" by (rule published_about [OF calls])
    ultimately show ?thesis using g unfolding grows_def list_all_iff by blast
  qed
  then show ?thesis using about_watch_mono [OF assms(3)] by (auto simp: list_all_iff)
qed

text \<open>The part of provenance that is about the store and the pending calls.\<close>

definition sourced :: "conc_sys \<Rightarrow> bool" where
  "sourced sy \<longleftrightarrow> (\<forall>p \<in> set (st_policies (ps_store (cs_srv sy))). canon_rule (toPB p) \<in> set (cs_ever sy)) \<and>
     list_all (pending_ok (cs_ever sy)) (cs_calls sy)"

lemma sourced_add:
  assumes "sourced sy" and "conc_exec (CAdd env uuid req) sy = Some sy'"
  shows "sourced sy' \<and> set (cs_ever sy) \<subseteq> set (cs_ever sy')"
proof -
  have more: "list_all (pending_ok (x # cs_ever sy)) (cs_calls sy)" for x
    using assms(1) pending_ok_mono [of "cs_ever sy" "x # cs_ever sy"] by (auto simp: sourced_def list_all_iff)
  obtain r srv1 where c: "AddPolicy_commit env uuid (cs_srv sy) req = (r, srv1)" by fastforce
  then show ?thesis
    using assms more AddPolicy_commit_err [of env uuid "cs_srv sy" req _ srv1] AddPolicy_commit_rows [of env uuid "cs_srv sy" req _ srv1]
    unfolding sourced_def by (cases r) fastforce+
qed

lemma sourced_remove:
  assumes "sourced sy" and "conc_exec (CRemove env req) sy = Some sy'"
  shows "sourced sy' \<and> set (cs_ever sy) \<subseteq> set (cs_ever sy')"
proof -
  obtain r srv1 where c: "RemovePolicy_commit env (cs_srv sy) req = (r, srv1)" by fastforce
  show ?thesis
  proof (cases r)
    case (Inl e)
    then show ?thesis using c assms RemovePolicy_commit_err [of env "cs_srv sy" req e srv1] by (auto simp: sourced_def)
  next
    case (Inr b)
    note rr = RemovePolicy_commit_rows [OF c [unfolded Inr]]
    have "pending_ok (cs_ever sy) (PRemove req)" if b
      using rr(2) [OF that] assms(1) by (force simp: sourced_def list_ex_iff toPB_def canon_rule_def)
    then show ?thesis using c Inr assms rr(1) by (cases b) (auto simp: sourced_def)
  qed
qed

lemma sourced_watch:
  assumes "sourced sy" and "is_scan scan" and "conc_exec (CWatch env scan t) sy = Some sy'"
  shows "sourced sy' \<and> set (cs_ever sy) \<subseteq> set (cs_ever sy')"
proof -
  obtain r srv1 where c: "Watch_list env scan (cs_srv sy) t = (r, srv1)" by fastforce
  have st: "ps_store srv1 = ps_store (cs_srv sy)" by (rule Watch_list_frame(1) [OF c])
  show ?thesis
  proof (cases r)
    case (Inr x)
    obtain i rws where x: "x = (i, rws)" by (cases x)
    have "pending_ok (cs_ever sy) (PWatch t i rws)"
      using Watch_list_rows [OF c [unfolded Inr x]] assms(1,2) by (simp add: sourced_def)
    then show ?thesis using c Inr x assms st by (auto simp: sourced_def)
  qed (use c assms st in \<open>auto simp: sourced_def\<close>)
qed

lemma provenance_store:
  assumes "sourced sy" and "conc_ok sy" and "conc_label_ok l" and "conc_exec l sy = Some sy'"
  shows "sourced sy' \<and> set (cs_ever sy) \<subseteq> set (cs_ever sy')"
proof (cases l)
  case (CContinue k)
  have "list_all (pending_ok (cs_ever sy)) (drop_nth k (cs_calls sy))"
    using assms(1) by (auto simp: sourced_def list_all_iff dest: in_drop_nth)
  then show ?thesis using CContinue assms(1,4) unfolding sourced_def
    by (cases "cs_calls sy ! k")
       (auto simp: AddPolicy_publish_def RemovePolicy_publish_def policy_broadcast_def Watch_register_def Let_def
         split: if_splits prod.splits)
next
  case (CStep p io)
  show ?thesis
  proof (cases "cs_sessions sy p")
    case (Some se)
    have "server_ok (cs_srv sy)" "owns_watcher (cs_srv sy) se" using assms(2) Some by (simp_all add: conc_ok_def)
    from Watch_step_moves [OF this, of io] show ?thesis
      using CStep Some assms(1,4) by (auto simp: sourced_def session_moves_def)
  qed (use CStep assms in auto)
qed (use assms sourced_add [OF assms(1)] sourced_remove [OF assms(1)] sourced_watch [OF assms(1)] in \<open>simp_all only: conc_label_ok.simps\<close>)

lemma conc_reach_provenance: "conc_reach allowed sy \<Longrightarrow> provenance sy"
proof (induction rule: conc_reach.induct)
  case (conc_reach_init s)
  then show ?case by (simp add: provenance_def conc_init_def policy_New_def)
next
  case (conc_reach_step sy l sy')
  have ok: "conc_ok sy" by (rule conc_reach_ok [OF conc_reach_step.hyps(1)])
  have "steps_to l sy sy'" using conc_exec_steps [OF ok, of l] conc_reach_step.hyps(4) by simp
  moreover have "sourced sy" using conc_reach_step.IH by (simp add: provenance_def sourced_def)
  note provenance_store [OF this ok conc_reach_step.hyps(2,4)]
  ultimately show ?case using provenance_sessions [OF conc_reach_step.IH]
    by (auto simp: provenance_def sourced_def)
qed

subsection \<open>The mirror under race-free schedules\<close>

text \<open>What a pending call has left in the store; a half-begun Watch has listed what is still there.\<close>

fun settled :: "Store \<Rightarrow> pending \<Rightarrow> bool" where
  "settled s (PAdd r) \<longleftrightarrow> tenant_rules s (pr_Tenant r) (pr_Id r) = Some (canon_rule r)"
| "settled s (PRemove req) \<longleftrightarrow> tenant_rules s (rpr_Tenant req) (rpr_Id req) = None"
| "settled s (PWatch t i rows) \<longleftrightarrow> mirror (map (\<lambda>r. added_event (toPB r)) rows) = tenant_rules s t"

definition mirrors :: "Store \<Rightarrow> pending list \<Rightarrow> string \<Rightarrow> PolicyEvent list \<Rightarrow> bool" where
  "mirrors s calls t evs \<longleftrightarrow> (\<forall>i. i \<notin> set (in_flight t calls) \<longrightarrow> mirror evs i = tenant_rules s t i)"

definition in_step :: "conc_sys \<Rightarrow> bool" where
  "in_step sy \<longleftrightarrow> list_all (settled (ps_store (cs_srv sy))) (cs_calls sy) \<and>
     (\<forall>p se. cs_sessions sy p = Some se \<longrightarrow> se_tenant se \<noteq> '''' \<longrightarrow> hub_live (ps_hub (cs_srv sy)) p \<longrightarrow>
        mirrors (ps_store (cs_srv sy)) (cs_calls sy) (se_tenant se) (stream (cs_srv sy) se))"

lemma in_flight_iff: "i \<in> set (in_flight t calls) \<longleftrightarrow> (\<exists>c \<in> set calls. pending_id t c = Some i)"
  by (auto simp: in_flight_def List.map_filter_def image_iff)

lemma in_flight_append [simp]: "in_flight t (xs @ ys) = in_flight t xs @ in_flight t ys"
  by (simp add: in_flight_def List.map_filter_def)

lemma in_flight_single [simp]: "in_flight t [c] = (case pending_id t c of None \<Rightarrow> [] | Some i \<Rightarrow> [i])"
  by (auto simp: in_flight_def List.map_filter_def split: option.splits)

lemma in_flight_drop:
  assumes "k < length calls" and "i \<notin> set (in_flight t (drop_nth k calls))" and "pending_id t (calls ! k) \<noteq> Some i"
  shows "i \<notin> set (in_flight t calls)"
proof -
  have c: "calls = take k calls @ [calls ! k] @ drop (Suc k) calls" using id_take_nth_drop [OF assms(1)] by simp
  show ?thesis using assms(2,3) by (subst c) (auto simp: drop_nth_def in_flight_iff simp del: append_take_drop_id)
qed

lemma in_step_sessions:
  assumes "in_step sy" and "steps_to l sy sy'" and same: "\<And>k. l = CContinue k \<Longrightarrow> ps_store (cs_srv sy') = ps_store (cs_srv sy)"
    and keep: "\<And>t evs. t \<noteq> '''' \<Longrightarrow> mirrors (ps_store (cs_srv sy)) (cs_calls sy) t evs \<Longrightarrow>
          mirrors (ps_store (cs_srv sy')) (cs_calls sy') t (evs @ published l sy t)"
    and "cs_sessions sy' p = Some se'" and "se_tenant se' \<noteq> ''''" and "hub_live (ps_hub (cs_srv sy')) p"
  shows "mirrors (ps_store (cs_srv sy')) (cs_calls sy') (se_tenant se') (stream (cs_srv sy') se')"
proof (cases "cs_sessions sy p")
  case None
  obtain k i rows where r: "l = CContinue k" "k < length (cs_calls sy)" "cs_calls sy ! k = PWatch (se_tenant se') i rows"
    "stream (cs_srv sy') se' = map (\<lambda>r. added_event (toPB r)) rows @ [snapshot_end]"
    by (rule steps_to_new [OF assms(2) None assms(5)])
  have "settled (ps_store (cs_srv sy)) (PWatch (se_tenant se') i rows)"
    using assms(1) r(2,3) by (metis in_step_def list_all_length)
  then have "mirror (stream (cs_srv sy') se') = tenant_rules (ps_store (cs_srv sy')) (se_tenant se')"
    using r(4) same [OF r(1)] mirror_simps(3) [of "map (\<lambda>r. added_event (toPB r)) rows" "[]"] by simp
  then show ?thesis by (simp add: mirrors_def)
next
  case (Some se)
  note g = steps_to_old [OF assms(2) Some assms(5)]
  have p: "se_ptr se = p" using assms(2,5) g(1) by (auto simp: steps_to_def conc_ok_def grows_def)
  have l: "hub_live (ps_hub (cs_srv sy)) p"
    and st: "stream (cs_srv sy') se' = stream (cs_srv sy) se @ published l sy (se_tenant se')"
    using g(1) assms(7) p by (auto simp: grows_def)
  have "mirrors (ps_store (cs_srv sy)) (cs_calls sy) (se_tenant se') (stream (cs_srv sy) se)"
    using assms(1,6) Some l g(2) unfolding in_step_def by metis
  from keep [OF assms(6) this] show ?thesis by (simp add: st)
qed

lemma AddPolicy_commit_id:
  assumes "AddPolicy_commit env uuid srv req = (Inr r, srv')"
  shows "\<exists>r0. apr_Rule req = Some r0 \<and> pr_Tenant r = pr_Tenant r0 \<and> pr_Id r = (if pr_Id r0 = '''' then uuid else pr_Id r0)"
  using assms by (auto simp: AddPolicy_commit_def Let_def split: option.splits if_splits prod.splits)

text \<open>A quiet commit changes one rule of one tenant, and from then on that rule is in flight.\<close>

lemma quiet_commit:
  assumes "in_step sy" and "steps_to l sy sy'" and "\<And>t. published l sy t = []" and "\<And>k. l \<noteq> CContinue k"
    and "quiet t i sy" and "pending_id t c = Some i" and "\<And>t'. t' \<noteq> t \<Longrightarrow> pending_id t' c = None"
    and "cs_calls sy' = cs_calls sy @ [c]" and "settled (ps_store (cs_srv sy')) c"
    and rules: "\<And>t' j. (t', j) \<noteq> (t, i) \<Longrightarrow> tenant_rules (ps_store (cs_srv sy')) t' j = tenant_rules (ps_store (cs_srv sy)) t' j"
  shows "in_step sy'"
proof -
  have old: "settled (ps_store (cs_srv sy')) c'" if "c' \<in> set (cs_calls sy)" for c'
  proof -
    have s: "settled (ps_store (cs_srv sy)) c'" using assms(1) that by (simp add: in_step_def list_all_iff)
    have q: "pending_id t c' \<noteq> Some i" "\<not> is_watch_of t c'"
      using assms(5) that by (auto simp: quiet_def in_flight_iff list_ex_iff)
    show ?thesis
    proof (cases c')
      case (PAdd r)
      then show ?thesis using s q rules [of "pr_Tenant r" "pr_Id r"] by (cases "pr_Tenant r = t") auto
    next
      case (PRemove req)
      then show ?thesis using s q rules [of "rpr_Tenant req" "rpr_Id req"] by (cases "rpr_Tenant req = t") auto
    next
      case (PWatch t' k rows)
      then show ?thesis using s q rules [of t'] by (auto simp: fun_eq_iff)
    qed
  qed
  have "mirrors (ps_store (cs_srv sy')) (cs_calls sy') t' (evs @ published l sy t')"
    if m: "mirrors (ps_store (cs_srv sy)) (cs_calls sy) t' evs" for t' evs
    unfolding mirrors_def
  proof (intro allI impI)
    fix j assume j: "j \<notin> set (in_flight t' (cs_calls sy'))"
    then have "(t', j) \<noteq> (t, i)" using assms(6) by (auto simp: assms(8))
    then show "mirror (evs @ published l sy t') j = tenant_rules (ps_store (cs_srv sy')) t' j"
      using m j rules by (simp add: assms(3,8) mirrors_def)
  qed
  then have "mirrors (ps_store (cs_srv sy')) (cs_calls sy') (se_tenant se) (stream (cs_srv sy') se)"
    if "cs_sessions sy' p = Some se" "se_tenant se \<noteq> ''''" "hub_live (ps_hub (cs_srv sy')) p" for p se
    using assms(4) by (intro in_step_sessions [OF assms(1,2) _ _ that]) auto
  then show ?thesis using old assms(9) unfolding in_step_def by (auto simp: assms(8) list_all_iff)
qed

text \<open>An action that leaves the rules of the store alone and adds no call but a settled one.\<close>

lemma frame_in_step:
  assumes "in_step sy" and "steps_to l sy sy'" and "\<And>t. published l sy t = []"
    and "\<And>t. tenant_rules (ps_store (cs_srv sy')) t = tenant_rules (ps_store (cs_srv sy)) t" and "\<And>k. l \<noteq> CContinue k"
    and "cs_calls sy' = cs_calls sy @ cs" and "list_all (settled (ps_store (cs_srv sy'))) cs" and "\<And>t. in_flight t cs = []"
  shows "in_step sy'"
proof -
  have old: "settled (ps_store (cs_srv sy')) c = settled (ps_store (cs_srv sy)) c" for c
    by (cases c) (simp_all add: assms(4))
  have "mirrors (ps_store (cs_srv sy')) (cs_calls sy') (se_tenant se) (stream (cs_srv sy') se)"
    if "cs_sessions sy' p = Some se" "se_tenant se \<noteq> ''''" "hub_live (ps_hub (cs_srv sy')) p" for p se
    using assms(3-6,8) by (intro in_step_sessions [OF assms(1,2) _ _ that]) (auto simp: mirrors_def)
  moreover have "list_all (settled (ps_store (cs_srv sy'))) (cs_calls sy')"
    using assms(1,7) by (simp add: in_step_def assms(6) old [abs_def])
  ultimately show ?thesis unfolding in_step_def by blast
qed

lemma commit_in_step:
  assumes "in_step sy" and "conc_ok sy" and "race_free l sy" and "conc_exec l sy = Some sy'" and "steps_to l sy sy'"
    and "l = CAdd env uuid req \<or> l = CRemove env rreq"
  shows "in_step sy'"
  using assms(6)
proof
  assume l: "l = CAdd env uuid req"
  have wf: "store_wf (ps_store (cs_srv sy))" using assms(2) by (simp add: conc_ok_def server_ok_def)
  obtain r srv1 where c: "AddPolicy_commit env uuid (cs_srv sy) req = (r, srv1)" by fastforce
  show ?thesis
  proof (cases r)
    case (Inl e)
    then show ?thesis using l c assms(1,4) AddPolicy_commit_err [of env uuid "cs_srv sy" req e srv1] by auto
  next
    case (Inr rule)
    have sy': "cs_srv sy' = srv1" "cs_calls sy' = cs_calls sy @ [PAdd rule]" using l c Inr assms(4) by auto
    have q: "quiet (pr_Tenant rule) (pr_Id rule) sy"
      using AddPolicy_commit_id [OF c [unfolded Inr]] assms(3) l by (auto split: if_splits)
    show ?thesis
      by (rule quiet_commit [OF assms(1,5) _ _ q _ _ sy'(2)])
         (use l in \<open>auto simp: sy' AddPolicy_commit_rules(3) [OF c [unfolded Inr] wf]\<close>)
  qed
next
  assume l: "l = CRemove env rreq"
  have wf: "store_wf (ps_store (cs_srv sy))" using assms(2) by (simp add: conc_ok_def server_ok_def)
  obtain r srv1 where c: "RemovePolicy_commit env (cs_srv sy) rreq = (r, srv1)" by fastforce
  consider (err) e where "r = Inl e" | (gone) "r = Inr True" | (none) "r = Inr False" by (cases r) auto
  then show ?thesis
  proof cases
    case err
    then show ?thesis using l c assms(1,4) RemovePolicy_commit_err [of env "cs_srv sy" rreq e srv1] by auto
  next
    case gone
    have sy': "cs_srv sy' = srv1" "cs_calls sy' = cs_calls sy @ [PRemove rreq]" using l c gone assms(4) by auto
    have q: "quiet (rpr_Tenant rreq) (rpr_Id rreq) sy" using assms(3) l by simp
    show ?thesis
      by (rule quiet_commit [OF assms(1,5) _ _ q _ _ sy'(2)])
         (use l in \<open>auto simp: sy' RemovePolicy_commit_rules(3) [OF c [unfolded gone] wf]\<close>)
  next
    case none
    have sy': "cs_srv sy' = srv1" "cs_calls sy' = cs_calls sy @ []" using l c none assms(4) by auto
    show ?thesis
      by (rule frame_in_step [OF assms(1,5) _ _ _ sy'(2)])
         (use l in \<open>simp_all add: sy' RemovePolicy_commit_rules(4) [OF c [unfolded none] wf] in_flight_def List.map_filter_def\<close>)
  qed
qed

lemma listing_in_step:
  assumes "in_step sy" and "conc_ok sy" and "is_scan scan" and "conc_exec (CWatch env scan t) sy = Some sy'"
    and "steps_to (CWatch env scan t) sy sy'"
  shows "in_step sy'"
proof -
  have wf: "store_wf (ps_store (cs_srv sy))" using assms(2) by (simp add: conc_ok_def server_ok_def)
  obtain r srv1 where c: "Watch_list env scan (cs_srv sy) t = (r, srv1)" by fastforce
  note st = Watch_list_frame(1) [OF c]
  show ?thesis
  proof (cases r)
    case (Inl e)
    have sy': "cs_srv sy' = srv1" "cs_calls sy' = cs_calls sy @ []" using c Inl assms(4) by auto
    show ?thesis
      by (rule frame_in_step [OF assms(1,5) _ _ _ sy'(2)]) (simp_all add: sy' st in_flight_def List.map_filter_def)
  next
    case (Inr x)
    obtain i rows where x: "x = (i, rows)" by (cases x)
    have sy': "cs_srv sy' = srv1" "cs_calls sy' = cs_calls sy @ [PWatch t i rows]" using c Inr x assms(4) by auto
    have "mirror (map (\<lambda>r. added_event (toPB r)) rows) = tenant_rules (ps_store (cs_srv sy)) t"
      using Watch_list_frame(6) [OF c] Inr x by (intro snapshot_rules [OF wf assms(3)]) simp
    then show ?thesis
      by (intro frame_in_step [OF assms(1,5) _ _ _ sy'(2)]) (simp_all add: sy' st)
  qed
qed

lemma publish_mirrors:
  assumes "settled s c" and "t \<noteq> ''''" and "k < length calls" and "calls ! k = c" and "mirrors s calls t evs"
  shows "mirrors s (drop_nth k calls) t (evs @ published_by c t)"
proof -
  have *: "mirror evs j = tenant_rules s t j" if "j \<notin> set (in_flight t (drop_nth k calls))" "pending_id t c \<noteq> Some j" for j
    using in_flight_drop [OF assms(3) that(1)] that(2) assms(4,5) by (simp add: mirrors_def)
  show ?thesis
    unfolding mirrors_def
  proof (intro allI impI)
    fix j assume j: "j \<notin> set (in_flight t (drop_nth k calls))"
    show "mirror (evs @ published_by c t) j = tenant_rules s t j"
      using assms(1,2) * [OF j] by (cases c) (auto split: if_splits)
  qed
qed

lemma continue_store:
  "conc_exec (CContinue k) sy = Some sy' \<Longrightarrow> k < length (cs_calls sy) \<Longrightarrow>
     ps_store (cs_srv sy') = ps_store (cs_srv sy) \<and> cs_calls sy' = drop_nth k (cs_calls sy)"
  by (cases "cs_calls sy ! k")
     (auto simp: AddPolicy_publish_def RemovePolicy_publish_def policy_broadcast_def Watch_register_def Let_def
       split: if_splits prod.splits)

lemma continue_in_step:
  assumes "in_step sy" and "conc_exec (CContinue k) sy = Some sy'" and "steps_to (CContinue k) sy sy'"
  shows "in_step sy'"
proof (cases "k < length (cs_calls sy)")
  case True
  note st = continue_store [OF assms(2) True]
  have calls: "list_all (settled (ps_store (cs_srv sy))) (cs_calls sy)" using assms(1) by (simp add: in_step_def)
  then have "settled (ps_store (cs_srv sy)) (cs_calls sy ! k)" using True by (simp add: list_all_length)
  then have "mirrors (ps_store (cs_srv sy')) (cs_calls sy') (se_tenant se) (stream (cs_srv sy') se)"
    if "cs_sessions sy' p = Some se" "se_tenant se \<noteq> ''''" "hub_live (ps_hub (cs_srv sy')) p" for p se
    using True publish_mirrors by (intro in_step_sessions [OF assms(1,3) _ _ that]) (simp_all add: st)
  moreover have "list_all (settled (ps_store (cs_srv sy'))) (cs_calls sy')"
    using calls by (auto simp: st list_all_iff dest: in_drop_nth)
  ultimately show ?thesis unfolding in_step_def by blast
next
  case False
  then show ?thesis using assms by simp
qed

lemma step_in_step:
  assumes "in_step sy" and "conc_ok sy" and "conc_exec (CStep p io) sy = Some sy'" and "steps_to (CStep p io) sy sy'"
  shows "in_step sy'"
proof (cases "cs_sessions sy p")
  case None
  then show ?thesis using assms by simp
next
  case (Some se)
  have "server_ok (cs_srv sy)" "owns_watcher (cs_srv sy) se" using assms(2) Some by (simp_all add: conc_ok_def)
  from Watch_step_moves [OF this, of io]
  have sy': "ps_store (cs_srv sy') = ps_store (cs_srv sy)" "cs_calls sy' = cs_calls sy @ []"
    using Some assms(3) by (auto simp: session_moves_def)
  show ?thesis
    by (rule frame_in_step [OF assms(1,4) _ _ _ sy'(2)]) (simp_all add: sy' in_flight_def List.map_filter_def)
qed

lemma conc_reach_in_step: "conc_reach race_free sy \<Longrightarrow> in_step sy"
proof (induction rule: conc_reach.induct)
  case (conc_reach_init s)
  then show ?case by (simp add: in_step_def conc_init_def)
next
  case (conc_reach_step sy l sy')
  note h = conc_reach_step.hyps
  have ok: "conc_ok sy" by (rule conc_reach_ok [OF h(1)])
  have st: "steps_to l sy sy'" using conc_exec_steps [OF ok, of l] h(4) by simp
  show ?case
  proof (cases l)
    case (CAdd env uuid req)
    then show ?thesis using commit_in_step [OF conc_reach_step.IH ok h(3,4) st] by blast
  next
    case (CRemove env req)
    then show ?thesis using commit_in_step [OF conc_reach_step.IH ok h(3,4) st] by blast
  next
    case (CWatch env scan t)
    then show ?thesis using listing_in_step [OF conc_reach_step.IH ok, of scan env t sy'] h(2,4) st by simp
  next
    case (CContinue k)
    then show ?thesis using continue_in_step [OF conc_reach_step.IH] h(4) st by simp
  next
    case (CStep p io)
    then show ?thesis using step_in_step [OF conc_reach_step.IH ok] h(4) st by simp
  qed
qed

subsection \<open>Whole calls are schedules\<close>

primrec conc_run :: "conc_label list \<Rightarrow> conc_sys \<Rightarrow> conc_sys option" where
  "conc_run [] sy = Some sy"
| "conc_run (l # ls) sy = (case conc_exec l sy of None \<Rightarrow> None | Some sy' \<Rightarrow> conc_run ls sy')"

primrec run_allowed :: "(conc_label \<Rightarrow> conc_sys \<Rightarrow> bool) \<Rightarrow> conc_label list \<Rightarrow> conc_sys \<Rightarrow> bool" where
  "run_allowed allowed [] sy \<longleftrightarrow> True"
| "run_allowed allowed (l # ls) sy \<longleftrightarrow> conc_label_ok l \<and> allowed l sy \<and>
     (case conc_exec l sy of None \<Rightarrow> True | Some sy' \<Rightarrow> run_allowed allowed ls sy')"

lemma conc_reach_run:
  "conc_reach allowed sy \<Longrightarrow> run_allowed allowed ls sy \<Longrightarrow> conc_run ls sy = Some sy' \<Longrightarrow> conc_reach allowed sy'"
  by (induction ls arbitrary: sy) (auto intro: conc_reach_step split: option.splits)

text \<open>The schedule of a whole call, and the state of the other model.\<close>

fun as_schedule :: "policy_label \<Rightarrow> conc_label list" where
  "as_schedule (LAdd env uuid req) = [CAdd env uuid req, CContinue 0]"
| "as_schedule (LRemove env req) = [CRemove env req, CContinue 0]"
| "as_schedule (LWatch env scan t) = [CWatch env scan t, CContinue 0]"
| "as_schedule (LStep p io) = [CStep p io]"

definition as_sys :: "conc_sys \<Rightarrow> policy_sys" where
  "as_sys sy = \<lparr>sy_srv = cs_srv sy, sy_sessions = cs_sessions sy\<rparr>"

lemma quiet_idle: "cs_calls sy = [] \<Longrightarrow> quiet t i sy"
  by (simp add: quiet_def in_flight_def List.map_filter_def)

lemma as_schedule_run:
  assumes "cs_calls sy = []" and "label_ok l" and "policy_exec l (as_sys sy) = Some psy'"
  shows "run_allowed race_free (as_schedule l) sy \<and>
     (\<exists>sy'. conc_run (as_schedule l) sy = Some sy' \<and> cs_calls sy' = [] \<and> as_sys sy' = psy')"
proof (cases l)
  case (LAdd env uuid req)
  obtain r srv1 where "AddPolicy_commit env uuid (cs_srv sy) req = (r, srv1)" by fastforce
  then show ?thesis using assms LAdd quiet_idle [OF assms(1)]
    by (cases r) (auto simp: AddPolicy_def as_sys_def drop_nth_def split: option.splits)
next
  case (LRemove env req)
  obtain r srv1 where "RemovePolicy_commit env (cs_srv sy) req = (r, srv1)" by fastforce
  then show ?thesis using assms LRemove quiet_idle [OF assms(1)]
    by (cases r) (auto simp: RemovePolicy_def as_sys_def drop_nth_def split: option.splits bool.splits)
next
  case (LWatch env scan t)
  obtain r srv1 where "Watch_list env scan (cs_srv sy) t = (r, srv1)" by fastforce
  then show ?thesis using assms LWatch
    by (cases r) (auto simp: Watch_begin_def as_sys_def drop_nth_def split: option.splits prod.splits)
next
  case (LStep p io)
  then show ?thesis using assms by (auto simp: as_sys_def split: option.splits)
qed

lemma policy_reach_schedule:
  "policy_reach psy \<Longrightarrow> \<exists>sy. conc_reach race_free sy \<and> cs_calls sy = [] \<and> as_sys sy = psy"
proof (induction rule: policy_reach.induct)
  case (policy_reach_init s)
  then have "conc_reach race_free (conc_init s)" by (rule conc_reach_init)
  then show ?case by (intro exI [of _ "conc_init s"]) (simp add: conc_init_def as_sys_def)
next
  case (policy_reach_step psy l psy')
  then obtain sy where sy: "conc_reach race_free sy" "cs_calls sy = []" "as_sys sy = psy" by blast
  from as_schedule_run [OF sy(2), of l psy'] policy_reach_step.hyps sy(3)
  obtain sy' where "run_allowed race_free (as_schedule l) sy" "conc_run (as_schedule l) sy = Some sy'"
    "cs_calls sy' = []" "as_sys sy' = psy'" by auto
  then show ?case using conc_reach_run [OF sy(1)] by blast
qed

subsection \<open>Properties\<close>

text \<open>
  The Watch stream mirrors the store under concurrent calls: in every state reached by a schedule
  that never commits on a rule another call has pending, nor for a tenant between the listing and
  the registration of a Watch of that tenant, a session of a non-empty tenant that is in its live
  phase, is registered and has nothing queued holds, for every rule id that no call has in flight,
  exactly what the store has for that tenant, up to the creation time.
\<close>

theorem policy_mirror_concurrent:
  assumes "conc_reach race_free sy" and "cs_sessions sy p = Some se" and "se_pc se = WLive" and "se_tenant se \<noteq> ''''"
    and "hub_live (ps_hub (cs_srv sy)) p" and "hub_pending (ps_hub (cs_srv sy)) p = []"
    and "i \<notin> set (in_flight (se_tenant se) (cs_calls sy))"
  shows "mirror (se_sent se) i = tenant_rules (ps_store (cs_srv sy)) (se_tenant se) i"
proof -
  have "se_ptr se = p" using conc_reach_ok [OF assms(1)] assms(2) by (simp add: conc_ok_def)
  then have "stream (cs_srv sy) se = se_sent se" using assms(3,6) by (simp add: stream_def)
  moreover have "mirrors (ps_store (cs_srv sy)) (cs_calls sy) (se_tenant se) (stream (cs_srv sy) se)"
    using conc_reach_in_step [OF assms(1)] assms(2,4,5) unfolding in_step_def by blast
  ultimately show ?thesis using assms(7) by (simp add: mirrors_def)
qed

text \<open>Two rules are committed; the broadcast of the second overtakes that of the first.\<close>

definition overtaking :: "conc_label list" where
  "overtaking = [CWatch (ok_env 1) id ''acme'', CContinue 0, CStep 0 SendOK,
     CAdd (ok_env 2) ''u'' \<lparr>apr_Rule = Some demo_rule\<rparr>,
     CAdd (ok_env 3) ''u'' \<lparr>apr_Rule = Some (demo_rule\<lparr>pr_Id := ''p2''\<rparr>)\<rparr>,
     CContinue 1, CStep 0 SendOK]"

lemmas conc_eval = policy_eval overtaking_def conc_init_def drop_nth_def quiet_def in_flight_def List.map_filter_def

lemma overtaking_state:
  "\<exists>sy se. conc_run overtaking (conc_init empty_store) = Some sy \<and> cs_sessions sy 0 = Some se \<and> se_pc se = WLive \<and>
     se_tenant se = ''acme'' \<and> hub_live (ps_hub (cs_srv sy)) 0 \<and> hub_pending (ps_hub (cs_srv sy)) 0 = [] \<and>
     se_sent se = [snapshot_end, added_event (demo_rule\<lparr>pr_Id := ''p2''\<rparr>)] \<and> cs_calls sy = [PAdd demo_rule]"
  by (simp add: conc_eval hub_live_def hub_pending_def)

lemma overtaking_race_free: "run_allowed race_free overtaking (conc_init empty_store)"
  by (simp add: conc_eval is_scan_def)

lemma conc_reach_overtaking:
  "conc_run overtaking (conc_init empty_store) = Some sy \<Longrightarrow> conc_reach race_free sy"
  by (rule conc_reach_run [OF conc_reach_init overtaking_race_free]) (simp_all add: store_wf_def empty_store_def)

theorem policy_mirror_concurrent_witness:
  "\<exists>sy. conc_run overtaking (conc_init empty_store) = Some sy \<and> in_flight ''acme'' (cs_calls sy) = [''p1''] \<and>
     tenant_rules (ps_store (cs_srv sy)) ''acme'' ''p2'' = Some (canon_rule (demo_rule\<lparr>pr_Id := ''p2''\<rparr>))"
proof -
  obtain sy se where run: "conc_run overtaking (conc_init empty_store) = Some sy" and
    se: "cs_sessions sy 0 = Some se" "se_pc se = WLive" "se_tenant se = ''acme''"
    "hub_live (ps_hub (cs_srv sy)) 0" "hub_pending (ps_hub (cs_srv sy)) 0 = []"
    "se_sent se = [snapshot_end, added_event (demo_rule\<lparr>pr_Id := ''p2''\<rparr>)]" "cs_calls sy = [PAdd demo_rule]"
    using overtaking_state by blast
  have f: "in_flight ''acme'' (cs_calls sy) = [''p1'']" by (simp add: se(7) demo_rule_def)
  have m: "mirror (se_sent se) ''p2'' = Some (canon_rule (demo_rule\<lparr>pr_Id := ''p2''\<rparr>))"
    using mirror_simps(1) [of "[snapshot_end]" "demo_rule\<lparr>pr_Id := ''p2''\<rparr>"] by (simp add: se(6))
  from policy_mirror_concurrent [OF conc_reach_overtaking [OF run] se(1,2) _ se(4,5), of "''p2''"]
  show ?thesis using run f m by (simp add: se(3))
qed

text \<open>
  The policy service is safe under every interleaving of its calls: in every state reached by any
  schedule every further action is defined (no send on a closed channel, no second close), the
  server's invariant holds, and a session whose watcher was dropped for being slow and that has
  drained its queue returns with the slow-consumer error at its next step unless its client has
  gone.
\<close>

theorem policy_concurrent_safe:
  assumes "conc_reach any_schedule sy"
  shows "conc_exec l sy \<noteq> None \<and> server_ok (cs_srv sy) \<and>
         (\<forall>p se io. cs_sessions sy p = Some se \<longrightarrow> se_pc se = WLive \<longrightarrow> \<not> hub_live (ps_hub (cs_srv sy)) p \<longrightarrow>
            hub_pending (ps_hub (cs_srv sy)) p = [] \<longrightarrow> io \<noteq> CtxDone \<longrightarrow>
            (\<exists>sy' se'. conc_exec (CStep p io) sy = Some sy' \<and> cs_sessions sy' p = Some se' \<and>
               se_pc se' = WDone (Some watcher_dropped) \<and> se_sent se' = se_sent se))"
proof (intro conjI allI impI)
  have inv: "conc_ok sy" by (rule conc_reach_ok [OF assms])
  show "conc_exec l sy \<noteq> None" using conc_exec_steps [OF inv, of l] by auto
  show ok: "server_ok (cs_srv sy)" using inv by (simp add: conc_ok_def)
  fix p se io
  assume a: "cs_sessions sy p = Some se" "se_pc se = WLive" "\<not> hub_live (ps_hub (cs_srv sy)) p"
    "hub_pending (ps_hub (cs_srv sy)) p = []" "io \<noteq> CtxDone"
  have se: "se_ptr se = p" "owns_watcher (cs_srv sy) se" using inv a(1) by (simp_all add: conc_ok_def)
  have "Watch_step io se (cs_srv sy) = Watch_return (Some watcher_dropped) se (cs_srv sy)"
    by (rule Watch_step_dropped [OF ok _ a(2)]) (use se a in \<open>auto simp: owns_watcher_def\<close>)
  then show "\<exists>sy' se'. conc_exec (CStep p io) sy = Some sy' \<and> cs_sessions sy' p = Some se' \<and>
               se_pc se' = WDone (Some watcher_dropped) \<and> se_sent se' = se_sent se"
    using Watch_return_stream [OF ok, of "Some watcher_dropped" se] a(1) by auto
qed

lemma conc_reach_any: "conc_reach allowed sy \<Longrightarrow> conc_reach any_schedule sy"
  by (induction rule: conc_reach.induct) (auto intro: conc_reach_init conc_reach_step)

theorem policy_concurrent_safe_witness:
  "\<exists>sy. conc_run overtaking (conc_init empty_store) = Some sy \<and> conc_exec (CContinue 0) sy \<noteq> None"
proof -
  obtain sy where run: "conc_run overtaking (conc_init empty_store) = Some sy" using overtaking_state by blast
  then show ?thesis using policy_concurrent_safe [OF conc_reach_any [OF conc_reach_overtaking [OF run]], of "CContinue 0"] by blast
qed

text \<open>
  A tenant does not see another's rules: whatever the schedule of calls, every event a Watch
  session has been sent is the end-of-snapshot mark, a rule that was stored for its tenant, or the
  id of a rule that was; a session that named no tenant may have been sent those of every tenant.
\<close>

theorem policy_watch_confidential:
  assumes "conc_reach any_schedule sy" and "cs_sessions sy p = Some se"
  shows "list_all (about_watch (cs_ever sy) (se_tenant se)) (se_sent se)"
proof -
  have "list_all (about_watch (cs_ever sy) (se_tenant se)) (stream (cs_srv sy) se)"
    using conc_reach_provenance [OF assms(1)] assms(2) unfolding provenance_def by blast
  then show ?thesis by (simp add: stream_def)
qed

text \<open>
  And it is sent them: a registered session that named no tenant gets every broadcast, whoever it is
  for, although its snapshot had only the rules stored for the empty tenant.
\<close>

lemma no_tenant_hears_all:
  assumes "server_ok srv" and "owns_watcher srv se" and "se_tenant se = ''''" and "policy_broadcast ev t srv = Some srv'"
    and "hub_live (ps_hub srv') (se_ptr se)"
  shows "stream srv' se = stream srv se @ [ev]"
  using grows_publish [OF assms(1,2,4)] assms(3,5) by (simp add: grows_def)

theorem policy_watch_confidential_witness:
  "\<exists>sy se. conc_run overtaking (conc_init empty_store) = Some sy \<and> cs_sessions sy 0 = Some se \<and>
     list_all (about_tenant (cs_ever sy) ''acme'') [snapshot_end, added_event (demo_rule\<lparr>pr_Id := ''p2''\<rparr>)]"
proof -
  obtain sy se where run: "conc_run overtaking (conc_init empty_store) = Some sy" and
    se: "cs_sessions sy 0 = Some se" "se_tenant se = ''acme''"
    "se_sent se = [snapshot_end, added_event (demo_rule\<lparr>pr_Id := ''p2''\<rparr>)]"
    using overtaking_state by blast
  from policy_watch_confidential [OF conc_reach_any [OF conc_reach_overtaking [OF run]] se(1)]
  show ?thesis using run se by (simp add: about_watch_def)
qed

end
