(* ===== verification/Registry_Concurrent.thy ===== *)
theory Registry_Concurrent
  imports Registry_Server
begin

text \<open>
  The registry service under concurrent calls, like \<open>Policy_Concurrent\<close> for the policies. Each call of
  \<open>pkg/registry/server.go\<close> runs in a goroutine of its own. What is atomic is one statement of the
  store and one broadcast under the server's mutex: a registration is the upsert of the agent, the
  upsert of the service and the broadcast; a deregistration is the SELECT, the DELETE and one
  broadcast per service. A call between two of its actions is pending, and a schedule is any
  sequence of actions of any calls and of turns of the Watch sessions.

  Under every schedule nothing panics, the invariant of the server holds, and a session is sent only
  changes that were committed for its tenant and names. Under schedules without two races the
  events explain the store for every name that is not in flight. The races are a commit on a name
  that another call has in flight, and a commit for a tenant between the SELECT and the DELETE of a
  deregistration of that tenant (\<open>deregister_race_loses_event\<close> in \<open>Registry_Server\<close> shows the second,
  \<open>registry_announce_reorder\<close> below the first).
\<close>

subsection \<open>Actions\<close>

datatype rpending =
    QInsert RegisterServiceRequest \<comment> \<open>the agent is stored, the service not yet\<close>
  | QAnnounce string RegisterServiceRequest \<comment> \<open>stored, not yet broadcast\<close>
  | QDelete DeregisterAgentRequest "Service list" \<comment> \<open>listed, not yet deleted\<close>
  | QWithdraw string "Service list" \<comment> \<open>deleted, these not yet broadcast\<close>

text \<open>
  Two ghosts: \<open>rc_base\<close> is what the store said of a session's names when it was registered, \<open>rc_ever\<close>
  are the changes committed so far, each with its tenant.
\<close>

record reg_sys =
  rc_srv :: RegistryServer
  rc_calls :: "rpending list"
  rc_sessions :: "nat \<Rightarrow> reg_session option"
  rc_base :: "nat \<Rightarrow> string \<rightharpoonup> binding"
  rc_ever :: "(string \<times> WatchEvent) list"

datatype reg_label =
    RRegister stmt_env RegisterServiceRequest
  | RDeregister stmt_env "service_row list \<Rightarrow> service_row list" DeregisterAgentRequest
  | RRelay stmt_env UpsertRelayRequest
  | RWatch WatchRequest
  | RContinue nat stmt_env \<comment> \<open>the next action of a pending call\<close>
  | RStep nat reg_io

fun rcontinue :: "stmt_env \<Rightarrow> rpending \<Rightarrow> reg_sys \<Rightarrow> reg_sys option" where
  "rcontinue env (QInsert req) sy =
     (case store_RegisterService env (rs_store (rc_srv sy)) (requested_service req) of
        (Inl e, s) \<Rightarrow> Some (sy\<lparr>rc_srv := (rc_srv sy)\<lparr>rs_store := s\<rparr>\<rparr>)
      | (Inr i, s) \<Rightarrow>
          Some (sy\<lparr>rc_srv := (rc_srv sy)\<lparr>rs_store := s\<rparr>, rc_calls := rc_calls sy @ [QAnnounce i req],
                   rc_ever := (rsr_Tenant req, register_event i req) # rc_ever sy\<rparr>))"
| "rcontinue env (QAnnounce i req) sy =
     map_option (\<lambda>srv. sy\<lparr>rc_srv := srv\<rparr>) (registry_broadcast (register_event i req) (rsr_Tenant req) (rc_srv sy))"
| "rcontinue env (QDelete req removed) sy =
     (case dereg_delete env (rs_store (rc_srv sy)) (dar_Tenant req) (dar_AgentUri req) (dar_RelayId req) of
        (Some e, s) \<Rightarrow> Some (sy\<lparr>rc_srv := (rc_srv sy)\<lparr>rs_store := s\<rparr>\<rparr>)
      | (None, s) \<Rightarrow>
          Some (sy\<lparr>rc_srv := (rc_srv sy)\<lparr>rs_store := s\<rparr>, rc_calls := rc_calls sy @ [QWithdraw (dar_Tenant req) removed],
                   rc_ever := map (\<lambda>svc. (dar_Tenant req, deregister_event svc)) removed @ rc_ever sy\<rparr>))"
| "rcontinue env (QWithdraw t []) sy = Some sy"
| "rcontinue env (QWithdraw t (svc # svcs)) sy =
     map_option (\<lambda>srv. sy\<lparr>rc_srv := srv, rc_calls := rc_calls sy @ [QWithdraw t svcs]\<rparr>)
       (registry_broadcast (deregister_event svc) t (rc_srv sy))"

text \<open>None is a panic.\<close>

fun reg_conc_exec :: "reg_label \<Rightarrow> reg_sys \<Rightarrow> reg_sys option" where
  "reg_conc_exec (RRegister env req) sy =
     (if rsr_Tenant req = '''' \<or> rsr_ServiceName req = '''' \<or> rsr_AgentUri req = '''' \<or> rsr_RelayId req = ''''
      then Some sy
      else case UpsertAgent env (rs_store (rc_srv sy)) (rsr_Tenant req) (rsr_AgentUri req) of
        (Some e, s) \<Rightarrow> Some (sy\<lparr>rc_srv := (rc_srv sy)\<lparr>rs_store := s\<rparr>\<rparr>)
      | (None, s) \<Rightarrow> Some (sy\<lparr>rc_srv := (rc_srv sy)\<lparr>rs_store := s\<rparr>, rc_calls := rc_calls sy @ [QInsert req]\<rparr>))"
| "reg_conc_exec (RDeregister env scan req) sy =
     (case dereg_select env scan (rs_store (rc_srv sy)) (dar_Tenant req) (dar_AgentUri req) (dar_RelayId req) of
        Inl e \<Rightarrow> Some sy
      | Inr removed \<Rightarrow> Some (sy\<lparr>rc_calls := rc_calls sy @ [QDelete req removed]\<rparr>))"
| "reg_conc_exec (RRelay env req) sy = Some (sy\<lparr>rc_srv := snd (UpsertRelay env (rc_srv sy) req)\<rparr>)"
| "reg_conc_exec (RWatch req) sy =
     (let (se, srv) = registry_Watch req (rc_srv sy) in
      Some (sy\<lparr>rc_srv := srv, rc_sessions := (rc_sessions sy)(rg_ptr se \<mapsto> se),
               rc_base := (rc_base sy)(rg_ptr se := service_view (rs_store srv)
                 \<lparr>rw_id = 0, rw_tenant = wr_Tenant req, rw_filter = nameSet (wr_ServiceNames req)\<rparr>)\<rparr>))"
| "reg_conc_exec (RContinue k env) sy =
     (if k < length (rc_calls sy)
      then rcontinue env (rc_calls sy ! k) (sy\<lparr>rc_calls := drop_nth k (rc_calls sy)\<rparr>)
      else Some sy)"
| "reg_conc_exec (RStep p io) sy =
     (case rc_sessions sy p of
        None \<Rightarrow> Some sy
      | Some se \<Rightarrow>
          map_option (\<lambda>(se, srv). sy\<lparr>rc_srv := srv, rc_sessions := (rc_sessions sy)(p \<mapsto> se)\<rparr>)
            (registry_Watch_step io se (rc_srv sy)))"

fun reg_label_ok :: "reg_label \<Rightarrow> bool" where
  "reg_label_ok (RDeregister env scan req) \<longleftrightarrow> is_scan scan"
| "reg_label_ok _ \<longleftrightarrow> True"

subsection \<open>Schedules\<close>

text \<open>The names of a tenant that are committed and not yet broadcast.\<close>

fun names_in_flight :: "string \<Rightarrow> rpending \<Rightarrow> string list" where
  "names_in_flight t (QAnnounce i req) = (if rsr_Tenant req = t then [rsr_ServiceName req] else [])"
| "names_in_flight t (QWithdraw t' svcs) = (if t' = t then map svc_Name svcs else [])"
| "names_in_flight t _ = []"

definition reg_in_flight :: "string \<Rightarrow> rpending list \<Rightarrow> string list" where
  "reg_in_flight t calls = concat (map (names_in_flight t) calls)"

fun deletes_for :: "string \<Rightarrow> rpending \<Rightarrow> bool" where
  "deletes_for t (QDelete req removed) \<longleftrightarrow> dar_Tenant req = t"
| "deletes_for t _ \<longleftrightarrow> False"

definition reg_quiet :: "string \<Rightarrow> string list \<Rightarrow> rpending list \<Rightarrow> bool" where
  "reg_quiet t names calls \<longleftrightarrow> set names \<inter> set (reg_in_flight t calls) = {} \<and> \<not> list_ex (deletes_for t) calls"

fun commit_quiet :: "rpending \<Rightarrow> rpending list \<Rightarrow> bool" where
  "commit_quiet (QInsert req) others \<longleftrightarrow> reg_quiet (rsr_Tenant req) [rsr_ServiceName req] others"
| "commit_quiet (QDelete req removed) others \<longleftrightarrow> reg_quiet (dar_Tenant req) (map svc_Name removed) others"
| "commit_quiet _ others \<longleftrightarrow> True"

fun reg_race_free :: "reg_label \<Rightarrow> reg_sys \<Rightarrow> bool" where
  "reg_race_free (RContinue k env) sy \<longleftrightarrow>
     (k < length (rc_calls sy) \<longrightarrow> commit_quiet (rc_calls sy ! k) (drop_nth k (rc_calls sy)))"
| "reg_race_free _ sy \<longleftrightarrow> True"

definition reg_conc_init :: "Store \<Rightarrow> reg_sys" where
  "reg_conc_init s = \<lparr>rc_srv = registry_New s, rc_calls = [], rc_sessions = (\<lambda>_. None), rc_base = (\<lambda>_. Map.empty), rc_ever = []\<rparr>"

inductive reg_conc_reach :: "(reg_label \<Rightarrow> reg_sys \<Rightarrow> bool) \<Rightarrow> reg_sys \<Rightarrow> bool" for allowed where
  reg_conc_reach_init: "store_wf s \<Longrightarrow> canonical_ids s \<Longrightarrow> reg_conc_reach allowed (reg_conc_init s)"
| reg_conc_reach_step: "reg_conc_reach allowed sy \<Longrightarrow> reg_label_ok l \<Longrightarrow> allowed l sy \<Longrightarrow> reg_conc_exec l sy = Some sy'
     \<Longrightarrow> reg_conc_reach allowed sy'"

subsection \<open>What an action does to the sessions\<close>

definition rstream :: "RegistryServer \<Rightarrow> reg_session \<Rightarrow> WatchEvent list" where
  "rstream srv se = rg_sent se @ hub_pending (rs_hub srv) (rg_ptr se)"

fun published_to :: "rpending \<Rightarrow> reg_watcher \<Rightarrow> WatchEvent list" where
  "published_to (QAnnounce i req) w =
     (if registry_wants (rsr_Tenant req) (register_event i req) w then [register_event i req] else [])"
| "published_to (QWithdraw t (svc # svcs)) w = (if registry_wants t (deregister_event svc) w then [deregister_event svc] else [])"
| "published_to _ w = []"

fun rpublished :: "reg_label \<Rightarrow> reg_sys \<Rightarrow> reg_watcher \<Rightarrow> WatchEvent list" where
  "rpublished (RContinue k env) sy w = (if k < length (rc_calls sy) then published_to (rc_calls sy ! k) w else [])"
| "rpublished _ sy w = []"

definition reg_conc_ok :: "reg_sys \<Rightarrow> bool" where
  "reg_conc_ok sy \<longleftrightarrow> reg_ok (rc_srv sy) \<and>
     (\<forall>p se. rc_sessions sy p = Some se \<longrightarrow> rg_ptr se = p \<and> hub_cfg (rs_hub (rc_srv sy)) p \<noteq> None)"

lemma reg_conc_okD:
  assumes "reg_conc_ok sy" and "rc_sessions sy p = Some se"
  obtains w where "rg_ptr se = p" and "hub_cfg (rs_hub (rc_srv sy)) p = Some w"
proof -
  have "rg_ptr se = p \<and> hub_cfg (rs_hub (rc_srv sy)) p \<noteq> None" using assms unfolding reg_conc_ok_def by blast
  with that show thesis by blast
qed

text \<open>The stream of a session of watcher w grows by evs, or the session is dropped.\<close>

definition rgrows :: "RegistryServer \<Rightarrow> reg_session \<Rightarrow> reg_watcher \<Rightarrow> WatchEvent list \<Rightarrow> RegistryServer \<Rightarrow> reg_session \<Rightarrow> bool" where
  "rgrows srv se w evs srv' se' \<longleftrightarrow> rg_ptr se' = rg_ptr se \<and> hub_cfg (rs_hub srv') (rg_ptr se) = Some w \<and>
     (hub_live (rs_hub srv') (rg_ptr se) \<longrightarrow>
        hub_live (rs_hub srv) (rg_ptr se) \<and> rstream srv' se' = rstream srv se @ evs) \<and>
     set (rstream srv' se') \<subseteq> set (rstream srv se) \<union> set evs"

definition rsteps :: "reg_label \<Rightarrow> reg_sys \<Rightarrow> reg_sys \<Rightarrow> bool" where
  "rsteps l sy sy' \<longleftrightarrow> reg_conc_ok sy' \<and>
     (\<forall>p se w. rc_sessions sy p = Some se \<longrightarrow> hub_cfg (rs_hub (rc_srv sy)) p = Some w \<longrightarrow>
        (\<exists>se'. rc_sessions sy' p = Some se' \<and> rc_base sy' p = rc_base sy p \<and>
               rgrows (rc_srv sy) se w (rpublished l sy w) (rc_srv sy') se')) \<and>
     (\<forall>p se'. rc_sessions sy p = None \<longrightarrow> rc_sessions sy' p = Some se' \<longrightarrow>
        rc_calls sy' = rc_calls sy \<and> rs_store (rc_srv sy') = rs_store (rc_srv sy) \<and> rstream (rc_srv sy') se' = [] \<and>
        (\<exists>w. hub_cfg (rs_hub (rc_srv sy')) p = Some w \<and> rc_base sy' p = service_view (rs_store (rc_srv sy')) w))"

lemma rsteps_old:
  assumes "rsteps l sy sy'" and "rc_sessions sy p = Some se" and "hub_cfg (rs_hub (rc_srv sy)) p = Some w"
  obtains se' where "rc_sessions sy' p = Some se'" and "rc_base sy' p = rc_base sy p"
    and "rgrows (rc_srv sy) se w (rpublished l sy w) (rc_srv sy') se'"
  using assms unfolding rsteps_def by blast

lemma rsteps_new:
  assumes "rsteps l sy sy'" and "rc_sessions sy p = None" and "rc_sessions sy' p = Some se'"
  shows "rc_calls sy' = rc_calls sy" and "rs_store (rc_srv sy') = rs_store (rc_srv sy)" and "rstream (rc_srv sy') se' = []"
    and "\<exists>w. hub_cfg (rs_hub (rc_srv sy')) p = Some w \<and> rc_base sy' p = service_view (rs_store (rc_srv sy')) w"
  using assms unfolding rsteps_def by blast+

text \<open>An action that leaves the hub alone.\<close>

lemma rsteps_store:
  assumes "reg_conc_ok sy" and "store_wf s" and "canonical_ids s" and "rc_srv sy' = (rc_srv sy)\<lparr>rs_store := s\<rparr>"
    and "rc_sessions sy' = rc_sessions sy" and "rc_base sy' = rc_base sy" and "\<And>w. rpublished l sy w = []"
  shows "rsteps l sy sy'"
  using assms by (auto simp: rsteps_def reg_conc_ok_def reg_ok_def rgrows_def rstream_def)

lemma rsteps_publish:
  assumes "reg_conc_ok sy" and "registry_broadcast ev t (rc_srv sy) = Some srv'" and "rc_srv sy' = srv'"
    and "rc_sessions sy' = rc_sessions sy" and "rc_base sy' = rc_base sy"
    and "\<And>w. rpublished l sy w = (if registry_wants t ev w then [ev] else [])"
  shows "rsteps l sy sy'"
proof -
  let ?srv = "rc_srv sy"
  have ok: "reg_ok ?srv" and hw: "hub_wf (rs_hub ?srv)" using assms(1) by (simp_all add: reg_conc_ok_def reg_ok_def)
  have h: "hub_broadcast (registry_wants t ev) ev (rs_hub ?srv) = Some (rs_hub srv')" and st: "rs_store srv' = rs_store ?srv"
    using assms(2) by (auto simp: registry_broadcast_def)
  have ok': "reg_ok srv'" using registry_broadcast_safe [OF hw, of ev t] assms(2) ok by (auto simp: reg_ok_def)
  have g: "rgrows ?srv se w (if registry_wants t ev w then [ev] else []) srv' se"
    if "hub_cfg (rs_hub ?srv) (rg_ptr se) = Some w" for se w
    using hub_broadcast_effect(2-4) [OF hw h that]
    by (cases "hub_live (rs_hub ?srv) (rg_ptr se) \<and> registry_wants t ev w") (auto simp: rgrows_def rstream_def split: if_splits)
  have "\<exists>w. hub_cfg (rs_hub srv') p = Some w" if "hub_cfg (rs_hub ?srv) p = Some w" for p w
    using hub_broadcast_effect(2) [OF hw h that] by blast
  then show ?thesis using assms(1) ok' g unfolding rsteps_def reg_conc_ok_def assms(3-6) by fastforce
qed

lemma rsteps_watch:
  assumes "reg_conc_ok sy" and "reg_conc_exec (RWatch req) sy = Some sy'"
  shows "rsteps (RWatch req) sy sy'"
proof -
  let ?srv = "rc_srv sy"
  obtain i h where i: "next_watch_id (rs_hub ?srv) = (i, h)" by fastforce
  let ?w = "\<lparr>rw_id = i, rw_tenant = wr_Tenant req, rw_filter = nameSet (wr_ServiceNames req)\<rparr>"
  have h: "hub_wf h" "hub_cfg h = hub_cfg (rs_hub ?srv)" "hub_live h = hub_live (rs_hub ?srv)" "hub_pending h = hub_pending (rs_hub ?srv)"
    using i assms(1)
    by (auto simp: next_watch_id_def Let_def hub_wf_def hub_cfg_def hub_live_def hub_pending_def reg_conc_ok_def reg_ok_def fun_eq_iff)
  define h' where "h' = snd (hub_join ?w h)"
  let ?se = "\<lparr>rg_ptr = hub_alloc h, rg_pc = RLive, rg_sent = []\<rparr>"
  have sy': "sy' = sy\<lparr>rc_srv := ?srv\<lparr>rs_hub := h'\<rparr>, rc_sessions := (rc_sessions sy)(hub_alloc h \<mapsto> ?se),
      rc_base := (rc_base sy)(hub_alloc h := service_view (rs_store ?srv) (?w\<lparr>rw_id := 0\<rparr>))\<rparr>"
    using assms(2) i hub_join_eq [OF h(1), of ?w] by (simp add: registry_Watch_def h'_def split: prod.splits)
  have view: "service_view s (?w\<lparr>rw_id := 0\<rparr>) = service_view s ?w" for s by (auto simp: service_view_def fun_eq_iff)
  have new: "hub_cfg h' (hub_alloc h) = Some ?w" "hub_pending h' (hub_alloc h) = []"
    by (simp_all add: h'_def hub_join_eq [OF h(1)] hub_cfg_def hub_pending_def make_chan_def)
  have fresh: "hub_cfg (rs_hub ?srv) (hub_alloc h) = None" using hub_fresh [OF h(1)] h(2) [symmetric] by (simp add: hub_cfg_def)
  have old: "hub_cfg h' p = Some w \<and> hub_pending h' p = hub_pending (rs_hub ?srv) p \<and> hub_live h' p = hub_live (rs_hub ?srv) p \<and> p \<noteq> hub_alloc h"
    if "hub_cfg (rs_hub ?srv) p = Some w" for p w
    using that fresh hub_join_effect [OF h(1), of p w ?w] by (auto simp: h h'_def)
  have keep: "rg_ptr se = p" "\<exists>y. hub_cfg h' p = Some y" if se: "rc_sessions sy p = Some se" for p se
  proof -
    obtain w where "rg_ptr se = p" and "hub_cfg (rs_hub ?srv) p = Some w" by (rule reg_conc_okD [OF assms(1) se])
    then show "rg_ptr se = p" "\<exists>y. hub_cfg h' p = Some y" using old by blast+
  qed
  have "reg_ok (?srv\<lparr>rs_hub := h'\<rparr>)" using assms(1) hub_wf_join [OF h(1), of ?w] by (simp add: reg_conc_ok_def reg_ok_def h'_def)
  then have ok: "reg_conc_ok sy'" using keep new(1) by (auto simp: reg_conc_ok_def sy' split: if_splits)
  show ?thesis
    unfolding rsteps_def
  proof (intro conjI allI impI)
    show "reg_conc_ok sy'" by (rule ok)
    fix p se w assume a: "rc_sessions sy p = Some se" "hub_cfg (rs_hub ?srv) p = Some w"
    have "rg_ptr se = p" using assms(1) a(1) by (simp add: reg_conc_ok_def)
    then show "\<exists>se'. rc_sessions sy' p = Some se' \<and> rc_base sy' p = rc_base sy p \<and>
        rgrows ?srv se w (rpublished (RWatch req) sy w) (rc_srv sy') se'"
      using old [OF a(2)] a(1) by (simp add: sy' rgrows_def rstream_def)
  qed (use new view in \<open>auto simp: sy' rstream_def split: if_splits\<close>)
qed

lemma Watch_return_moves:
  assumes "reg_ok srv" and "hub_cfg (rs_hub srv) (rg_ptr se) = Some w"
  shows "\<exists>srv'. registry_Watch_return r se srv = Some (se\<lparr>rg_pc := RDone r\<rparr>, srv') \<and> reg_ok srv' \<and> rs_store srv' = rs_store srv \<and>
     \<not> hub_live (rs_hub srv') (rg_ptr se) \<and>
     (\<forall>q. hub_cfg (rs_hub srv') q = hub_cfg (rs_hub srv) q \<and> hub_pending (rs_hub srv') q = hub_pending (rs_hub srv) q \<and>
          (q \<noteq> rg_ptr se \<longrightarrow> hub_live (rs_hub srv') q = hub_live (rs_hub srv) q))"
proof -
  have hw: "hub_wf (rs_hub srv)" using assms(1) by (simp add: reg_ok_def)
  then obtain h where h: "removeWatcher (rg_ptr se) (rs_hub srv) = Some h" "hub_wf h" using removeWatcher_eq by blast
  have "hub_live h q = (hub_live (rs_hub srv) q \<and> q \<noteq> rg_ptr se)" "hub_pending h q = hub_pending (rs_hub srv) q"
    "hub_cfg h q = hub_cfg (rs_hub srv) q" for q
    using removeWatcher_eq [OF hw, of "rg_ptr se" q] h(1) by auto
  then show ?thesis using h assms(1) by (auto simp: registry_Watch_return_def reg_ok_def)
qed

text \<open>A turn of a session: its stream stays as it is, or the session ends; the other sessions see nothing.\<close>

lemma Watch_step_rmoves:
  assumes "reg_ok srv" and "hub_cfg (rs_hub srv) (rg_ptr se) = Some w"
  shows "\<exists>se' srv'. registry_Watch_step io se srv = Some (se', srv') \<and> reg_ok srv' \<and> rs_store srv' = rs_store srv \<and>
     rgrows srv se w [] srv' se' \<and>
     (\<forall>q. hub_cfg (rs_hub srv') q = hub_cfg (rs_hub srv) q \<and>
          (q \<noteq> rg_ptr se \<longrightarrow> hub_pending (rs_hub srv') q = hub_pending (rs_hub srv) q \<and> hub_live (rs_hub srv') q = hub_live (rs_hub srv) q))"
proof -
  obtain c where m: "hub_mem (rs_hub srv) (rg_ptr se) = Some (w, c)" using assms(2) by (auto simp: hub_cfg_def)
  have stay: "rgrows srv se w [] srv se" using assms(2) by (simp add: rgrows_def)
  consider (stay) "registry_Watch_step io se srv = Some (se, srv)"
    | (ret) r where "registry_Watch_step io se srv = registry_Watch_return r se srv"
    | (val) ev rest where "rg_pc se = RLive" "io \<noteq> RCtxDone" "ch_buf c = ev # rest"
    using m by (cases "rg_pc se"; cases "ch_buf c"; cases "io = RCtxDone"; cases "ch_closed c")
       (auto simp: registry_Watch_step_def hub_recv_def chan_recv_def)
  then show ?thesis
  proof cases
    case stay
    then show ?thesis using assms(1) \<open>rgrows srv se w [] srv se\<close> by auto
  next
    case ret
    then show ?thesis using Watch_return_moves [OF assms, of r] assms(2) by (fastforce simp: rgrows_def rstream_def)
  next
    case val
    define h where "h = snd (hub_recv (rg_ptr se) (rs_hub srv))"
    let ?srv = "srv\<lparr>rs_hub := h\<rparr>"
    have eff: "hub_pending h q = (if rg_ptr se = q then tl (hub_pending (rs_hub srv) q) else hub_pending (rs_hub srv) q)"
      "hub_live h q = hub_live (rs_hub srv) q" "hub_cfg h q = hub_cfg (rs_hub srv) q" for q
      by (simp_all add: h_def hub_recv_effect)
    have p: "hub_pending (rs_hub srv) (rg_ptr se) = ev # rest" using m val by (simp add: hub_pending_def)
    have ok: "reg_ok ?srv" using assms(1) hub_wf_recv [of "rs_hub srv" "rg_ptr se"] by (simp add: reg_ok_def h_def)
    have r: "\<exists>x. hub_recv (rg_ptr se) (rs_hub srv) = (RecvVal ev x, h)"
      using m val by (simp add: hub_recv_def chan_recv_def h_def)
    show ?thesis
    proof (cases "\<exists>e. io = RSendErr e")
      case True
      then obtain e where e: "io = RSendErr e" by blast
      have "registry_Watch_step io se srv = registry_Watch_return (Some e) se ?srv"
        using r val e by (auto simp: registry_Watch_step_def)
      then show ?thesis using Watch_return_moves [OF ok, of se w "Some e"] assms(2) p
        by (fastforce simp: rgrows_def rstream_def eff)
    next
      case False
      then have "registry_Watch_step io se srv = Some (se\<lparr>rg_sent := rg_sent se @ [ev]\<rparr>, ?srv)"
        using r val by (auto simp: registry_Watch_step_def split: reg_io.splits)
      then show ?thesis using ok assms(2) p by (auto simp: rgrows_def rstream_def eff)
    qed
  qed
qed

lemma rsteps_step:
  assumes "reg_conc_ok sy"
  shows "\<exists>sy'. reg_conc_exec (RStep p io) sy = Some sy' \<and> rsteps (RStep p io) sy sy' \<and>
     rs_store (rc_srv sy') = rs_store (rc_srv sy) \<and> rc_calls sy' = rc_calls sy \<and> rc_ever sy' = rc_ever sy"
proof (cases "rc_sessions sy p")
  case None
  then show ?thesis using assms by (auto simp: rsteps_def rgrows_def reg_conc_ok_def)
next
  case (Some se)
  let ?srv = "rc_srv sy"
  obtain w where w: "rg_ptr se = p" "hub_cfg (rs_hub ?srv) (rg_ptr se) = Some w" using reg_conc_okD [OF assms Some] by blast
  have ok: "reg_ok ?srv" using assms by (simp add: reg_conc_ok_def)
  obtain se' srv' where st: "registry_Watch_step io se ?srv = Some (se', srv')" "reg_ok srv'" "rs_store srv' = rs_store ?srv"
    "rgrows ?srv se w [] srv' se'"
    and q: "\<And>q. hub_cfg (rs_hub srv') q = hub_cfg (rs_hub ?srv) q"
      "\<And>q. q \<noteq> p \<Longrightarrow> hub_pending (rs_hub srv') q = hub_pending (rs_hub ?srv) q \<and> hub_live (rs_hub srv') q = hub_live (rs_hub ?srv) q"
    using Watch_step_rmoves [OF ok w(2), of io] w(1) by blast
  let ?sy = "sy\<lparr>rc_srv := srv', rc_sessions := (rc_sessions sy)(p \<mapsto> se')\<rparr>"
  have ptr: "rg_ptr se' = p" using st(4) w(1) by (simp add: rgrows_def)
  have "rsteps (RStep p io) sy ?sy"
    unfolding rsteps_def
  proof (intro conjI allI impI)
    show "reg_conc_ok ?sy" using assms st(2) ptr q(1) w by (auto simp: reg_conc_ok_def split: if_splits)
    fix p' x w' assume a: "rc_sessions sy p' = Some x" "hub_cfg (rs_hub ?srv) p' = Some w'"
    have x: "rg_ptr x = p'" using assms a(1) by (simp add: reg_conc_ok_def)
    show "\<exists>se'. rc_sessions ?sy p' = Some se' \<and> rc_base ?sy p' = rc_base sy p' \<and>
        rgrows ?srv x w' (rpublished (RStep p io) sy w') (rc_srv ?sy) se'"
    proof (cases "p' = p")
      case True
      then show ?thesis using a Some w st(4) by simp
    next
      case False
      then show ?thesis using a x q by (simp add: rgrows_def rstream_def)
    qed
  qed (use Some in \<open>auto split: if_splits\<close>)
  then show ?thesis using Some st(1,3) by auto
qed

subsection \<open>Every action is defined\<close>

lemma rsteps_refl: "reg_conc_ok sy \<Longrightarrow> (\<And>w. rpublished l sy w = []) \<Longrightarrow> rsteps l sy sy"
  by (rule rsteps_store [of sy "rs_store (rc_srv sy)"]) (simp_all add: reg_conc_ok_def reg_ok_def)

lemma reg_statement:
  assumes "reg_conc_ok sy"
  shows "UpsertAgent env (rs_store (rc_srv sy)) t u = (r, s) \<Longrightarrow> store_wf s \<and> canonical_ids s"
    and "store_RegisterService env (rs_store (rc_srv sy)) (requested_service req) = (x, s) \<Longrightarrow> store_wf s \<and> canonical_ids s"
    and "dereg_delete env (rs_store (rc_srv sy)) t a rl = (e, s) \<Longrightarrow> store_wf s \<and> canonical_ids s"
proof -
  have ok: "store_wf (rs_store (rc_srv sy))" "canonical_ids (rs_store (rc_srv sy))" using assms by (simp_all add: reg_conc_ok_def reg_ok_def)
  show "UpsertAgent env (rs_store (rc_srv sy)) t u = (r, s) \<Longrightarrow> store_wf s \<and> canonical_ids s"
    using UpsertAgent_frame ok by blast
  show "store_wf s \<and> canonical_ids s" if g: "store_RegisterService env (rs_store (rc_srv sy)) (requested_service req) = (x, s)"
  proof (cases x)
    case (Inl e)
    then have "s = rs_store (rc_srv sy)" using g by (auto simp: store_RegisterService_def Let_def split: option.splits if_splits)
    then show ?thesis using ok by simp
  next
    case (Inr i)
    then show ?thesis using register_row(1,2) [OF g [unfolded Inr] _ ok(2,1)] by simp
  qed
  show "store_wf s \<and> canonical_ids s" if "dereg_delete env (rs_store (rc_srv sy)) t a rl = (e, s)"
    using that ok by (auto simp: dereg_delete_def store_wf_filters canonical_ids_def list_all_iff split: option.splits)
qed

lemma rcontinue_steps:
  assumes "reg_conc_ok sy" and "k < length (rc_calls sy)"
  shows "\<exists>sy'. reg_conc_exec (RContinue k env) sy = Some sy' \<and> rsteps (RContinue k env) sy sy'"
proof -
  let ?srv = "rc_srv sy" and ?l = "RContinue k env"
  have hw: "hub_wf (rs_hub ?srv)" using assms(1) by (simp add: reg_conc_ok_def reg_ok_def)
  show ?thesis
  proof (cases "rc_calls sy ! k")
    case (QAnnounce i req)
    obtain srv' where b: "registry_broadcast (register_event i req) (rsr_Tenant req) ?srv = Some srv'"
      using registry_broadcast_safe [OF hw] by blast
    show ?thesis
      using assms(2) QAnnounce b by (auto intro!: rsteps_publish [OF assms(1) b])
  next
    case (QInsert req)
    obtain x s where g: "store_RegisterService env (rs_store ?srv) (requested_service req) = (x, s)" by fastforce
    note wf = reg_statement(2) [OF assms(1) g]
    show ?thesis using assms(2) QInsert g wf
      by (cases x) (auto intro!: rsteps_store [OF assms(1)])
  next
    case (QDelete req removed)
    obtain e s where d: "dereg_delete env (rs_store ?srv) (dar_Tenant req) (dar_AgentUri req) (dar_RelayId req) = (e, s)" by fastforce
    note wf = reg_statement(3) [OF assms(1) d]
    show ?thesis using assms(2) QDelete d wf
      by (cases e) (auto intro!: rsteps_store [OF assms(1)])
  next
    case (QWithdraw t removed)
    show ?thesis
    proof (cases removed)
      case Nil
      have "store_wf (rs_store ?srv)" "canonical_ids (rs_store ?srv)" using assms(1) by (simp_all add: reg_conc_ok_def reg_ok_def)
      then show ?thesis using assms(2) QWithdraw Nil by (auto intro!: rsteps_store [OF assms(1), of "rs_store ?srv"])
    next
      case (Cons svc svcs)
      obtain srv' where b: "registry_broadcast (deregister_event svc) t ?srv = Some srv'"
        using registry_broadcast_safe [OF hw] by blast
      show ?thesis using assms(2) QWithdraw Cons b by (auto intro!: rsteps_publish [OF assms(1) b])
    qed
  qed
qed

lemma rsteps_register:
  assumes "reg_conc_ok sy"
  shows "\<exists>sy'. reg_conc_exec (RRegister env req) sy = Some sy' \<and> rsteps (RRegister env req) sy sy'"
proof -
  let ?l = "RRegister env req" and ?srv = "rc_srv sy"
  obtain e s where u: "UpsertAgent env (rs_store ?srv) (rsr_Tenant req) (rsr_AgentUri req) = (e, s)" by fastforce
  note wf = reg_statement(1) [OF assms u]
  have "rsteps ?l sy sy" by (rule rsteps_refl [OF assms]) simp
  moreover have "rsteps ?l sy sy'" if "rc_srv sy' = ?srv\<lparr>rs_store := s\<rparr>" "rc_sessions sy' = rc_sessions sy" "rc_base sy' = rc_base sy" for sy'
    by (rule rsteps_store [OF assms _ _ that]) (use wf in simp_all)
  ultimately show ?thesis using u by (cases e) auto
qed

lemma rsteps_relay:
  assumes "reg_conc_ok sy"
  shows "\<exists>sy'. reg_conc_exec (RRelay env req) sy = Some sy' \<and> rsteps (RRelay env req) sy sy'"
proof -
  let ?srv = "rc_srv sy"
  have "\<exists>s. snd (UpsertRelay env ?srv req) = ?srv\<lparr>rs_store := s\<rparr>"
    by (auto simp: UpsertRelay_def split: prod.splits option.splits intro: exI [of _ "rs_store ?srv"])
  then obtain s where s: "snd (UpsertRelay env ?srv req) = ?srv\<lparr>rs_store := s\<rparr>" by blast
  have "store_wf s" "canonical_ids s"
    using UpsertRelay_keeps(1) [of ?srv env req] assms by (simp_all add: s reg_conc_ok_def reg_ok_def)
  then show ?thesis using s by (auto intro!: rsteps_store [OF assms])
qed

lemma reg_conc_exec_steps:
  assumes "reg_conc_ok sy"
  shows "\<exists>sy'. reg_conc_exec l sy = Some sy' \<and> rsteps l sy sy'"
proof (cases l)
  case (RDeregister env scan req)
  have ok: "store_wf (rs_store (rc_srv sy))" "canonical_ids (rs_store (rc_srv sy))"
    using assms by (simp_all add: reg_conc_ok_def reg_ok_def)
  have "rsteps l sy sy'" if "rc_srv sy' = rc_srv sy" "rc_sessions sy' = rc_sessions sy" "rc_base sy' = rc_base sy" for sy'
    by (rule rsteps_store [OF assms ok _ that(2,3)]) (use that RDeregister in simp_all)
  then show ?thesis using RDeregister by (auto split: sum.splits)
next
  case (RWatch req)
  have "\<exists>sy'. reg_conc_exec (RWatch req) sy = Some sy'" by (simp split: prod.splits)
  then show ?thesis using RWatch rsteps_watch [OF assms] by blast
next
  case (RContinue k env)
  show ?thesis
  proof (cases "k < length (rc_calls sy)")
    case True
    then show ?thesis using RContinue rcontinue_steps [OF assms] by blast
  next
    case False
    then show ?thesis using RContinue rsteps_refl [OF assms, of l] by simp
  qed
qed (use rsteps_register [OF assms] rsteps_relay [OF assms] rsteps_step [OF assms] in blast)+

lemma reg_conc_reach_ok: "reg_conc_reach allowed sy \<Longrightarrow> reg_conc_ok sy"
proof (induction rule: reg_conc_reach.induct)
  case (reg_conc_reach_init s)
  then show ?case by (simp add: reg_conc_ok_def reg_conc_init_def registry_New_def reg_ok_def)
next
  case (reg_conc_reach_step sy l sy')
  then show ?case using reg_conc_exec_steps [of sy l] by (auto simp: rsteps_def)
qed

subsection \<open>Provenance\<close>

fun rpending_ok :: "(string \<times> WatchEvent) list \<Rightarrow> rpending \<Rightarrow> bool" where
  "rpending_ok ever (QAnnounce i req) \<longleftrightarrow> (rsr_Tenant req, register_event i req) \<in> set ever"
| "rpending_ok ever (QWithdraw t svcs) \<longleftrightarrow> (\<forall>svc \<in> set svcs. (t, deregister_event svc) \<in> set ever)"
| "rpending_ok ever _ \<longleftrightarrow> True"

text \<open>An event that tells a watcher of a committed change it asked for.\<close>

definition meant_for :: "(string \<times> WatchEvent) list \<Rightarrow> reg_watcher \<Rightarrow> WatchEvent \<Rightarrow> bool" where
  "meant_for ever w ev \<longleftrightarrow> list_ex (\<lambda>(t, ev'). ev' = ev \<and> registry_wants t ev w) ever"

definition rprovenance :: "reg_sys \<Rightarrow> bool" where
  "rprovenance sy \<longleftrightarrow> list_all (rpending_ok (rc_ever sy)) (rc_calls sy) \<and>
     (\<forall>p se w. rc_sessions sy p = Some se \<longrightarrow> hub_cfg (rs_hub (rc_srv sy)) p = Some w \<longrightarrow>
        list_all (meant_for (rc_ever sy) w) (rstream (rc_srv sy) se))"

lemma rpending_ok_mono: "set ever \<subseteq> set ever' \<Longrightarrow> rpending_ok ever c \<Longrightarrow> rpending_ok ever' c"
  by (cases c) auto

lemma meant_for_mono: "set ever \<subseteq> set ever' \<Longrightarrow> meant_for ever w ev \<Longrightarrow> meant_for ever' w ev"
  by (auto simp: meant_for_def list_ex_iff)

lemma set_drop_nth: "set (drop_nth k xs) \<subseteq> set xs"
  by (auto dest: in_drop_nth)

lemma rpublished_meant:
  assumes "list_all (rpending_ok ever) (rc_calls sy)" and "ev \<in> set (rpublished l sy w)"
  shows "meant_for ever w ev"
proof (cases l)
  case (RContinue k env)
  then have k: "k < length (rc_calls sy)" and ev: "ev \<in> set (published_to (rc_calls sy ! k) w)"
    using assms(2) by (auto split: if_splits)
  have "rpending_ok ever (rc_calls sy ! k)" using assms(1) k by (simp add: list_all_length)
  then show ?thesis using ev
    by (cases "(rc_calls sy ! k, w)" rule: published_to.cases) (auto simp: meant_for_def list_ex_iff split: if_splits)
qed (use assms(2) in simp_all)

lemma rpending_continue:
  assumes "list_all (rpending_ok (rc_ever sy)) (rc_calls sy)" and "k < length (rc_calls sy)"
    and ex: "rcontinue env (rc_calls sy ! k) (sy\<lparr>rc_calls := drop_nth k (rc_calls sy)\<rparr>) = Some sy'"
  shows "list_all (rpending_ok (rc_ever sy')) (rc_calls sy') \<and> set (rc_ever sy) \<subseteq> set (rc_ever sy')"
proof -
  have d: "\<forall>c \<in> set (drop_nth k (rc_calls sy)). rpending_ok (rc_ever sy) c"
    using assms(1) set_drop_nth [of k "rc_calls sy"] by (auto simp: list_all_iff)
  then have more: "\<forall>c \<in> set (drop_nth k (rc_calls sy)). rpending_ok (xs @ rc_ever sy) c" for xs
    using rpending_ok_mono [of "rc_ever sy" "xs @ rc_ever sy"] by auto
  have c: "rpending_ok (rc_ever sy) (rc_calls sy ! k)" using assms(1,2) by (simp add: list_all_length)
  show ?thesis
  proof (cases "rc_calls sy ! k")
    case (QInsert req)
    then show ?thesis using ex d more [of "[x]" for x] by (auto simp: list_all_iff split: prod.splits sum.splits)
  next
    case (QAnnounce i req)
    then show ?thesis using ex d by (auto simp: list_all_iff)
  next
    case (QDelete req removed)
    then show ?thesis using ex d more [of "map (\<lambda>svc. (dar_Tenant req, deregister_event svc)) removed"]
      by (auto simp: list_all_iff split: prod.splits option.splits)
  next
    case (QWithdraw t removed)
    then show ?thesis using ex d c by (cases removed) (auto simp: list_all_iff)
  qed
qed

lemma rpending_exec:
  assumes "list_all (rpending_ok (rc_ever sy)) (rc_calls sy)" and "reg_conc_exec l sy = Some sy'"
  shows "list_all (rpending_ok (rc_ever sy')) (rc_calls sy') \<and> set (rc_ever sy) \<subseteq> set (rc_ever sy')"
proof (cases l)
  case (RRegister env req)
  then show ?thesis using assms by (auto split: if_splits prod.splits option.splits)
next
  case (RDeregister env scan req)
  then show ?thesis using assms by (auto split: sum.splits)
next
  case (RWatch req)
  then show ?thesis using assms by (auto split: prod.splits)
next
  case (RStep p io)
  then show ?thesis using assms by (auto split: option.splits)
next
  case (RContinue k env)
  then show ?thesis using assms rpending_continue [OF assms(1), of k env sy']
    by (cases "k < length (rc_calls sy)") simp_all
qed (use assms in auto)

lemma reg_conc_reach_provenance: "reg_conc_reach allowed sy \<Longrightarrow> rprovenance sy"
proof (induction rule: reg_conc_reach.induct)
  case (reg_conc_reach_init s)
  then show ?case by (simp add: rprovenance_def reg_conc_init_def)
next
  case (reg_conc_reach_step sy l sy')
  note h = reg_conc_reach_step.hyps
  have ok: "reg_conc_ok sy" by (rule reg_conc_reach_ok [OF h(1)])
  have st: "rsteps l sy sy'" using reg_conc_exec_steps [OF ok, of l] h(4) by simp
  have calls: "list_all (rpending_ok (rc_ever sy)) (rc_calls sy)" using reg_conc_reach_step.IH by (simp add: rprovenance_def)
  note ex = rpending_exec [OF calls h(4)]
  have "list_all (meant_for (rc_ever sy') w) (rstream (rc_srv sy') se')"
    if s: "rc_sessions sy' p = Some se'" "hub_cfg (rs_hub (rc_srv sy')) p = Some w" for p se' w
  proof (cases "rc_sessions sy p")
    case None
    then show ?thesis using rsteps_new(3) [OF st None s(1)] by simp
  next
    case (Some se)
    obtain w0 where w0: "rg_ptr se = p" "hub_cfg (rs_hub (rc_srv sy)) p = Some w0" by (rule reg_conc_okD [OF ok Some])
    obtain se1 where g: "rc_sessions sy' p = Some se1" "rgrows (rc_srv sy) se w0 (rpublished l sy w0) (rc_srv sy') se1"
      by (rule rsteps_old [OF st Some w0(2)])
    have e: "se1 = se'" "w0 = w" using g s w0(1) by (simp_all add: rgrows_def)
    have "list_all (meant_for (rc_ever sy) w) (rstream (rc_srv sy) se)"
      using reg_conc_reach_step.IH Some w0(2) e(2) unfolding rprovenance_def by blast
    then have "\<forall>ev \<in> set (rstream (rc_srv sy') se'). meant_for (rc_ever sy) w ev"
      using g(2) rpublished_meant [OF calls] unfolding rgrows_def e list_all_iff by blast
    then show ?thesis using meant_for_mono ex by (auto simp: list_all_iff)
  qed
  then show ?case using ex by (simp add: rprovenance_def)
qed

subsection \<open>The events explain the store under race-free schedules\<close>

definition bound :: "Store \<Rightarrow> string \<Rightarrow> string \<Rightarrow> binding option" where
  "bound s t n = map_option svc_row_binding (table_lookup sv_key (t, n) (st_services s))"

definition asks_for :: "reg_watcher \<Rightarrow> string \<Rightarrow> bool" where
  "asks_for w n \<longleftrightarrow> rw_filter w = [] \<or> n \<in> set (rw_filter w)"

lemma service_view_bound: "service_view s w n = (if asks_for w n then bound s (rw_tenant w) n else None)"
  by (simp add: service_view_def bound_def asks_for_def)

text \<open>What a pending call has left in the store; a deregistration has listed what it will delete.\<close>

fun rsettled :: "Store \<Rightarrow> rpending \<Rightarrow> bool" where
  "rsettled s (QAnnounce i req) \<longleftrightarrow>
     bound s (rsr_Tenant req) (rsr_ServiceName req) = Some (i, rsr_AgentUri req, rsr_RelayId req, rsr_LocalAddr req)"
| "rsettled s (QWithdraw t svcs) \<longleftrightarrow> (\<forall>svc \<in> set svcs. bound s t (svc_Name svc) = None)"
| "rsettled s (QDelete req removed) \<longleftrightarrow>
     (\<forall>n. n \<in> svc_Name ` set removed \<longleftrightarrow> (\<exists>i la. bound s (dar_Tenant req) n = Some (i, dar_AgentUri req, dar_RelayId req, la)))"
| "rsettled s (QInsert req) \<longleftrightarrow> True"

definition rmirrors :: "Store \<Rightarrow> rpending list \<Rightarrow> reg_watcher \<Rightarrow> (string \<rightharpoonup> binding) \<Rightarrow> WatchEvent list \<Rightarrow> bool" where
  "rmirrors s calls w base evs \<longleftrightarrow>
     (\<forall>n. n \<notin> set (reg_in_flight (rw_tenant w) calls) \<or> \<not> asks_for w n \<longrightarrow> fold svc_step evs base n = service_view s w n)"

definition rin_step :: "reg_sys \<Rightarrow> bool" where
  "rin_step sy \<longleftrightarrow> list_all (rsettled (rs_store (rc_srv sy))) (rc_calls sy) \<and>
     (\<forall>p se w. rc_sessions sy p = Some se \<longrightarrow> hub_cfg (rs_hub (rc_srv sy)) p = Some w \<longrightarrow> rw_tenant w \<noteq> '''' \<longrightarrow>
        hub_live (rs_hub (rc_srv sy)) p \<longrightarrow>
        rmirrors (rs_store (rc_srv sy)) (rc_calls sy) w (rc_base sy p) (rstream (rc_srv sy) se))"

lemma reg_in_flight_append [simp]: "reg_in_flight t (xs @ ys) = reg_in_flight t xs @ reg_in_flight t ys"
  by (simp add: reg_in_flight_def)

lemma reg_in_flight_Cons [simp]: "reg_in_flight t (c # cs) = names_in_flight t c @ reg_in_flight t cs"
  by (simp add: reg_in_flight_def)

lemma reg_in_flight_Nil [simp]: "reg_in_flight t [] = []"
  by (simp add: reg_in_flight_def)

lemma reg_in_flight_remove:
  assumes "k < length calls"
  shows "set (reg_in_flight t calls) = set (names_in_flight t (calls ! k)) \<union> set (reg_in_flight t (drop_nth k calls))"
proof -
  have "reg_in_flight t calls = reg_in_flight t (take k calls @ calls ! k # drop (Suc k) calls)"
    using id_take_nth_drop [OF assms] by simp
  then show ?thesis by (auto simp: drop_nth_def)
qed

text \<open>How a step of the system carries the sessions over, given how it carries any stream over.\<close>

lemma rin_step_sessions:
  assumes "rin_step sy" and "reg_conc_ok sy" and "rsteps l sy sy'"
    and "list_all (rsettled (rs_store (rc_srv sy'))) (rc_calls sy')"
    and keep: "\<And>w base evs. rw_tenant w \<noteq> '''' \<Longrightarrow> rmirrors (rs_store (rc_srv sy)) (rc_calls sy) w base evs \<Longrightarrow>
          rmirrors (rs_store (rc_srv sy')) (rc_calls sy') w base (evs @ rpublished l sy w)"
  shows "rin_step sy'"
proof -
  have "rmirrors (rs_store (rc_srv sy')) (rc_calls sy') w (rc_base sy' p) (rstream (rc_srv sy') se')"
    if s: "rc_sessions sy' p = Some se'" "hub_cfg (rs_hub (rc_srv sy')) p = Some w" "rw_tenant w \<noteq> ''''"
      "hub_live (rs_hub (rc_srv sy')) p" for p se' w
  proof (cases "rc_sessions sy p")
    case None
    note n = rsteps_new [OF assms(3) None s(1)]
    have "rc_base sy' p = service_view (rs_store (rc_srv sy')) w" using n(4) s(2) by auto
    then show ?thesis by (simp add: rmirrors_def n(3))
  next
    case (Some se)
    obtain w0 where w0: "rg_ptr se = p" "hub_cfg (rs_hub (rc_srv sy)) p = Some w0" by (rule reg_conc_okD [OF assms(2) Some])
    obtain se1 where g: "rc_sessions sy' p = Some se1" "rc_base sy' p = rc_base sy p"
      "rgrows (rc_srv sy) se w0 (rpublished l sy w0) (rc_srv sy') se1"
      by (rule rsteps_old [OF assms(3) Some w0(2)])
    have e: "se1 = se'" "w0 = w" using g s w0(1) by (simp_all add: rgrows_def)
    have l: "hub_live (rs_hub (rc_srv sy)) p"
      and st: "rstream (rc_srv sy') se' = rstream (rc_srv sy) se @ rpublished l sy w"
      using g(3) s(4) w0(1) by (simp_all add: rgrows_def e)
    have "rmirrors (rs_store (rc_srv sy)) (rc_calls sy) w (rc_base sy p) (rstream (rc_srv sy) se)"
      using assms(1) Some w0(2) l s(3) unfolding rin_step_def e by blast
    from keep [OF s(3) this] show ?thesis by (simp add: st g(2))
  qed
  then show ?thesis using assms(4) unfolding rin_step_def by blast
qed

text \<open>An action that leaves the bindings alone and adds only a settled call with nothing in flight.\<close>

lemma rframe_in_step:
  assumes "rin_step sy" and "reg_conc_ok sy" and "rsteps l sy sy'" and "\<And>w. rpublished l sy w = []"
    and "\<And>t. bound (rs_store (rc_srv sy')) t = bound (rs_store (rc_srv sy)) t"
    and "set (rc_calls sy') \<subseteq> set (rc_calls sy) \<union> set cs" and "list_all (rsettled (rs_store (rc_srv sy))) cs"
    and "\<And>t. set (reg_in_flight t (rc_calls sy')) = set (reg_in_flight t (rc_calls sy))"
  shows "rin_step sy'"
proof -
  have same: "rsettled (rs_store (rc_srv sy')) c = rsettled (rs_store (rc_srv sy)) c" for c
    by (cases c) (simp_all add: assms(5))
  show ?thesis
  proof (rule rin_step_sessions [OF assms(1-3)])
    show "list_all (rsettled (rs_store (rc_srv sy'))) (rc_calls sy')"
      using assms(1,6,7) unfolding rin_step_def list_all_iff same by blast
  qed (simp add: rmirrors_def assms(4,5,8) service_view_bound)
qed

text \<open>A statement that changes bindings of a tenant's names nobody else has in flight.\<close>

lemma rsettled_other:
  assumes "rsettled s c" and "c \<in> set others" and "reg_quiet t names others"
    and same: "\<And>t' n. t' \<noteq> t \<or> n \<notin> set names \<Longrightarrow> bound s' t' n = bound s t' n"
  shows "rsettled s' c"
proof -
  have fl: "n \<notin> set names" if "n \<in> set (names_in_flight t c)" for n
    using assms(2,3) that unfolding reg_quiet_def reg_in_flight_def by auto
  have nd: "\<not> deletes_for t c" using assms(2,3) by (auto simp: reg_quiet_def list_ex_iff)
  show ?thesis
  proof (cases c)
    case (QAnnounce i req)
    then show ?thesis using assms(1) fl same [of "rsr_Tenant req" "rsr_ServiceName req"] by auto
  next
    case (QDelete req removed)
    then have "bound s' (dar_Tenant req) n = bound s (dar_Tenant req) n" for n using nd by (intro same) simp
    then show ?thesis using assms(1) by (simp add: QDelete)
  next
    case (QWithdraw t' svcs)
    have "bound s' t' (svc_Name svc) = bound s t' (svc_Name svc)" if "svc \<in> set svcs" for svc
      using fl that by (intro same) (auto simp: QWithdraw)
    then show ?thesis using assms(1) by (simp add: QWithdraw)
  qed simp
qed

lemma rcommit_in_step:
  assumes "rin_step sy" and "reg_conc_ok sy" and "rsteps l sy sy'" and pub: "\<And>w. rpublished l sy w = []"
    and k: "k < length (rc_calls sy)" and old: "\<And>T. names_in_flight T (rc_calls sy ! k) = []"
    and calls: "rc_calls sy' = drop_nth k (rc_calls sy) @ [c]"
    and quiet: "reg_quiet t names (drop_nth k (rc_calls sy))"
    and same: "\<And>t' n. t' \<noteq> t \<or> n \<notin> set names \<Longrightarrow>
                 bound (rs_store (rc_srv sy')) t' n = bound (rs_store (rc_srv sy)) t' n"
    and c: "rsettled (rs_store (rc_srv sy')) c" "set names \<subseteq> set (names_in_flight t c)"
  shows "rin_step sy'"
proof (rule rin_step_sessions [OF assms(1-3)])
  have "rsettled (rs_store (rc_srv sy)) c'" if "c' \<in> set (drop_nth k (rc_calls sy))" for c'
    using assms(1) that set_drop_nth [of k "rc_calls sy"] by (auto simp: rin_step_def list_all_iff)
  then show "list_all (rsettled (rs_store (rc_srv sy'))) (rc_calls sy')"
    using rsettled_other [OF _ _ quiet same] c(1) by (simp add: calls list_all_iff)
next
  fix w base evs
  assume m: "rmirrors (rs_store (rc_srv sy)) (rc_calls sy) w base evs"
  show "rmirrors (rs_store (rc_srv sy')) (rc_calls sy') w base (evs @ rpublished l sy w)"
    unfolding rmirrors_def
  proof (intro allI impI)
    fix n
    assume n: "n \<notin> set (reg_in_flight (rw_tenant w) (rc_calls sy')) \<or> \<not> asks_for w n"
    then have "n \<notin> set (reg_in_flight (rw_tenant w) (rc_calls sy)) \<or> \<not> asks_for w n"
      by (auto simp: reg_in_flight_remove [OF k] old calls)
    then have f: "fold svc_step evs base n = service_view (rs_store (rc_srv sy)) w n" using m by (simp add: rmirrors_def)
    have "rw_tenant w \<noteq> t \<or> n \<notin> set names" if "asks_for w n" using n c(2) that by (auto simp: calls)
    then show "fold svc_step (evs @ rpublished l sy w) base n = service_view (rs_store (rc_srv sy')) w n"
      using f same by (auto simp: pub service_view_bound)
  qed
qed

text \<open>A broadcast of what the store says of a name.\<close>

lemma rpublish_in_step:
  assumes "rin_step sy" and "reg_conc_ok sy" and "rsteps l sy sy'"
    and pub: "\<And>w. rpublished l sy w = (if registry_wants t ev w then [ev] else [])"
    and st: "rs_store (rc_srv sy') = rs_store (rc_srv sy)"
    and calls: "list_all (rsettled (rs_store (rc_srv sy))) (rc_calls sy')"
    and fl: "\<And>T. set (reg_in_flight T (rc_calls sy)) \<subseteq>
               set (reg_in_flight T (rc_calls sy')) \<union> (if T = t then {we_ServiceName ev} else {})"
    and ev: "\<And>m. svc_step ev m = m(we_ServiceName ev := bound (rs_store (rc_srv sy)) t (we_ServiceName ev))"
  shows "rin_step sy'"
proof (rule rin_step_sessions [OF assms(1-3)])
  show "list_all (rsettled (rs_store (rc_srv sy'))) (rc_calls sy')" using calls by (simp add: st)
next
  fix w base evs
  assume t: "rw_tenant w \<noteq> ''''" and m: "rmirrors (rs_store (rc_srv sy)) (rc_calls sy) w base evs"
  let ?n = "we_ServiceName ev"
  have wants: "registry_wants t ev w \<longleftrightarrow> rw_tenant w = t \<and> asks_for w ?n"
    using t by (auto simp: registry_wants_def asks_for_def)
  show "rmirrors (rs_store (rc_srv sy')) (rc_calls sy') w base (evs @ rpublished l sy w)"
    unfolding rmirrors_def
  proof (intro allI impI)
    fix n
    assume n: "n \<notin> set (reg_in_flight (rw_tenant w) (rc_calls sy')) \<or> \<not> asks_for w n"
    show "fold svc_step (evs @ rpublished l sy w) base n = service_view (rs_store (rc_srv sy')) w n"
    proof (cases "registry_wants t ev w \<and> n = ?n")
      case True
      then show ?thesis by (simp add: pub ev st service_view_bound wants [THEN iffD1])
    next
      case False
      have "n \<notin> set (reg_in_flight (rw_tenant w) (rc_calls sy)) \<or> \<not> asks_for w n"
        using n False fl [of "rw_tenant w"] wants by (auto split: if_splits)
      then have "fold svc_step evs base n = service_view (rs_store (rc_srv sy)) w n" using m by (simp add: rmirrors_def)
      then show ?thesis using False by (simp add: pub ev st)
    qed
  qed
qed

text \<open>What the statements do to the bindings.\<close>

lemma bound_services: "st_services s' = st_services s \<Longrightarrow> bound s' t = bound s t"
  by (simp add: bound_def fun_eq_iff)

lemma bound_register:
  assumes "store_RegisterService env s (requested_service req) = (Inr i, s')" and "canonical_ids s" and "store_wf s"
  shows "bound s' t n =
    (if t = rsr_Tenant req \<and> n = rsr_ServiceName req then Some (i, rsr_AgentUri req, rsr_RelayId req, rsr_LocalAddr req)
     else bound s t n)"
  using register_row(4) [OF assms(1) _ assms(2,3), of "(t, n)"] by (simp add: bound_def)

lemma bound_row:
  "bound s t n = Some (i, a, rl, la) \<longleftrightarrow>
     (\<exists>r. table_lookup sv_key (t, n) (st_services s) = Some r \<and> svc_row_binding r = (i, a, rl, la))"
  by (auto simp: bound_def)

lemma lookup_row: "table_lookup sv_key (t, n) rows = Some r \<Longrightarrow> r \<in> set rows \<and> sv_tenant r = t \<and> sv_name r = n"
  by (auto simp: table_lookup_def find_Some_iff sv_key_def)

lemma bound_delete:
  assumes "dereg_delete env s t a rl = (None, s')" and "store_wf s"
  shows "bound s' t' n = (if t' = t \<and> (\<exists>i la. bound s t n = Some (i, a, rl, la)) then None else bound s t' n)"
proof -
  have s': "st_services s' = filter (\<lambda>r. \<not> owned_by t a rl r) (st_services s)"
    using assms(1) by (auto simp: dereg_delete_def split: option.splits)
  show ?thesis
  proof (cases "table_lookup sv_key (t', n) (st_services s)")
    case None
    then show ?thesis by (simp add: bound_def s' filter_removed_lookup [OF assms(2)])
  next
    case (Some r)
    have "bound s' t' n = (if owned_by t a rl r then None else Some (svc_row_binding r))"
      by (simp add: bound_def s' filter_removed_lookup [OF assms(2)] Some)
    moreover have "owned_by t a rl r \<longleftrightarrow> t' = t \<and> (\<exists>i la. bound s t n = Some (i, a, rl, la))"
      using Some lookup_row [OF Some] by (auto simp: bound_row svc_row_binding_def owned_by_def)
    ultimately show ?thesis using Some by (simp add: bound_def)
  qed
qed

text \<open>A listing names exactly the services that the deletion will take.\<close>

lemma listed_settled:
  assumes "dereg_select env scan s (dar_Tenant req) (dar_AgentUri req) (dar_RelayId req) = Inr removed" and "is_scan scan"
    and "store_wf s"
  shows "rsettled s (QDelete req removed)"
proof -
  let ?own = "owned_by (dar_Tenant req) (dar_AgentUri req) (dar_RelayId req)"
  have d: "distinct (map sv_key (st_services s))" using assms(3) by (simp add: store_wf_def)
  have names: "n \<in> svc_Name ` set removed \<longleftrightarrow> (\<exists>r \<in> set (st_services s). ?own r \<and> sv_name r = n)" for n
    using assms(1) by (force simp: dereg_select_def scan_set [OF assms(2)] to_Service_def split: option.splits)
  have "(\<exists>r \<in> set (st_services s). ?own r \<and> sv_name r = n) \<longleftrightarrow>
      (\<exists>i la. bound s (dar_Tenant req) n = Some (i, dar_AgentUri req, dar_RelayId req, la))" (is "?l \<longleftrightarrow> ?r") for n
  proof
    assume ?l
    then obtain r where r: "r \<in> set (st_services s)" "?own r" "sv_name r = n" by blast
    then have k: "sv_key r = (dar_Tenant req, n)" by (simp add: owned_by_def sv_key_def)
    then obtain r' where r': "table_lookup sv_key (dar_Tenant req, n) (st_services s) = Some r'"
      using r(1) by (cases "table_lookup sv_key (dar_Tenant req, n) (st_services s)")
        (auto simp: table_lookup_def find_None_iff)
    then have "r' \<in> set (st_services s)" "sv_key r' = sv_key r" using lookup_row k by (auto simp: sv_key_def)
    then have "table_lookup sv_key (dar_Tenant req, n) (st_services s) = Some r"
      using distinct_map_key_inj [OF d _ r(1)] r' by blast
    then show ?r using r by (auto simp: bound_def svc_row_binding_def owned_by_def)
  next
    assume ?r
    then obtain r where "table_lookup sv_key (dar_Tenant req, n) (st_services s) = Some r"
      "sv_agent_uri r = dar_AgentUri req" "sv_relay_id r = dar_RelayId req"
      by (auto simp: bound_row svc_row_binding_def)
    then show ?l using lookup_row by (fastforce simp: owned_by_def)
  qed
  then show ?thesis by (simp add: names)
qed

text \<open>Every action of a pending call.\<close>

lemma insert_in_step:
  assumes "rin_step sy" and "reg_conc_ok sy" and "rsteps (RContinue k env) sy sy'" and "k < length (rc_calls sy)"
    and "rc_calls sy ! k = QInsert req" and "commit_quiet (QInsert req) (drop_nth k (rc_calls sy))"
    and ex: "rcontinue env (QInsert req) (sy\<lparr>rc_calls := drop_nth k (rc_calls sy)\<rparr>) = Some sy'"
  shows "rin_step sy'"
proof -
  obtain r s where g: "store_RegisterService env (rs_store (rc_srv sy)) (requested_service req) = (r, s)" by fastforce
  have pub: "\<And>w. rpublished (RContinue k env) sy w = []" by (simp add: assms(5))
  have ok: "canonical_ids (rs_store (rc_srv sy))" "store_wf (rs_store (rc_srv sy))"
    using assms(2) by (simp_all add: reg_conc_ok_def reg_ok_def)
  show ?thesis
  proof (cases r)
    case (Inl e)
    then have "s = rs_store (rc_srv sy)" using g by (auto simp: store_RegisterService_def Let_def split: option.splits if_splits)
    then have sy': "rs_store (rc_srv sy') = rs_store (rc_srv sy)" "rc_calls sy' = drop_nth k (rc_calls sy)"
      using ex g Inl by auto
    show ?thesis
      by (rule rframe_in_step [OF assms(1-3) pub, of "[]"])
        (use sy' set_drop_nth [of k "rc_calls sy"] reg_in_flight_remove [OF assms(4)] assms(5) in auto)
  next
    case (Inr i)
    then have sy': "rs_store (rc_srv sy') = s" "rc_calls sy' = drop_nth k (rc_calls sy) @ [QAnnounce i req]"
      using ex g by auto
    note b = bound_register [OF g [unfolded Inr] ok]
    show ?thesis
      by (rule rcommit_in_step [OF assms(1-3) pub assms(4) _ sy'(2), of "rsr_Tenant req" "[rsr_ServiceName req]"])
        (use assms(5,6) sy'(1) b in auto)
  qed
qed

lemma delete_in_step:
  assumes "rin_step sy" and "reg_conc_ok sy" and "rsteps (RContinue k env) sy sy'" and "k < length (rc_calls sy)"
    and "rc_calls sy ! k = QDelete req removed" and "commit_quiet (QDelete req removed) (drop_nth k (rc_calls sy))"
    and ex: "rcontinue env (QDelete req removed) (sy\<lparr>rc_calls := drop_nth k (rc_calls sy)\<rparr>) = Some sy'"
  shows "rin_step sy'"
proof -
  obtain r s where d: "dereg_delete env (rs_store (rc_srv sy)) (dar_Tenant req) (dar_AgentUri req) (dar_RelayId req) = (r, s)"
    by fastforce
  have pub: "\<And>w. rpublished (RContinue k env) sy w = []" by (simp add: assms(5))
  have wf: "store_wf (rs_store (rc_srv sy))" using assms(2) by (simp add: reg_conc_ok_def reg_ok_def)
  show ?thesis
  proof (cases r)
    case (Some e)
    then have "s = rs_store (rc_srv sy)" using d by (auto simp: dereg_delete_def split: option.splits)
    then have sy': "rs_store (rc_srv sy') = rs_store (rc_srv sy)" "rc_calls sy' = drop_nth k (rc_calls sy)"
      using ex d Some by auto
    show ?thesis
      by (rule rframe_in_step [OF assms(1-3) pub, of "[]"])
        (use sy' set_drop_nth [of k "rc_calls sy"] reg_in_flight_remove [OF assms(4)] assms(5) in auto)
  next
    case None
    then have sy': "rs_store (rc_srv sy') = s" "rc_calls sy' = drop_nth k (rc_calls sy) @ [QWithdraw (dar_Tenant req) removed]"
      using ex d by auto
    have "rsettled (rs_store (rc_srv sy)) (QDelete req removed)"
      using assms(1,4,5) by (metis list_all_length rin_step_def)
    then have b: "bound s t n = (if t = dar_Tenant req \<and> n \<in> svc_Name ` set removed then None else bound (rs_store (rc_srv sy)) t n)"
      for t n using bound_delete [OF d [unfolded None] wf, of t n] by simp
    show ?thesis
      by (rule rcommit_in_step [OF assms(1-3) pub assms(4) _ sy'(2), of "dar_Tenant req" "map svc_Name removed"])
        (use assms(5,6) sy'(1) b in auto)
  qed
qed

lemma broadcast_in_step:
  assumes "rin_step sy" and "reg_conc_ok sy" and "rsteps (RContinue k env) sy sy'" and "k < length (rc_calls sy)"
    and ex: "rcontinue env (rc_calls sy ! k) (sy\<lparr>rc_calls := drop_nth k (rc_calls sy)\<rparr>) = Some sy'"
    and c: "(\<exists>i req. rc_calls sy ! k = QAnnounce i req) \<or> (\<exists>t svcs. rc_calls sy ! k = QWithdraw t svcs)"
  shows "rin_step sy'"
proof -
  let ?others = "drop_nth k (rc_calls sy)" and ?s = "rs_store (rc_srv sy)"
  have here: "rsettled ?s (rc_calls sy ! k)" using assms(1,4) by (simp add: rin_step_def list_all_length)
  have others: "list_all (rsettled ?s) ?others"
    using assms(1) set_drop_nth [of k "rc_calls sy"] by (auto simp: rin_step_def list_all_iff)
  note fl = reg_in_flight_remove [OF assms(4)]
  from c consider (ann) i req where "rc_calls sy ! k = QAnnounce i req" | (nil) t where "rc_calls sy ! k = QWithdraw t []"
    | (cons) t svc svcs where "rc_calls sy ! k = QWithdraw t (svc # svcs)"
    by (metis neq_Nil_conv)
  then show ?thesis
  proof cases
    case ann
    then have sy': "rs_store (rc_srv sy') = ?s" "rc_calls sy' = ?others" using ex by (auto simp: registry_broadcast_def)
    show ?thesis
      by (rule rpublish_in_step [OF assms(1-3), of "rsr_Tenant req" "register_event i req"])
        (use ann here others assms(4) sy' fl in auto)
  next
    case nil
    then have sy': "rs_store (rc_srv sy') = ?s" "rc_calls sy' = ?others" using ex by auto
    show ?thesis
      by (rule rframe_in_step [OF assms(1-3), of "[]"])
        (use nil sy' set_drop_nth [of k "rc_calls sy"] fl in auto)
  next
    case cons
    then have sy': "rs_store (rc_srv sy') = ?s" "rc_calls sy' = ?others @ [QWithdraw t svcs]"
      using ex by (auto simp: registry_broadcast_def)
    show ?thesis
      by (rule rpublish_in_step [OF assms(1-3), of t "deregister_event svc"])
        (use cons here others assms(4) sy' fl in auto)
  qed
qed

lemma rcontinue_in_step:
  assumes "rin_step sy" and "reg_conc_ok sy" and "rsteps (RContinue k env) sy sy'"
    and "reg_race_free (RContinue k env) sy" and "reg_conc_exec (RContinue k env) sy = Some sy'"
  shows "rin_step sy'"
proof (cases "k < length (rc_calls sy)")
  case True
  then have q: "commit_quiet (rc_calls sy ! k) (drop_nth k (rc_calls sy))"
    and ex: "rcontinue env (rc_calls sy ! k) (sy\<lparr>rc_calls := drop_nth k (rc_calls sy)\<rparr>) = Some sy'"
    using assms(4,5) by simp_all
  show ?thesis
  proof (cases "rc_calls sy ! k")
    case (QInsert req)
    from insert_in_step [OF assms(1-3) True QInsert q [unfolded QInsert] ex [unfolded QInsert]] show ?thesis .
  next
    case (QDelete req removed)
    from delete_in_step [OF assms(1-3) True QDelete q [unfolded QDelete] ex [unfolded QDelete]] show ?thesis .
  qed (use broadcast_in_step [OF assms(1-3) True ex] in auto)
qed (use assms in simp)

text \<open>Every action that begins a call, and the turns of the sessions.\<close>

lemma start_in_step:
  assumes "rin_step sy" and "reg_conc_ok sy" and "rsteps l sy sy'" and "reg_label_ok l" and "reg_conc_exec l sy = Some sy'"
    and "\<nexists>k env. l = RContinue k env"
  shows "rin_step sy'"
proof -
  have pub: "\<And>w. rpublished l sy w = []" using assms(6) by (cases l) auto
  have wf: "store_wf (rs_store (rc_srv sy))" using assms(2) by (simp add: reg_conc_ok_def reg_ok_def)
  have "\<exists>cs. rc_calls sy' = rc_calls sy @ cs \<and> list_all (rsettled (rs_store (rc_srv sy))) cs \<and>
      (\<forall>t. reg_in_flight t cs = []) \<and> st_services (rs_store (rc_srv sy')) = st_services (rs_store (rc_srv sy))"
  proof (cases l)
    case (RRegister env req)
    obtain e s where u: "UpsertAgent env (rs_store (rc_srv sy)) (rsr_Tenant req) (rsr_AgentUri req) = (e, s)" by fastforce
    have "sy' = sy \<or> sy' = sy\<lparr>rc_srv := (rc_srv sy)\<lparr>rs_store := s\<rparr>\<rparr> \<or>
        sy' = sy\<lparr>rc_srv := (rc_srv sy)\<lparr>rs_store := s\<rparr>, rc_calls := rc_calls sy @ [QInsert req]\<rparr>"
      using assms(5) RRegister u by (auto split: if_splits option.splits)
    then show ?thesis using UpsertAgent_frame(1) [OF u] by (elim disjE) (auto intro: exI [of _ "[QInsert req]"])
  next
    case (RDeregister env scan req)
    then show ?thesis using assms(4,5) listed_settled [OF _ _ wf, of env scan req]
      by (auto split: sum.splits simp del: rsettled.simps)
  next
    case (RRelay env req)
    have "st_services (rs_store (snd (UpsertRelay env (rc_srv sy) req))) = st_services (rs_store (rc_srv sy))"
      by (auto simp: UpsertRelay_def store_UpsertRelay_def split: option.splits)
    then show ?thesis using assms(5) RRelay by auto
  next
    case (RWatch req)
    then show ?thesis using assms(5) by (auto simp: registry_Watch_def Let_def split: prod.splits)
  next
    case (RStep p io)
    then show ?thesis using assms(5) rsteps_step [OF assms(2), of p io] by auto
  qed (use assms(6) in simp)
  then obtain cs where cs: "rc_calls sy' = rc_calls sy @ cs" "list_all (rsettled (rs_store (rc_srv sy))) cs"
    "\<And>t. reg_in_flight t cs = []" "st_services (rs_store (rc_srv sy')) = st_services (rs_store (rc_srv sy))" by blast
  show ?thesis
    by (rule rframe_in_step [OF assms(1-3) pub bound_services [OF cs(4)] _ cs(2)]) (simp_all add: cs)
qed

lemma reg_conc_reach_in_step: "reg_conc_reach reg_race_free sy \<Longrightarrow> rin_step sy"
proof (induction rule: reg_conc_reach.induct)
  case (reg_conc_reach_init s)
  then show ?case by (simp add: rin_step_def reg_conc_init_def)
next
  case (reg_conc_reach_step sy l sy')
  note h = reg_conc_reach_step.hyps
  have ok: "reg_conc_ok sy" by (rule reg_conc_reach_ok [OF h(1)])
  have st: "rsteps l sy sy'" using reg_conc_exec_steps [OF ok, of l] h(4) by simp
  show ?case
  proof (cases "\<exists>k env. l = RContinue k env")
    case True
    then show ?thesis using rcontinue_in_step [OF reg_conc_reach_step.IH ok] st h(3,4) by blast
  next
    case False
    then show ?thesis using start_in_step [OF reg_conc_reach_step.IH ok st h(2,4)] by blast
  qed
qed

subsection \<open>Properties\<close>

primrec reg_conc_run :: "reg_label list \<Rightarrow> reg_sys \<Rightarrow> reg_sys option" where
  "reg_conc_run [] sy = Some sy"
| "reg_conc_run (l # ls) sy = (case reg_conc_exec l sy of None \<Rightarrow> None | Some sy' \<Rightarrow> reg_conc_run ls sy')"

primrec reg_run_allowed :: "(reg_label \<Rightarrow> reg_sys \<Rightarrow> bool) \<Rightarrow> reg_label list \<Rightarrow> reg_sys \<Rightarrow> bool" where
  "reg_run_allowed allowed [] sy \<longleftrightarrow> True"
| "reg_run_allowed allowed (l # ls) sy \<longleftrightarrow> reg_label_ok l \<and> allowed l sy \<and>
     (case reg_conc_exec l sy of None \<Rightarrow> True | Some sy' \<Rightarrow> reg_run_allowed allowed ls sy')"

lemma reg_conc_reach_run:
  "reg_conc_reach allowed sy \<Longrightarrow> reg_run_allowed allowed ls sy \<Longrightarrow> reg_conc_run ls sy = Some sy' \<Longrightarrow> reg_conc_reach allowed sy'"
  by (induction ls arbitrary: sy) (auto intro: reg_conc_reach_step split: option.splits)

lemma reg_conc_reach_any: "reg_conc_reach allowed sy \<Longrightarrow> reg_conc_reach (\<lambda>_ _. True) sy"
  by (induction rule: reg_conc_reach.induct) (auto intro: reg_conc_reach_init reg_conc_reach_step)

text \<open>
  The registry's Watch stream explains the store under concurrent calls: in every state reached by
  a schedule that never commits on a name another call has in flight, nor for a tenant between the
  SELECT and the DELETE of a deregistration of that tenant, a client of a non-empty tenant that
  knew the bindings of its names when its Watch was registered, is still registered and has
  nothing queued, knows the binding of every name that no call has in flight by applying what it
  was sent.
\<close>

theorem registry_mirror_concurrent:
  assumes "reg_conc_reach reg_race_free sy" and "rc_sessions sy p = Some se"
    and "hub_cfg (rs_hub (rc_srv sy)) p = Some w" and "rw_tenant w \<noteq> ''''"
    and "hub_live (rs_hub (rc_srv sy)) p" and "hub_pending (rs_hub (rc_srv sy)) p = []"
    and "n \<notin> set (reg_in_flight (rw_tenant w) (rc_calls sy))"
  shows "fold svc_step (rg_sent se) (rc_base sy p) n = service_view (rs_store (rc_srv sy)) w n"
proof -
  have "rg_ptr se = p" using reg_conc_okD [OF reg_conc_reach_ok [OF assms(1)] assms(2)] by blast
  then have "rstream (rc_srv sy) se = rg_sent se" using assms(6) by (simp add: rstream_def)
  moreover have "rmirrors (rs_store (rc_srv sy)) (rc_calls sy) w (rc_base sy p) (rstream (rc_srv sy) se)"
    using reg_conc_reach_in_step [OF assms(1)] assms(2-5) unfolding rin_step_def by blast
  ultimately show ?thesis using assms(7) by (simp add: rmirrors_def)
qed

text \<open>Two services are registered; the broadcast of the second overtakes that of the first.\<close>

definition reg_overtaking :: "reg_label list" where
  "reg_overtaking = [RWatch \<lparr>wr_Tenant = ''acme'', wr_ServiceNames = []\<rparr>,
     RRegister (ok_env 1) demo_req, RContinue 0 (ok_env 2),
     RRegister (ok_env 3) (demo_req\<lparr>rsr_ServiceName := ''shop''\<rparr>), RContinue 1 (ok_env 4),
     RContinue 1 (ok_env 5), RStep 0 RSendOK]"

lemmas reg_eval =
  reg_overtaking_def reg_conc_init_def registry_New_def empty_store_def demo_req_def ok_env_def drop_nth_def
  registry_Watch_def next_watch_id_def hub_join_def alloc_watcher_def addWatcher_def new_hub_def make_chan_def nameSet_def
  UpsertAgent_def store_RegisterService_def service_id_def upsert_def
  registry_broadcast_def hub_broadcast_def deliver_def try_send_def watch_cap_def registry_wants_def
  registry_Watch_step_def hub_recv_def chan_recv_def Let_def List.insert_def

lemma reg_overtaking_state:
  "\<exists>sy se. reg_conc_run reg_overtaking (reg_conc_init empty_store) = Some sy \<and> rc_sessions sy 0 = Some se \<and>
     hub_cfg (rs_hub (rc_srv sy)) 0 = Some demo_watcher \<and>
     hub_live (rs_hub (rc_srv sy)) 0 \<and> hub_pending (rs_hub (rc_srv sy)) 0 = [] \<and>
     rg_sent se = [register_event ''acme/shop'' (demo_req\<lparr>rsr_ServiceName := ''shop''\<rparr>)] \<and>
     rc_calls sy = [QAnnounce ''acme/pay'' demo_req] \<and> rc_base sy 0 = (\<lambda>_. None)"
  by (simp add: reg_eval hub_live_def hub_pending_def hub_cfg_def demo_watcher_def service_view_def table_lookup_def fun_eq_iff)

lemma reg_overtaking_race_free: "reg_run_allowed reg_race_free reg_overtaking (reg_conc_init empty_store)"
  by (simp add: reg_eval reg_quiet_def)

lemma reg_conc_reach_overtaking:
  "reg_conc_run reg_overtaking (reg_conc_init empty_store) = Some sy \<Longrightarrow> reg_conc_reach reg_race_free sy"
  by (rule reg_conc_reach_run [OF reg_conc_reach_init reg_overtaking_race_free])
    (simp_all add: store_wf_def canonical_ids_def empty_store_def)

theorem registry_mirror_concurrent_witness:
  "\<exists>sy. reg_conc_run reg_overtaking (reg_conc_init empty_store) = Some sy \<and> reg_in_flight ''acme'' (rc_calls sy) = [''pay''] \<and>
     service_view (rs_store (rc_srv sy)) demo_watcher ''shop'' = Some (''acme/shop'', ''a1'', ''r1'', '''')"
proof -
  obtain sy se where run: "reg_conc_run reg_overtaking (reg_conc_init empty_store) = Some sy" and
    se: "rc_sessions sy 0 = Some se" "hub_cfg (rs_hub (rc_srv sy)) 0 = Some demo_watcher"
    "hub_live (rs_hub (rc_srv sy)) 0" "hub_pending (rs_hub (rc_srv sy)) 0 = []"
    "rg_sent se = [register_event ''acme/shop'' (demo_req\<lparr>rsr_ServiceName := ''shop''\<rparr>)]"
    "rc_calls sy = [QAnnounce ''acme/pay'' demo_req]"
    using reg_overtaking_state by blast
  have f: "reg_in_flight ''acme'' (rc_calls sy) = [''pay'']" by (simp add: se(6) demo_req_def)
  have "''shop'' \<notin> set (reg_in_flight (rw_tenant demo_watcher) (rc_calls sy))"
    using f by (simp add: demo_watcher_def)
  from registry_mirror_concurrent [OF reg_conc_reach_overtaking [OF run] se(1,2) _ se(3,4) this]
  show ?thesis using run f by (simp add: se(5) demo_watcher_def demo_req_def)
qed

text \<open>
  The registry is safe under every interleaving of its calls: in every state reached by any
  schedule every further action is defined (no send on a closed channel, no second close), the
  store and the hub keep their invariants, and a session whose watcher was dropped for being slow
  and that has drained its queue returns the slow-consumer error at its next turn unless its
  client has gone.
\<close>

theorem registry_concurrent_safe:
  assumes "reg_conc_reach (\<lambda>_ _. True) sy"
  shows "reg_conc_exec l sy \<noteq> None \<and> reg_ok (rc_srv sy) \<and>
         (\<forall>p se io. rc_sessions sy p = Some se \<longrightarrow> rg_pc se = RLive \<longrightarrow> \<not> hub_live (rs_hub (rc_srv sy)) p \<longrightarrow>
            hub_pending (rs_hub (rc_srv sy)) p = [] \<longrightarrow> io \<noteq> RCtxDone \<longrightarrow>
            (\<exists>sy' se'. reg_conc_exec (RStep p io) sy = Some sy' \<and> rc_sessions sy' p = Some se' \<and>
               rg_pc se' = RDone (Some reg_watcher_dropped) \<and> rg_sent se' = rg_sent se))"
proof (intro conjI allI impI)
  have inv: "reg_conc_ok sy" by (rule reg_conc_reach_ok [OF assms])
  show "reg_conc_exec l sy \<noteq> None" using reg_conc_exec_steps [OF inv, of l] by auto
  show ok: "reg_ok (rc_srv sy)" using inv by (simp add: reg_conc_ok_def)
  fix p se io
  assume a: "rc_sessions sy p = Some se" "rg_pc se = RLive" "\<not> hub_live (rs_hub (rc_srv sy)) p"
    "hub_pending (rs_hub (rc_srv sy)) p = []" "io \<noteq> RCtxDone"
  obtain w where w: "rg_ptr se = p" "hub_cfg (rs_hub (rc_srv sy)) p = Some w" by (rule reg_conc_okD [OF inv a(1)])
  then obtain c where m: "hub_mem (rs_hub (rc_srv sy)) p = Some (w, c)" by (auto simp: hub_cfg_def)
  have "ch_closed c" "ch_buf c = []"
    using ok m a(3,4) by (auto simp: reg_ok_def hub_wf_def hub_live_def hub_pending_def)
  then have "registry_Watch_step io se (rc_srv sy) = registry_Watch_return (Some reg_watcher_dropped) se (rc_srv sy)"
    using m a(2,5) w(1) by (auto simp: registry_Watch_step_def hub_recv_def chan_recv_def)
  then show "\<exists>sy' se'. reg_conc_exec (RStep p io) sy = Some sy' \<and> rc_sessions sy' p = Some se' \<and>
               rg_pc se' = RDone (Some reg_watcher_dropped) \<and> rg_sent se' = rg_sent se"
    using Watch_return_moves [OF ok, of se w "Some reg_watcher_dropped"] a(1) w by auto
qed

theorem registry_concurrent_safe_witness:
  "\<exists>sy. reg_conc_run reg_overtaking (reg_conc_init empty_store) = Some sy \<and> reg_conc_exec (RContinue 0 (ok_env 6)) sy \<noteq> None"
proof -
  obtain sy where run: "reg_conc_run reg_overtaking (reg_conc_init empty_store) = Some sy" using reg_overtaking_state by blast
  then show ?thesis
    using registry_concurrent_safe [OF reg_conc_reach_any [OF reg_conc_reach_overtaking [OF run]], of "RContinue 0 (ok_env 6)"] by blast
qed

text \<open>
  Tenants do not see each other's services: whatever the schedule of calls, every event a registry
  Watch session has been sent is a change that was committed, for the session's tenant (any
  tenant, if it asked for none) and for one of the names it asked for.
\<close>

theorem registry_watch_confidential:
  assumes "reg_conc_reach (\<lambda>_ _. True) sy" and "rc_sessions sy p = Some se" and "hub_cfg (rs_hub (rc_srv sy)) p = Some w"
  shows "list_all (\<lambda>ev. \<exists>t. (t, ev) \<in> set (rc_ever sy) \<and> (rw_tenant w = '''' \<or> rw_tenant w = t) \<and>
           (rw_filter w = [] \<or> we_ServiceName ev \<in> set (rw_filter w))) (rg_sent se)"
proof -
  have "list_all (meant_for (rc_ever sy) w) (rstream (rc_srv sy) se)"
    using reg_conc_reach_provenance [OF assms(1)] assms(2,3) unfolding rprovenance_def by blast
  then show ?thesis by (auto simp: rstream_def list_all_iff meant_for_def list_ex_iff registry_wants_def)
qed

theorem registry_watch_confidential_witness:
  "\<exists>sy se. reg_conc_run reg_overtaking (reg_conc_init empty_store) = Some sy \<and> rc_sessions sy 0 = Some se \<and>
     rg_sent se \<noteq> [] \<and> list_all (\<lambda>ev. (''acme'', ev) \<in> set (rc_ever sy)) (rg_sent se)"
proof -
  obtain sy se where run: "reg_conc_run reg_overtaking (reg_conc_init empty_store) = Some sy" and
    se: "rc_sessions sy 0 = Some se" "hub_cfg (rs_hub (rc_srv sy)) 0 = Some demo_watcher" "rg_sent se \<noteq> []"
    using reg_overtaking_state by fastforce
  from registry_watch_confidential [OF reg_conc_reach_any [OF reg_conc_reach_overtaking [OF run]] se(1,2)]
  show ?thesis using run se by (auto simp: demo_watcher_def)
qed

text \<open>
  The announcement race. A registration has stored the service and not yet broadcast it; the agent
  is deregistered, with its broadcast; then the registration broadcasts. The store does not have
  the service, and a watcher that applies its events in order holds it.
\<close>

definition reg_reorder :: "reg_label list" where
  "reg_reorder = [RWatch \<lparr>wr_Tenant = ''acme'', wr_ServiceNames = []\<rparr>,
     RRegister (ok_env 1) demo_req, RContinue 0 (ok_env 2),
     RDeregister (ok_env 3) id \<lparr>dar_Tenant = ''acme'', dar_AgentUri = ''a1'', dar_RelayId = ''r1''\<rparr>,
     RContinue 1 (ok_env 4), RContinue 1 (ok_env 5), RContinue 0 (ok_env 6), RContinue 0 (ok_env 7),
     RStep 0 RSendOK, RStep 0 RSendOK]"

theorem registry_announce_reorder:
  "\<exists>sy se. reg_conc_run reg_reorder (reg_conc_init empty_store) = Some sy \<and> rc_calls sy = [] \<and>
     rc_sessions sy 0 = Some se \<and> hub_live (rs_hub (rc_srv sy)) 0 \<and> hub_pending (rs_hub (rc_srv sy)) 0 = [] \<and>
     service_view (rs_store (rc_srv sy)) demo_watcher ''pay'' = None \<and>
     fold svc_step (rg_sent se) (rc_base sy 0) ''pay'' = Some (''acme/pay'', ''a1'', ''r1'', '''')"
  by (simp add: reg_reorder_def reg_eval dereg_select_def dereg_delete_def owned_by_def to_Service_def deregister_event_def
      register_event_def hub_live_def hub_pending_def demo_watcher_def service_view_def table_lookup_def svc_step.simps)

subsection \<open>Whole calls are schedules\<close>

lemma whole_RegisterService:
  assumes "rc_calls sy = []" and "RegisterService env1 env2 (rc_srv sy) req = Some (r, srv')"
  shows "\<exists>sy'. reg_conc_run [RRegister env1 req, RContinue 0 env2, RContinue 0 env3] sy = Some sy' \<and>
           rc_calls sy' = [] \<and> rc_srv sy' = srv' \<and> rc_sessions sy' = rc_sessions sy"
proof (cases "rsr_Tenant req = '''' \<or> rsr_ServiceName req = '''' \<or> rsr_AgentUri req = '''' \<or> rsr_RelayId req = ''''")
  case True
  then show ?thesis using assms by (simp add: RegisterService_def)
next
  case False
  obtain e s where u: "UpsertAgent env1 (rs_store (rc_srv sy)) (rsr_Tenant req) (rsr_AgentUri req) = (e, s)" by fastforce
  obtain x s2 where g: "store_RegisterService env2 s (requested_service req) = (x, s2)" by fastforce
  show ?thesis using assms False u g
    by (cases e; cases x) (auto simp: RegisterService_def drop_nth_def)
qed

lemma withdraw_schedule:
  assumes "rc_calls sy = [QWithdraw t svcs]" and "broadcast_removed svcs t (rc_srv sy) = Some srv'"
  shows "\<exists>sy'. reg_conc_run (replicate (Suc (length svcs)) (RContinue 0 env)) sy = Some sy' \<and>
           rc_calls sy' = [] \<and> rc_srv sy' = srv' \<and> rc_sessions sy' = rc_sessions sy"
  using assms
proof (induction svcs arbitrary: sy)
  case Nil
  then show ?case by (simp add: drop_nth_def)
next
  case (Cons svc svcs)
  obtain srv1 where b: "registry_broadcast (deregister_event svc) t (rc_srv sy) = Some srv1"
    "broadcast_removed svcs t srv1 = Some srv'" using Cons.prems(2) by (auto split: option.splits)
  let ?sy = "sy\<lparr>rc_srv := srv1, rc_calls := [QWithdraw t svcs]\<rparr>"
  have "reg_conc_exec (RContinue 0 env) sy = Some ?sy" using Cons.prems(1) b(1) by (simp add: drop_nth_def)
  then show ?case using Cons.IH [of ?sy] b(2) by simp
qed

lemma whole_DeregisterAgent:
  assumes "rc_calls sy = []" and "DeregisterAgent env1 env2 scan (rc_srv sy) req = Some (r, srv')"
  shows "\<exists>n sy'. reg_conc_run (RDeregister env1 scan req # replicate n (RContinue 0 env2)) sy = Some sy' \<and>
           rc_calls sy' = [] \<and> rc_srv sy' = srv' \<and> rc_sessions sy' = rc_sessions sy"
proof (cases "dereg_select env1 scan (rs_store (rc_srv sy)) (dar_Tenant req) (dar_AgentUri req) (dar_RelayId req)")
  case (Inl e)
  then show ?thesis using assms
    by (intro exI [of _ 0]) (simp add: DeregisterAgent_def store_DeregisterAgent_def)
next
  case (Inr removed)
  obtain e s where d: "dereg_delete env2 (rs_store (rc_srv sy)) (dar_Tenant req) (dar_AgentUri req) (dar_RelayId req) = (e, s)"
    by fastforce
  show ?thesis
  proof (cases e)
    case (Some err)
    then show ?thesis using assms Inr d
      by (intro exI [of _ 1]) (simp add: DeregisterAgent_def store_DeregisterAgent_def drop_nth_def)
  next
    case None
    let ?sy = "sy\<lparr>rc_srv := (rc_srv sy)\<lparr>rs_store := s\<rparr>, rc_calls := [QWithdraw (dar_Tenant req) removed],
      rc_ever := map (\<lambda>svc. (dar_Tenant req, deregister_event svc)) removed @ rc_ever sy\<rparr>"
    have "broadcast_removed removed (dar_Tenant req) (rc_srv ?sy) = Some srv'"
      using assms(2) Inr d None by (simp add: DeregisterAgent_def store_DeregisterAgent_def)
    then obtain sy' where "reg_conc_run (replicate (Suc (length removed)) (RContinue 0 env2)) ?sy = Some sy'"
      "rc_calls sy' = []" "rc_srv sy' = srv'" "rc_sessions sy' = rc_sessions ?sy"
      using withdraw_schedule [of ?sy "dar_Tenant req" removed srv' env2] by auto
    then show ?thesis using assms(1) Inr d None
      by (intro exI [of _ "Suc (Suc (length removed))"]) (simp add: drop_nth_def)
  qed
qed

end
