(* ===== verification/Controller_Concurrent.thy ===== *)
theory Controller_Concurrent
  imports Controller Policy_Concurrent Registry_Concurrent
begin

text \<open>
  The whole controller under concurrent calls: the three services of
  \<open>cmd/outrelay-controller/main.go\<close> run their calls in goroutines over one store. A schedule is any
  sequence of actions of \<open>Policy_Concurrent\<close>, of \<open>Registry_Concurrent\<close> and of the two actions of an
  audit record, the insert and the count.

  The policy service and the registry service are refinement maps away: seen through the tables it
  uses, each does exactly what it does alone, and the others do nothing to it. So what the two
  theories show of a service alone holds in the controller, on the store all three share.
\<close>

subsection \<open>The system\<close>

record ctl_sys =
  cc_ct :: Controller
  cc_pcalls :: "pending list"
  cc_psessions :: "nat \<Rightarrow> policy_session option"
  cc_pever :: "PolicyRule list"
  cc_rcalls :: "rpending list"
  cc_rsessions :: "nat \<Rightarrow> reg_session option"
  cc_rbase :: "nat \<Rightarrow> string \<rightharpoonup> binding"
  cc_rever :: "(string \<times> WatchEvent) list"
  cc_records :: nat \<comment> \<open>audit records stored and not yet counted\<close>
  cc_rows0 :: nat \<comment> \<open>audit rows at the start, a ghost\<close>

definition get_policy :: "ctl_sys \<Rightarrow> conc_sys" where
  "get_policy c = \<lparr>cs_srv = policy_of (cc_ct c), cs_calls = cc_pcalls c, cs_sessions = cc_psessions c, cs_ever = cc_pever c\<rparr>"

definition put_policy :: "ctl_sys \<Rightarrow> conc_sys \<Rightarrow> ctl_sys" where
  "put_policy c sy = c\<lparr>cc_ct := with_policy (cc_ct c) (cs_srv sy), cc_pcalls := cs_calls sy,
                       cc_psessions := cs_sessions sy, cc_pever := cs_ever sy\<rparr>"

definition get_registry :: "ctl_sys \<Rightarrow> reg_sys" where
  "get_registry c = \<lparr>rc_srv = registry_of (cc_ct c), rc_calls = cc_rcalls c, rc_sessions = cc_rsessions c,
                     rc_base = cc_rbase c, rc_ever = cc_rever c\<rparr>"

definition put_registry :: "ctl_sys \<Rightarrow> reg_sys \<Rightarrow> ctl_sys" where
  "put_registry c sy = c\<lparr>cc_ct := with_registry (cc_ct c) (rc_srv sy), cc_rcalls := rc_calls sy,
                         cc_rsessions := rc_sessions sy, cc_rbase := rc_base sy, cc_rever := rc_ever sy\<rparr>"

datatype ctl_label =
    CtlPolicy conc_label
  | CtlRegistry reg_label
  | CtlRecord stmt_env RecordAuditRequest
  | CtlCount

text \<open>None is a panic. Resolve, ListPolicies and Query change nothing and are no actions.\<close>

fun ctl_exec :: "ctl_label \<Rightarrow> ctl_sys \<Rightarrow> ctl_sys option" where
  "ctl_exec (CtlPolicy l) c = map_option (put_policy c) (conc_exec l (get_policy c))"
| "ctl_exec (CtlRegistry l) c = map_option (put_registry c) (reg_conc_exec l (get_registry c))"
| "ctl_exec (CtlRecord env req) c =
     (case Record_commit env (audit_of (cc_ct c)) req of
        (Some e, srv) \<Rightarrow> Some (c\<lparr>cc_ct := with_audit (cc_ct c) srv\<rparr>)
      | (None, srv) \<Rightarrow> Some (c\<lparr>cc_ct := with_audit (cc_ct c) srv, cc_records := cc_records c + 1\<rparr>))"
| "ctl_exec CtlCount c =
     (case cc_records c of
        0 \<Rightarrow> Some c
      | Suc n \<Rightarrow> Some (c\<lparr>cc_ct := with_audit (cc_ct c) (Record_count (audit_of (cc_ct c))), cc_records := n\<rparr>))"

definition ctl_init :: "Store \<Rightarrow> ctl_sys" where
  "ctl_init s =
     \<lparr>cc_ct = controller_New s, cc_pcalls = [], cc_psessions = (\<lambda>_. None), cc_pever = map (\<lambda>p. canon_rule (toPB p)) (st_policies s),
      cc_rcalls = [], cc_rsessions = (\<lambda>_. None), cc_rbase = (\<lambda>_. Map.empty), cc_rever = [],
      cc_records = 0, cc_rows0 = length (st_audit s)\<rparr>"

text \<open>A schedule is restricted service by service.\<close>

fun ctl_allowed ::
  "(conc_label \<Rightarrow> conc_sys \<Rightarrow> bool) \<Rightarrow> (reg_label \<Rightarrow> reg_sys \<Rightarrow> bool) \<Rightarrow> ctl_label \<Rightarrow> ctl_sys \<Rightarrow> bool" where
  "ctl_allowed pa ra (CtlPolicy l) c \<longleftrightarrow> conc_label_ok l \<and> pa l (get_policy c)"
| "ctl_allowed pa ra (CtlRegistry l) c \<longleftrightarrow> reg_label_ok l \<and> ra l (get_registry c)"
| "ctl_allowed pa ra _ c \<longleftrightarrow> True"

inductive ctl_reach :: "(conc_label \<Rightarrow> conc_sys \<Rightarrow> bool) \<Rightarrow> (reg_label \<Rightarrow> reg_sys \<Rightarrow> bool) \<Rightarrow> ctl_sys \<Rightarrow> bool" for pa ra where
  ctl_reach_init: "store_wf s \<Longrightarrow> canonical_ids s \<Longrightarrow> ctl_reach pa ra (ctl_init s)"
| ctl_reach_step: "ctl_reach pa ra c \<Longrightarrow> ctl_allowed pa ra l c \<Longrightarrow> ctl_exec l c = Some c' \<Longrightarrow> ctl_reach pa ra c'"

abbreviation any_reg_schedule :: "reg_label \<Rightarrow> reg_sys \<Rightarrow> bool" where
  "any_reg_schedule \<equiv> \<lambda>_ _. True"

lemma get_put [simp]: "get_policy (put_policy c sy) = sy" "get_registry (put_registry c rsy) = rsy"
  by (simp_all add: get_policy_def put_policy_def policy_of_def with_policy_def
      get_registry_def put_registry_def registry_of_def with_registry_def)

subsection \<open>The policy service alone\<close>

definition only_policies :: "Store \<Rightarrow> Store" where
  "only_policies s = empty_store\<lparr>st_policies := st_policies s\<rparr>"

definition forget_ps :: "PolicyServer \<Rightarrow> PolicyServer" where
  "forget_ps srv = srv\<lparr>ps_store := only_policies (ps_store srv)\<rparr>"

definition forget_p :: "conc_sys \<Rightarrow> conc_sys" where
  "forget_p sy = sy\<lparr>cs_srv := forget_ps (cs_srv sy)\<rparr>"

definition policy_view :: "ctl_sys \<Rightarrow> conc_sys" where
  "policy_view c = forget_p (get_policy c)"

fun policy_action :: "ctl_label \<Rightarrow> conc_label option" where
  "policy_action (CtlPolicy l) = Some l"
| "policy_action _ = None"

lemma only_policies_simps [simp]:
  "st_policies (only_policies s) = st_policies s" "tenant_rules (only_policies s) = tenant_rules s"
  "only_policies (s\<lparr>st_policies := ps\<rparr>) = (only_policies s)\<lparr>st_policies := ps\<rparr>"
  by (simp_all add: only_policies_def tenant_rules_def fun_eq_iff)

text \<open>The statements of the policy service do not look at the other tables.\<close>

lemma policy_statements_forget:
  "store_AddPolicy env (only_policies s) p = map_prod id only_policies (store_AddPolicy env s p)"
  "store_RemovePolicy env (only_policies s) t i = map_prod id only_policies (store_RemovePolicy env s t i)"
  "store_ListPolicies env scan (only_policies s) t = store_ListPolicies env scan s t"
  by (simp_all add: store_AddPolicy_def store_RemovePolicy_def store_ListPolicies_def Let_def split: option.splits)

lemma forget_ps_simps [simp]:
  "ps_store (forget_ps srv) = only_policies (ps_store srv)" "ps_hub (forget_ps srv) = ps_hub srv"
  "forget_ps (srv\<lparr>ps_hub := h\<rparr>) = (forget_ps srv)\<lparr>ps_hub := h\<rparr>"
  "forget_ps (srv\<lparr>ps_store := s\<rparr>) = (forget_ps srv)\<lparr>ps_store := only_policies s\<rparr>"
  by (simp_all add: forget_ps_def)

lemma AddPolicy_commit_forget:
  "AddPolicy_commit env uuid (forget_ps srv) req = map_prod id forget_ps (AddPolicy_commit env uuid srv req)"
  by (auto simp: AddPolicy_commit_def policy_statements_forget Let_def split: option.splits prod.splits)

lemma RemovePolicy_commit_forget:
  "RemovePolicy_commit env (forget_ps srv) req = map_prod id forget_ps (RemovePolicy_commit env srv req)"
  by (simp add: RemovePolicy_commit_def policy_statements_forget split: prod.splits)

lemma policy_publish_forget:
  "AddPolicy_publish r (forget_ps srv) = map_option forget_ps (AddPolicy_publish r srv)"
  "RemovePolicy_publish req (forget_ps srv) = map_option forget_ps (RemovePolicy_publish req srv)"
  by (simp_all add: AddPolicy_publish_def RemovePolicy_publish_def policy_broadcast_def option.map_comp comp_def)

lemma Watch_begin_forget:
  "Watch_list env scan (forget_ps srv) t = map_prod id forget_ps (Watch_list env scan srv t)"
  "Watch_register t i rows (forget_ps srv) = map_prod id forget_ps (Watch_register t i rows srv)"
  by (simp_all add: Watch_list_def Watch_register_def policy_statements_forget Let_def split: prod.splits sum.splits)

lemma Watch_step_forget:
  "Watch_step io se (forget_ps srv) = map_option (map_prod id forget_ps) (Watch_step io se srv)"
proof -
  have r: "Watch_return r se (forget_ps srv) = map_option (map_prod id forget_ps) (Watch_return r se srv)" for r se srv
    by (simp add: Watch_return_def option.map_comp comp_def)
  have s: "Watch_send io ev pc se (forget_ps srv) = map_option (map_prod id forget_ps) (Watch_send io ev pc se srv)" for ev pc se srv
    by (simp add: Watch_send_def r split: watch_io.splits)
  have h: "(forget_ps srv)\<lparr>ps_hub := h\<rparr> = forget_ps (srv\<lparr>ps_hub := h\<rparr>)" for h by simp
  show ?thesis
    unfolding Watch_step_def forget_ps_simps(2) h r s
    by (auto split: watch_pc.splits list.splits prod.splits recv_result.splits)
qed

lemma forget_p_simps [simp]:
  "cs_srv (forget_p sy) = forget_ps (cs_srv sy)" "cs_calls (forget_p sy) = cs_calls sy"
  "cs_sessions (forget_p sy) = cs_sessions sy" "cs_ever (forget_p sy) = cs_ever sy"
  "forget_p (sy\<lparr>cs_srv := srv\<rparr>) = (forget_p sy)\<lparr>cs_srv := forget_ps srv\<rparr>"
  "forget_p (sy\<lparr>cs_calls := cs\<rparr>) = (forget_p sy)\<lparr>cs_calls := cs\<rparr>"
  "forget_p (sy\<lparr>cs_sessions := ss\<rparr>) = (forget_p sy)\<lparr>cs_sessions := ss\<rparr>"
  "forget_p (sy\<lparr>cs_ever := es\<rparr>) = (forget_p sy)\<lparr>cs_ever := es\<rparr>"
  by (simp_all add: forget_p_def)

lemma conc_exec_forget: "conc_exec l (forget_p sy) = map_option forget_p (conc_exec l sy)"
proof (cases l)
  case (CAdd env uuid req)
  then show ?thesis by (auto simp: AddPolicy_commit_forget split: prod.splits sum.splits)
next
  case (CRemove env req)
  then show ?thesis by (auto simp: RemovePolicy_commit_forget split: prod.splits sum.splits bool.splits)
next
  case (CWatch env scan t)
  then show ?thesis by (auto simp: Watch_begin_forget split: prod.splits sum.splits)
next
  case (CContinue k)
  have "continue_call pc (forget_p sy') = map_option forget_p (continue_call pc sy')" for pc sy'
    by (cases pc) (auto simp: policy_publish_forget Watch_begin_forget option.map_comp comp_def split: prod.splits)
  from this [of "cs_calls sy ! k" "sy\<lparr>cs_calls := drop_nth k (cs_calls sy)\<rparr>"] show ?thesis using CContinue by simp
next
  case (CStep p io)
  then show ?thesis
    by (auto simp: Watch_step_forget option.map_comp comp_def intro!: option.map_cong split: option.splits)
qed

lemma race_free_forget [simp]: "race_free l (forget_p sy) = race_free l sy"
  by (cases l) (simp_all add: quiet_def split: option.splits)

subsection \<open>The registry alone\<close>

definition only_registry :: "Store \<Rightarrow> Store" where
  "only_registry s = s\<lparr>st_policies := [], st_audit := []\<rparr>"

definition forget_rs :: "RegistryServer \<Rightarrow> RegistryServer" where
  "forget_rs srv = srv\<lparr>rs_store := only_registry (rs_store srv)\<rparr>"

definition forget_r :: "reg_sys \<Rightarrow> reg_sys" where
  "forget_r sy = sy\<lparr>rc_srv := forget_rs (rc_srv sy)\<rparr>"

definition registry_view :: "ctl_sys \<Rightarrow> reg_sys" where
  "registry_view c = forget_r (get_registry c)"

fun registry_action :: "ctl_label \<Rightarrow> reg_label option" where
  "registry_action (CtlRegistry l) = Some l"
| "registry_action _ = None"

lemma only_registry_simps [simp]:
  "st_agents (only_registry s) = st_agents s" "st_services (only_registry s) = st_services s"
  "st_relays (only_registry s) = st_relays s"
  "only_registry (s\<lparr>st_agents := as\<rparr>) = (only_registry s)\<lparr>st_agents := as\<rparr>"
  "only_registry (s\<lparr>st_services := ss\<rparr>) = (only_registry s)\<lparr>st_services := ss\<rparr>"
  "only_registry (s\<lparr>st_relays := rs\<rparr>) = (only_registry s)\<lparr>st_relays := rs\<rparr>"
  by (simp_all add: only_registry_def)

lemma service_view_forget [simp]: "service_view (only_registry s) w = service_view s w"
  by (auto simp: service_view_def fun_eq_iff)

lemma registry_statements_forget:
  "UpsertAgent env (only_registry s) t u = map_prod id only_registry (UpsertAgent env s t u)"
  "store_RegisterService env (only_registry s) svc = map_prod id only_registry (store_RegisterService env s svc)"
  "dereg_select env scan (only_registry s) t a r = dereg_select env scan s t a r"
  "dereg_delete env (only_registry s) t a r = map_prod id only_registry (dereg_delete env s t a r)"
  "store_UpsertRelay env (only_registry s) i reg ep = map_prod id only_registry (store_UpsertRelay env s i reg ep)"
  by (simp_all add: UpsertAgent_def store_RegisterService_def dereg_select_def dereg_delete_def store_UpsertRelay_def Let_def
      split: option.splits)

lemma forget_rs_simps [simp]:
  "rs_store (forget_rs srv) = only_registry (rs_store srv)" "rs_hub (forget_rs srv) = rs_hub srv"
  "forget_rs (srv\<lparr>rs_hub := h\<rparr>) = (forget_rs srv)\<lparr>rs_hub := h\<rparr>"
  "forget_rs (srv\<lparr>rs_store := s\<rparr>) = (forget_rs srv)\<lparr>rs_store := only_registry s\<rparr>"
  by (simp_all add: forget_rs_def)

lemma registry_broadcast_forget:
  "registry_broadcast ev t (forget_rs srv) = map_option forget_rs (registry_broadcast ev t srv)"
  by (simp add: registry_broadcast_def option.map_comp comp_def)

lemma registry_Watch_forget: "registry_Watch req (forget_rs srv) = map_prod id forget_rs (registry_Watch req srv)"
  by (simp add: registry_Watch_def split: prod.splits)

lemma UpsertRelay_forget: "UpsertRelay env (forget_rs srv) req = map_prod id forget_rs (UpsertRelay env srv req)"
  by (simp add: UpsertRelay_def registry_statements_forget split: prod.splits option.splits)

lemma registry_Watch_step_forget:
  "registry_Watch_step io se (forget_rs srv) = map_option (map_prod id forget_rs) (registry_Watch_step io se srv)"
proof -
  have r: "registry_Watch_return r se (forget_rs srv) = map_option (map_prod id forget_rs) (registry_Watch_return r se srv)" for r se srv
    by (simp add: registry_Watch_return_def option.map_comp comp_def)
  have h: "(forget_rs srv)\<lparr>rs_hub := h\<rparr> = forget_rs (srv\<lparr>rs_hub := h\<rparr>)" for h by simp
  show ?thesis
    unfolding registry_Watch_step_def forget_rs_simps(2) h r
    by (auto split: reg_pc.splits prod.splits recv_result.splits reg_io.splits)
qed

lemma forget_r_simps [simp]:
  "rc_srv (forget_r sy) = forget_rs (rc_srv sy)" "rc_calls (forget_r sy) = rc_calls sy"
  "rc_sessions (forget_r sy) = rc_sessions sy" "rc_base (forget_r sy) = rc_base sy" "rc_ever (forget_r sy) = rc_ever sy"
  "forget_r (sy\<lparr>rc_srv := srv\<rparr>) = (forget_r sy)\<lparr>rc_srv := forget_rs srv\<rparr>"
  "forget_r (sy\<lparr>rc_calls := cs\<rparr>) = (forget_r sy)\<lparr>rc_calls := cs\<rparr>"
  "forget_r (sy\<lparr>rc_sessions := ss\<rparr>) = (forget_r sy)\<lparr>rc_sessions := ss\<rparr>"
  "forget_r (sy\<lparr>rc_base := bs\<rparr>) = (forget_r sy)\<lparr>rc_base := bs\<rparr>"
  "forget_r (sy\<lparr>rc_ever := es\<rparr>) = (forget_r sy)\<lparr>rc_ever := es\<rparr>"
  by (simp_all add: forget_r_def)

lemma rcontinue_forget: "rcontinue env q (forget_r sy) = map_option forget_r (rcontinue env q sy)"
  by (cases "(env, q, sy)" rule: rcontinue.cases)
    (auto simp: registry_statements_forget registry_broadcast_forget option.map_comp comp_def
      split: prod.splits sum.splits option.splits)

lemma reg_conc_exec_forget: "reg_conc_exec l (forget_r sy) = map_option forget_r (reg_conc_exec l sy)"
proof (cases l)
  case (RRegister env req)
  then show ?thesis by (auto simp: registry_statements_forget split: prod.splits option.splits)
next
  case (RDeregister env scan req)
  then show ?thesis by (auto simp: registry_statements_forget split: sum.splits)
next
  case (RRelay env req)
  then show ?thesis by (simp add: UpsertRelay_forget)
next
  case (RWatch req)
  then show ?thesis by (auto simp: registry_Watch_forget split: prod.splits)
next
  case (RContinue k env)
  then show ?thesis using rcontinue_forget [of env "rc_calls sy ! k" "sy\<lparr>rc_calls := drop_nth k (rc_calls sy)\<rparr>"] by simp
next
  case (RStep p io)
  then show ?thesis
    by (auto simp: registry_Watch_step_forget option.map_comp comp_def intro!: option.map_cong split: option.splits)
qed

lemma reg_race_free_forget [simp]: "reg_race_free l (forget_r sy) = reg_race_free l sy"
  by (cases l) simp_all

subsection \<open>What the services do to the shared store\<close>

lemma Watch_step_store:
  "Watch_step io se srv = Some (se', srv') \<Longrightarrow> ps_store srv' = ps_store srv"
  "registry_Watch_step rio rse rsrv = Some (rse', rsrv') \<Longrightarrow> rs_store rsrv' = rs_store rsrv"
  by (auto simp: Watch_step_def Watch_send_def Watch_return_def registry_Watch_step_def registry_Watch_return_def
      split: watch_pc.splits list.splits prod.splits recv_result.splits watch_io.splits reg_pc.splits reg_io.splits if_splits)

lemma conc_exec_store:
  assumes "conc_exec l sy = Some sy'"
  shows "\<exists>ps. ps_store (cs_srv sy') = (ps_store (cs_srv sy))\<lparr>st_policies := ps\<rparr>"
proof -
  have same: "\<exists>ps. s = s\<lparr>st_policies := ps\<rparr>" for s :: Store by (intro exI [of _ "st_policies s"]) simp
  show ?thesis
  proof (cases l)
    case (CAdd env uuid req)
    obtain r srv where c: "AddPolicy_commit env uuid (cs_srv sy) req = (r, srv)" by fastforce
    then show ?thesis using assms CAdd policy_commit_frame(1) [OF c] by (auto split: sum.splits)
  next
    case (CRemove env req)
    obtain r srv where c: "RemovePolicy_commit env (cs_srv sy) req = (r, srv)" by fastforce
    then show ?thesis using assms CRemove policy_commit_frame(2) [OF c] by (auto split: sum.splits bool.splits)
  next
    case (CWatch env scan t)
    then show ?thesis using assms same by (auto simp: Watch_list_def Let_def split: prod.splits sum.splits)
  next
    case (CContinue k)
    then have "ps_store (cs_srv sy') = ps_store (cs_srv sy)"
      using assms continue_store [of k sy sy'] by (cases "k < length (cs_calls sy)") auto
    then show ?thesis using same by simp
  next
    case (CStep p io)
    then have "ps_store (cs_srv sy') = ps_store (cs_srv sy)" using assms by (auto dest: Watch_step_store split: option.splits)
    then show ?thesis using same by simp
  qed
qed

lemma registry_statements_frame:
  "UpsertAgent env s t u = (e, s') \<Longrightarrow> st_policies s' = st_policies s \<and> st_audit s' = st_audit s"
  "store_RegisterService env s svc = (x, s') \<Longrightarrow> st_policies s' = st_policies s \<and> st_audit s' = st_audit s"
  "dereg_delete env s t a r = (d, s') \<Longrightarrow> st_policies s' = st_policies s \<and> st_audit s' = st_audit s"
  "store_UpsertRelay env s i reg ep = (e, s') \<Longrightarrow> st_policies s' = st_policies s \<and> st_audit s' = st_audit s"
  by (auto simp: UpsertAgent_def store_RegisterService_def dereg_delete_def store_UpsertRelay_def Let_def
      split: option.splits if_splits)

lemma reg_conc_exec_store:
  assumes "reg_conc_exec l sy = Some sy'"
  shows "st_policies (rs_store (rc_srv sy')) = st_policies (rs_store (rc_srv sy)) \<and>
         st_audit (rs_store (rc_srv sy')) = st_audit (rs_store (rc_srv sy))"
proof (cases l)
  case (RRegister env req)
  then show ?thesis using assms by (auto dest!: registry_statements_frame split: prod.splits option.splits if_splits)
next
  case (RDeregister env scan req)
  then show ?thesis using assms by (auto split: sum.splits)
next
  case (RRelay env req)
  then show ?thesis using assms
    by (auto simp: UpsertRelay_def dest!: registry_statements_frame split: prod.splits option.splits)
next
  case (RWatch req)
  then show ?thesis using assms by (auto simp: registry_Watch_def split: prod.splits)
next
  case (RContinue k env)
  have "st_policies (rs_store (rc_srv sy2)) = st_policies (rs_store (rc_srv sy1)) \<and>
      st_audit (rs_store (rc_srv sy2)) = st_audit (rs_store (rc_srv sy1))" if "rcontinue env q sy1 = Some sy2" for q sy1 sy2
    using that by (cases "(env, q, sy1)" rule: rcontinue.cases)
      (auto simp: registry_broadcast_def dest!: registry_statements_frame split: prod.splits sum.splits option.splits)
  from this [of "rc_calls sy ! k" "sy\<lparr>rc_calls := drop_nth k (rc_calls sy)\<rparr>" sy'] show ?thesis
    using assms RContinue by (auto split: if_splits)
next
  case (RStep p io)
  then show ?thesis using assms by (auto dest: Watch_step_store split: option.splits)
qed

lemma audit_frame:
  assumes "Record_commit env srv req = (e, srv')"
  shows "\<exists>rows. as_store srv' = (as_store srv)\<lparr>st_audit := rows\<rparr>" and "as_reg srv' = as_reg srv" and "as_eventsCnt srv' = as_eventsCnt srv"
proof -
  have same: "\<exists>rows. s = s\<lparr>st_audit := rows\<rparr>" for s :: Store by (intro exI [of _ "st_audit s"]) simp
  show "\<exists>rows. as_store srv' = (as_store srv)\<lparr>st_audit := rows\<rparr>" "as_reg srv' = as_reg srv" "as_eventsCnt srv' = as_eventsCnt srv"
    using assms same by (auto simp: Record_commit_def RecordAudit_def Let_def split: option.splits)
qed

lemma Record_count_frame [simp]: "as_store (Record_count srv) = as_store srv" "as_eventsCnt (Record_count srv) = as_eventsCnt srv"
  by (simp_all add: Record_count_def split: option.splits)

lemma only_frame [simp]:
  "only_policies (s\<lparr>st_audit := rows\<rparr>) = only_policies s" "only_registry (s\<lparr>st_audit := rows\<rparr>) = only_registry s"
  "only_registry (s\<lparr>st_policies := ps\<rparr>) = only_registry s"
  by (simp_all add: only_policies_def only_registry_def)

text \<open>An action of the audit service.\<close>

lemma audit_action:
  assumes "ctl_exec l c = Some c'" and "policy_action l = None" and "registry_action l = None"
  shows "policy_view c' = policy_view c" and "registry_view c' = registry_view c"
proof -
  have "\<exists>rows. ct_store (cc_ct c') = (ct_store (cc_ct c))\<lparr>st_audit := rows\<rparr>" and
    f: "ct_policy (cc_ct c') = ct_policy (cc_ct c)" "ct_registry (cc_ct c') = ct_registry (cc_ct c)"
      "cc_pcalls c' = cc_pcalls c" "cc_psessions c' = cc_psessions c" "cc_pever c' = cc_pever c"
      "cc_rcalls c' = cc_rcalls c" "cc_rsessions c' = cc_rsessions c" "cc_rbase c' = cc_rbase c" "cc_rever c' = cc_rever c"
  proof -
    have same: "\<exists>rows. s = s\<lparr>st_audit := rows\<rparr>" for s :: Store by (intro exI [of _ "st_audit s"]) simp
    show "\<exists>rows. ct_store (cc_ct c') = (ct_store (cc_ct c))\<lparr>st_audit := rows\<rparr>"
    proof (cases l)
      case (CtlRecord env req)
      obtain e srv where r: "Record_commit env (audit_of (cc_ct c)) req = (e, srv)" by fastforce
      then show ?thesis using assms(1) CtlRecord audit_frame(1) [OF r]
        by (auto simp: with_audit_def audit_of_def split: option.splits)
    next
      case CtlCount
      then show ?thesis using assms(1) same by (auto simp: with_audit_def audit_of_def split: nat.splits)
    qed (use assms in auto)
    show "ct_policy (cc_ct c') = ct_policy (cc_ct c)" "ct_registry (cc_ct c') = ct_registry (cc_ct c)"
      "cc_pcalls c' = cc_pcalls c" "cc_psessions c' = cc_psessions c" "cc_pever c' = cc_pever c"
      "cc_rcalls c' = cc_rcalls c" "cc_rsessions c' = cc_rsessions c" "cc_rbase c' = cc_rbase c" "cc_rever c' = cc_rever c"
      using assms by (cases l; force simp: with_audit_def split: option.splits nat.splits prod.splits)+
  qed
  then show "policy_view c' = policy_view c" "registry_view c' = registry_view c"
    by (auto simp: policy_view_def registry_view_def get_policy_def get_registry_def policy_of_def registry_of_def
        forget_p_def forget_ps_def forget_r_def forget_rs_def)
qed

lemma registry_step_policy_view:
  assumes "reg_conc_exec l (get_registry c) = Some sy"
  shows "policy_view (put_registry c sy) = policy_view c"
proof -
  have "only_policies (rs_store (rc_srv sy)) = only_policies (ct_store (cc_ct c))"
    using reg_conc_exec_store [OF assms] by (simp add: only_policies_def get_registry_def registry_of_def)
  then show ?thesis
    by (simp add: policy_view_def get_policy_def put_registry_def policy_of_def with_registry_def forget_p_def forget_ps_def)
qed

lemma policy_step_registry_view:
  assumes "conc_exec l (get_policy c) = Some sy"
  shows "registry_view (put_policy c sy) = registry_view c"
proof -
  obtain ps where "ps_store (cs_srv sy) = (ct_store (cc_ct c))\<lparr>st_policies := ps\<rparr>"
    using conc_exec_store [OF assms] by (auto simp: get_policy_def policy_of_def)
  then show ?thesis
    by (simp add: registry_view_def get_registry_def put_policy_def registry_of_def with_policy_def forget_r_def forget_rs_def)
qed

interpretation policy_part:
  refinement_map ctl_exec conc_exec policy_view policy_action "\<lambda>l sy. conc_label_ok l \<and> allowed l sy" "conc_reach allowed" for allowed
proof
  fix l m c assume "policy_action l = Some m"
  then have "l = CtlPolicy m" by (cases l) simp_all
  then show "conc_exec m (policy_view c) = map_option policy_view (ctl_exec l c)"
    by (simp add: policy_view_def conc_exec_forget option.map_comp comp_def)
next
  fix l c c' assume a: "policy_action l = None" "ctl_exec l c = Some c'"
  show "policy_view c' = policy_view c"
  proof (cases "registry_action l")
    case None
    then show ?thesis using audit_action(1) [OF a(2,1)] by blast
  next
    case (Some m)
    then have "l = CtlRegistry m" by (cases l) simp_all
    then show ?thesis using a(2) registry_step_policy_view by auto
  qed
qed (auto intro: conc_reach_step)

interpretation registry_part:
  refinement_map ctl_exec reg_conc_exec registry_view registry_action "\<lambda>l sy. reg_label_ok l \<and> allowed l sy" "reg_conc_reach allowed" for allowed
proof
  fix l m c assume "registry_action l = Some m"
  then have "l = CtlRegistry m" by (cases l) simp_all
  then show "reg_conc_exec m (registry_view c) = map_option registry_view (ctl_exec l c)"
    by (simp add: registry_view_def reg_conc_exec_forget option.map_comp comp_def)
next
  fix l c c' assume a: "registry_action l = None" "ctl_exec l c = Some c'"
  show "registry_view c' = registry_view c"
  proof (cases "policy_action l")
    case None
    then show ?thesis using audit_action(2) [OF a(2) None a(1)] by blast
  next
    case (Some m)
    then have "l = CtlPolicy m" by (cases l) simp_all
    then show ?thesis using a(2) policy_step_registry_view by auto
  qed
qed (auto intro: reg_conc_reach_step)

subsection \<open>Reachable states\<close>

definition forgets_p :: "(conc_label \<Rightarrow> conc_sys \<Rightarrow> bool) \<Rightarrow> bool" where
  "forgets_p pa \<longleftrightarrow> (\<forall>l sy. pa l sy \<longrightarrow> pa l (forget_p sy))"

definition forgets_r :: "(reg_label \<Rightarrow> reg_sys \<Rightarrow> bool) \<Rightarrow> bool" where
  "forgets_r ra \<longleftrightarrow> (\<forall>l sy. ra l sy \<longrightarrow> ra l (forget_r sy))"

lemma forgets [simp]: "forgets_p any_schedule" "forgets_p race_free" "forgets_r any_reg_schedule" "forgets_r reg_race_free"
  by (simp_all add: forgets_p_def forgets_r_def)

lemma ctl_reach_policy:
  assumes "ctl_reach pa ra c" and "forgets_p pa"
  shows "conc_reach pa (policy_view c)"
  using assms(1)
proof induction
  case (ctl_reach_init s)
  have "policy_view (ctl_init s) = conc_init (only_policies s)"
    by (simp add: policy_view_def ctl_init_def get_policy_def policy_of_def controller_New_def Let_def policy_New_def
        forget_p_def forget_ps_def conc_init_def)
  moreover have "store_wf (only_policies s)" using ctl_reach_init by (simp add: store_wf_def only_policies_def empty_store_def)
  ultimately show ?case by (simp add: conc_reach_init)
next
  case (ctl_reach_step c l c')
  have "conc_label_ok m \<and> pa m (policy_view c)" if "policy_action l = Some m" for m
    using that ctl_reach_step.hyps(2) assms(2) by (cases l) (auto simp: policy_view_def forgets_p_def)
  then show ?case using policy_part.reach_step [OF ctl_reach_step.IH _ ctl_reach_step.hyps(3)] by blast
qed

lemma ctl_reach_registry:
  assumes "ctl_reach pa ra c" and "forgets_r ra"
  shows "reg_conc_reach ra (registry_view c)"
  using assms(1)
proof induction
  case (ctl_reach_init s)
  have "registry_view (ctl_init s) = reg_conc_init (only_registry s)"
    by (simp add: registry_view_def ctl_init_def get_registry_def registry_of_def controller_New_def Let_def registry_New_def
        forget_r_def forget_rs_def reg_conc_init_def)
  moreover have "store_wf (only_registry s)" "canonical_ids (only_registry s)"
    using ctl_reach_init by (simp_all add: store_wf_def canonical_ids_def only_registry_def)
  ultimately show ?case by (simp add: reg_conc_reach_init)
next
  case (ctl_reach_step c l c')
  have "reg_label_ok m \<and> ra m (registry_view c)" if "registry_action l = Some m" for m
    using that ctl_reach_step.hyps(2) assms(2) by (cases l) (auto simp: registry_view_def forgets_r_def)
  then show ?case using registry_part.reach_step [OF ctl_reach_step.IH _ ctl_reach_step.hyps(3)] by blast
qed

lemma ctl_reach_ok:
  assumes "ctl_reach pa ra c" and "forgets_p pa" and "forgets_r ra"
  shows "controller_ok (cc_ct c)"
proof -
  have p: "server_ok (cs_srv (policy_view c))"
    using conc_reach_ok [OF ctl_reach_policy [OF assms(1,2)]] by (simp add: conc_ok_def)
  have r: "reg_ok (rc_srv (registry_view c))"
    using reg_conc_reach_ok [OF ctl_reach_registry [OF assms(1,3)]] by (simp add: reg_conc_ok_def)
  from p r show ?thesis
    by (simp add: controller_ok_def server_ok_def reg_ok_def store_wf_def canonical_ids_def policy_view_def registry_view_def
        get_policy_def get_registry_def policy_of_def registry_of_def)
qed

lemma ctl_exec_defined:
  assumes "ctl_reach pa ra c" and "forgets_p pa" and "forgets_r ra"
  shows "\<exists>c'. ctl_exec l c = Some c'"
proof (cases l)
  case (CtlPolicy m)
  have "\<exists>sy. conc_exec m (policy_view c) = Some sy"
    using conc_exec_steps [OF conc_reach_ok [OF ctl_reach_policy [OF assms(1,2)]], of m] by blast
  then show ?thesis using policy_part.step_defined [of l m c] CtlPolicy by auto
next
  case (CtlRegistry m)
  have "\<exists>sy. reg_conc_exec m (registry_view c) = Some sy"
    using reg_conc_exec_steps [OF reg_conc_reach_ok [OF ctl_reach_registry [OF assms(1,3)]], of m] by blast
  then show ?thesis using registry_part.step_defined [of l m c] CtlRegistry by auto
qed (auto split: prod.splits option.splits nat.splits)

subsection \<open>The audit counter\<close>

definition ctl_counts :: "ctl_sys \<Rightarrow> bool" where
  "ctl_counts c \<longleftrightarrow> counts_audit (cc_rows0 c + cc_records c) (cc_ct c)"

lemma counts_audit_cong:
  "st_audit (ct_store ct') = st_audit (ct_store ct) \<Longrightarrow> ct_metrics ct' = ct_metrics ct \<Longrightarrow> ct_eventsCnt ct' = ct_eventsCnt ct
     \<Longrightarrow> counts_audit n ct' = counts_audit n ct"
  by (simp add: counts_audit_def audit_of_def counter_at_def)

lemma service_step_counts:
  assumes "ctl_counts c"
  shows "conc_exec l (get_policy c) = Some sy \<Longrightarrow> ctl_counts (put_policy c sy)"
    and "reg_conc_exec m (get_registry c) = Some rsy \<Longrightarrow> ctl_counts (put_registry c rsy)"
proof -
  show "ctl_counts (put_policy c sy)" if e: "conc_exec l (get_policy c) = Some sy"
  proof -
    obtain ps where "ps_store (cs_srv sy) = (ct_store (cc_ct c))\<lparr>st_policies := ps\<rparr>"
      using conc_exec_store [OF e] by (auto simp: get_policy_def policy_of_def)
    then have "counts_audit n (with_policy (cc_ct c) (cs_srv sy)) = counts_audit n (cc_ct c)" for n
      by (intro counts_audit_cong) (simp_all add: with_policy_def)
    then show ?thesis using assms by (simp add: ctl_counts_def put_policy_def)
  qed
  show "ctl_counts (put_registry c rsy)" if e: "reg_conc_exec m (get_registry c) = Some rsy"
  proof -
    have "st_audit (rs_store (rc_srv rsy)) = st_audit (ct_store (cc_ct c))"
      using reg_conc_exec_store [OF e] by (simp add: get_registry_def registry_of_def)
    then have "counts_audit n (with_registry (cc_ct c) (rc_srv rsy)) = counts_audit n (cc_ct c)" for n
      by (intro counts_audit_cong) (simp_all add: with_registry_def)
    then show ?thesis using assms by (simp add: ctl_counts_def put_registry_def)
  qed
qed

lemma record_counts:
  assumes "counts_audit n ct" and "Record_commit env (audit_of ct) req = (e, srv)"
  shows "counts_audit (if e = None then n + 1 else n) (with_audit ct srv)"
proof -
  note fr = audit_frame [OF assms(2)]
  have rows: "\<exists>row. st_audit (as_store srv) = (if e = None then st_audit (ct_store ct) @ [row] else st_audit (ct_store ct))"
    using assms(2) by (auto simp: Record_commit_def RecordAudit_def audit_of_def Let_def split: option.splits)
  show ?thesis using assms(1) rows fr(2,3)
    by (auto simp: counts_audit_def with_audit_def audit_of_def counter_at_def split: if_splits)
qed

lemma count_counts:
  assumes "counts_audit (Suc n) ct"
  shows "counts_audit n (with_audit ct (Record_count (audit_of ct)))"
proof -
  let ?rows = "length (st_audit (ct_store ct))"
  obtain p where p: "ct_eventsCnt ct = Some p" "pool_names (reg_c (ct_metrics ct)) = [(''audit_events_total'', p)]"
    and n: "Suc n \<le> ?rows" and v: "counter_at (audit_of ct) = Some (i64 (int (?rows - Suc n)))"
    using assms by (auto simp: counts_audit_def)
  have "i64 (i64 (int (?rows - Suc n)) + 1) = i64 (int (?rows - n))"
    using n i64_of_nat_Suc [of "?rows - Suc n"] by (simp add: Suc_diff_Suc)
  then show ?thesis using p n v
    by (auto simp: counts_audit_def with_audit_def audit_of_def counter_at_def Record_count_def pool_update_def
        Counter_Inc_def Counter_Add_def)
qed

lemma ctl_reach_counts: "ctl_reach pa ra c \<Longrightarrow> ctl_counts c"
proof (induction rule: ctl_reach.induct)
  case (ctl_reach_init s)
  then show ?case using counts_audit_New by (simp add: ctl_counts_def ctl_init_def)
next
  case (ctl_reach_step c l c')
  show ?case
  proof (cases l)
    case (CtlPolicy m)
    then show ?thesis using ctl_reach_step service_step_counts(1) [OF ctl_reach_step.IH] by auto
  next
    case (CtlRegistry m)
    then show ?thesis using ctl_reach_step service_step_counts(2) [OF ctl_reach_step.IH] by auto
  next
    case (CtlRecord env req)
    obtain e srv where r: "Record_commit env (audit_of (cc_ct c)) req = (e, srv)" by fastforce
    show ?thesis using record_counts [OF _ r, of "cc_rows0 c + cc_records c"] ctl_reach_step.IH ctl_reach_step.hyps(3) CtlRecord r
      by (auto simp: ctl_counts_def split: option.splits)
  next
    case CtlCount
    then show ?thesis
      using count_counts [of "cc_rows0 c + n" "cc_ct c" for n] ctl_reach_step.IH ctl_reach_step.hyps(3)
      by (cases "cc_records c") (auto simp: ctl_counts_def)
  qed
qed

subsection \<open>Tenants\<close>

fun pending_tenant :: "rpending \<Rightarrow> string" where
  "pending_tenant (QInsert req) = rsr_Tenant req"
| "pending_tenant (QAnnounce i req) = rsr_Tenant req"
| "pending_tenant (QDelete req removed) = dar_Tenant req"
| "pending_tenant (QWithdraw t removed) = t"

text \<open>The tenant an action is made for; None if its call writes no tenant's data.\<close>

fun action_tenant :: "ctl_label \<Rightarrow> ctl_sys \<Rightarrow> string option" where
  "action_tenant (CtlPolicy (CAdd env uuid req)) c = map_option pr_Tenant (apr_Rule req)"
| "action_tenant (CtlPolicy (CRemove env req)) c = Some (rpr_Tenant req)"
| "action_tenant (CtlPolicy _) c = None"
| "action_tenant (CtlRegistry (RRegister env req)) c = Some (rsr_Tenant req)"
| "action_tenant (CtlRegistry (RDeregister env scan req)) c = Some (dar_Tenant req)"
| "action_tenant (CtlRegistry (RContinue k env)) c =
     (if k < length (cc_rcalls c) then Some (pending_tenant (cc_rcalls c ! k)) else None)"
| "action_tenant (CtlRegistry _) c = None"
| "action_tenant (CtlRecord env req) c = map_option ae_Tenant (rar_Event req)"
| "action_tenant CtlCount c = None"

lemma policy_step_view:
  assumes "conc_exec l sy = Some sy'" and "store_wf (ps_store (cs_srv sy))"
    and "\<And>env uuid req. l = CAdd env uuid req \<Longrightarrow> map_option pr_Tenant (apr_Rule req) \<noteq> Some t"
    and "\<And>env req. l = CRemove env req \<Longrightarrow> rpr_Tenant req \<noteq> t"
  shows "tenant_view (ps_store (cs_srv sy')) t = tenant_view (ps_store (cs_srv sy)) t"
proof (cases l)
  case (CAdd env uuid req)
  obtain r srv where c: "AddPolicy_commit env uuid (cs_srv sy) req = (r, srv)" by fastforce
  have "cs_srv sy' = srv" using assms(1) CAdd c by (auto split: sum.splits)
  then show ?thesis using AddPolicy_commit_view [OF assms(2) c] assms(3) CAdd by simp
next
  case (CRemove env req)
  obtain r srv where c: "RemovePolicy_commit env (cs_srv sy) req = (r, srv)" by fastforce
  have "cs_srv sy' = srv" using assms(1) CRemove c by (auto split: sum.splits bool.splits)
  then show ?thesis using RemovePolicy_commit_view [OF assms(2) c] assms(4) CRemove by simp
next
  case (CWatch env scan t)
  then show ?thesis using assms(1) by (auto simp: Watch_list_def Let_def split: prod.splits sum.splits)
next
  case (CContinue k)
  then show ?thesis using assms(1) continue_store [of k sy sy'] by (cases "k < length (cs_calls sy)") auto
next
  case (CStep p io)
  then show ?thesis using assms(1) by (auto dest: Watch_step_store split: option.splits)
qed

lemma dereg_delete_view:
  assumes "dereg_delete env s tenant a r = (e, s')" and "store_wf s" and "tenant \<noteq> t"
  shows "tenant_view s' t = tenant_view s t"
proof (rule tenant_view_cong)
  show "table_lookup sv_key (t, n) (st_services s') = table_lookup sv_key (t, n) (st_services s)" for n
    using assms(1,3) removed_lookup [OF assms(2), of t n tenant a r] by (auto simp: dereg_delete_def split: option.splits)
qed (use assms(1) in \<open>auto simp: dereg_delete_def split: option.splits\<close>)

lemma rcontinue_view:
  assumes "rcontinue env q sy = Some sy'" and "store_wf (rs_store (rc_srv sy))" and "pending_tenant q \<noteq> t"
  shows "tenant_view (rs_store (rc_srv sy')) t = tenant_view (rs_store (rc_srv sy)) t"
proof (cases "(env, q, sy)" rule: rcontinue.cases)
  case (1 env req sy)
  obtain x s where g: "store_RegisterService env (rs_store (rc_srv sy)) (requested_service req) = (x, s)" by fastforce
  have "rs_store (rc_srv sy') = s" using assms(1) 1 g by (auto split: sum.splits)
  then show ?thesis using register_view [of "requested_service req" t env "rs_store (rc_srv sy)"] g assms(3) 1 by simp
next
  case (3 env req removed sy)
  obtain e s where d: "dereg_delete env (rs_store (rc_srv sy)) (dar_Tenant req) (dar_AgentUri req) (dar_RelayId req) = (e, s)" by fastforce
  have "rs_store (rc_srv sy') = s" using assms(1) 3 d by (auto split: option.splits)
  then show ?thesis using dereg_delete_view [OF d] assms(2,3) 3 by simp
qed (use assms(1) in \<open>auto simp: registry_broadcast_def\<close>)

lemma registry_step_view:
  assumes "reg_conc_exec l sy = Some sy'" and "store_wf (rs_store (rc_srv sy))"
    and "\<And>k env. l = RContinue k env \<Longrightarrow> k < length (rc_calls sy) \<Longrightarrow> pending_tenant (rc_calls sy ! k) \<noteq> t"
  shows "tenant_view (rs_store (rc_srv sy')) t = tenant_view (rs_store (rc_srv sy)) t"
proof (cases l)
  case (RRegister env req)
  then have "rs_store (rc_srv sy') \<in> {rs_store (rc_srv sy), snd (UpsertAgent env (rs_store (rc_srv sy)) (rsr_Tenant req) (rsr_AgentUri req))}"
    using assms(1) by (auto split: prod.splits option.splits if_splits)
  then show ?thesis using UpsertAgent_view by auto
next
  case (RDeregister env scan req)
  then show ?thesis using assms(1) by (auto split: sum.splits)
next
  case (RRelay env req)
  then show ?thesis using assms(1)
    by (intro tenant_view_cong) (auto simp: UpsertRelay_def store_UpsertRelay_def split: option.splits)
next
  case (RWatch req)
  then show ?thesis using assms(1) by (auto simp: registry_Watch_def split: prod.splits)
next
  case (RContinue k env)
  then show ?thesis
    using assms rcontinue_view [of env "rc_calls sy ! k" "sy\<lparr>rc_calls := drop_nth k (rc_calls sy)\<rparr>" sy' t]
    by (cases "k < length (rc_calls sy)") auto
next
  case (RStep p io)
  then show ?thesis using assms(1) by (auto dest: Watch_step_store split: option.splits)
qed

lemma record_commit_view:
  assumes "Record_commit env srv req = (e, srv')" and "map_option ae_Tenant (rar_Event req) \<noteq> Some t"
  shows "tenant_view (as_store srv') t = tenant_view (as_store srv) t"
  using assms
  by (auto simp: Record_commit_def RecordAudit_def Let_def audit_row_of_def tenant_view_def tenant_rules_def split: option.splits)

lemma ctl_exec_view:
  assumes "controller_ok (cc_ct c)" and "ctl_exec l c = Some c'" and "action_tenant l c \<noteq> Some t"
  shows "tenant_view (ct_store (cc_ct c')) t = tenant_view (ct_store (cc_ct c)) t"
proof -
  have wf: "store_wf (ct_store (cc_ct c))" using assms(1) by (simp add: controller_ok_def)
  show ?thesis
  proof (cases l)
    case (CtlPolicy m)
    then obtain sy where sy: "conc_exec m (get_policy c) = Some sy" "ct_store (cc_ct c') = ps_store (cs_srv sy)"
      using assms(2) by (auto simp: put_policy_def with_policy_def)
    have s0: "ps_store (cs_srv (get_policy c)) = ct_store (cc_ct c)" by (simp add: get_policy_def policy_of_def)
    show ?thesis using policy_step_view [OF sy(1), of t] assms(3) CtlPolicy wf by (cases m) (simp_all add: s0 sy(2))
  next
    case (CtlRegistry m)
    then obtain sy where sy: "reg_conc_exec m (get_registry c) = Some sy" "ct_store (cc_ct c') = rs_store (rc_srv sy)"
      using assms(2) by (auto simp: put_registry_def with_registry_def)
    have s0: "rs_store (rc_srv (get_registry c)) = ct_store (cc_ct c)" "rc_calls (get_registry c) = cc_rcalls c"
      by (simp_all add: get_registry_def registry_of_def)
    show ?thesis unfolding sy(2) s0(1) [symmetric]
      by (rule registry_step_view [OF sy(1)]) (use wf s0 assms(3) CtlRegistry in auto)
  next
    case (CtlRecord env req)
    obtain e srv where r: "Record_commit env (audit_of (cc_ct c)) req = (e, srv)" by fastforce
    have "ct_store (cc_ct c') = as_store srv" using assms(2) CtlRecord r by (auto simp: with_audit_def split: option.splits)
    then show ?thesis using record_commit_view [OF r, of t] assms(3) CtlRecord by (simp add: audit_of_def)
  next
    case CtlCount
    then show ?thesis using assms(2) by (auto simp: with_audit_def audit_of_def split: nat.splits)
  qed
qed

subsection \<open>Properties\<close>

primrec ctl_run :: "ctl_label list \<Rightarrow> ctl_sys \<Rightarrow> ctl_sys option" where
  "ctl_run [] c = Some c"
| "ctl_run (l # ls) c = (case ctl_exec l c of None \<Rightarrow> None | Some c' \<Rightarrow> ctl_run ls c')"

primrec ctl_run_allowed ::
  "(conc_label \<Rightarrow> conc_sys \<Rightarrow> bool) \<Rightarrow> (reg_label \<Rightarrow> reg_sys \<Rightarrow> bool) \<Rightarrow> ctl_label list \<Rightarrow> ctl_sys \<Rightarrow> bool" where
  "ctl_run_allowed pa ra [] c \<longleftrightarrow> True"
| "ctl_run_allowed pa ra (l # ls) c \<longleftrightarrow> ctl_allowed pa ra l c \<and>
     (case ctl_exec l c of None \<Rightarrow> True | Some c' \<Rightarrow> ctl_run_allowed pa ra ls c')"

lemma ctl_reach_run:
  "ctl_reach pa ra c \<Longrightarrow> ctl_run_allowed pa ra ls c \<Longrightarrow> ctl_run ls c = Some c' \<Longrightarrow> ctl_reach pa ra c'"
  by (induction ls arbitrary: c) (auto intro: ctl_reach_step split: option.splits)

lemma ctl_reach_mono:
  assumes "ctl_reach pa ra c" and "\<And>l sy. pa l sy \<Longrightarrow> pa' l sy" and "\<And>l sy. ra l sy \<Longrightarrow> ra' l sy"
  shows "ctl_reach pa' ra' c"
  using assms(1)
proof induction
  case (ctl_reach_step c l c')
  then have "ctl_allowed pa' ra' l c" using assms(2,3) by (cases l) auto
  then show ?case using ctl_reach_step ctl_reach.ctl_reach_step by blast
qed (rule ctl_reach.ctl_reach_init)

text \<open>A schedule of calls of all three services, in which two announcements overtake two others.\<close>

definition busy :: "ctl_label list" where
  "busy = [CtlPolicy (CWatch (ok_env 1) id ''acme''), CtlRegistry (RWatch \<lparr>wr_Tenant = ''acme'', wr_ServiceNames = []\<rparr>),
     CtlPolicy (CContinue 0), CtlPolicy (CStep 0 SendOK),
     CtlPolicy (CAdd (ok_env 2) ''u'' \<lparr>apr_Rule = Some demo_rule\<rparr>), CtlRegistry (RRegister (ok_env 1) demo_req),
     CtlRecord (ok_env 3) \<lparr>rar_Event = Some demo_event\<rparr>,
     CtlPolicy (CAdd (ok_env 3) ''u'' \<lparr>apr_Rule = Some (demo_rule\<lparr>pr_Id := ''p2''\<rparr>)\<rparr>), CtlRegistry (RContinue 0 (ok_env 2)),
     CtlRegistry (RRegister (ok_env 3) (demo_req\<lparr>rsr_ServiceName := ''shop''\<rparr>)), CtlRegistry (RContinue 1 (ok_env 4)),
     CtlCount, CtlRecord (ok_env 5) \<lparr>rar_Event = Some demo_event\<rparr>,
     CtlPolicy (CContinue 1), CtlRegistry (RContinue 1 (ok_env 5)), CtlPolicy (CStep 0 SendOK), CtlRegistry (RStep 0 RSendOK)]"

lemmas ctl_eval =
  conc_eval reg_eval busy_def ctl_init_def controller_New_def audit_New_def get_policy_def put_policy_def policy_of_def with_policy_def
  get_registry_def put_registry_def registry_of_def with_registry_def audit_of_def with_audit_def
  Record_commit_def Record_count_def RecordAudit_def demo_event_def

lemma busy_state:
  "\<exists>c pse rse. ctl_run busy (ctl_init empty_store) = Some c \<and>
     cc_psessions c 0 = Some pse \<and> se_pc pse = WLive \<and> se_tenant pse = ''acme'' \<and> hub_live (ct_policy (cc_ct c)) 0 \<and>
     hub_pending (ct_policy (cc_ct c)) 0 = [] \<and> se_sent pse = [snapshot_end, added_event (demo_rule\<lparr>pr_Id := ''p2''\<rparr>)] \<and>
     cc_pcalls c = [PAdd demo_rule] \<and>
     cc_rsessions c 0 = Some rse \<and> hub_cfg (ct_registry (cc_ct c)) 0 = Some demo_watcher \<and> hub_live (ct_registry (cc_ct c)) 0 \<and>
     hub_pending (ct_registry (cc_ct c)) 0 = [] \<and>
     rg_sent rse = [register_event ''acme/shop'' (demo_req\<lparr>rsr_ServiceName := ''shop''\<rparr>)] \<and>
     cc_rcalls c = [QAnnounce ''acme/pay'' demo_req] \<and> cc_rbase c 0 = (\<lambda>_. None) \<and>
     cc_records c = 1 \<and> cc_rows0 c = 0 \<and> length (st_audit (ct_store (cc_ct c))) = 2"
  by (simp add: ctl_eval hub_live_def hub_pending_def hub_cfg_def demo_watcher_def service_view_def table_lookup_def fun_eq_iff
      Registry_Counter_def NewRegistry_def new_pool_def pool_find_def counter_under_lock_def pool_ensure_def)

lemma busy_race_free: "ctl_run_allowed race_free reg_race_free busy (ctl_init empty_store)"
  by (simp add: ctl_eval is_scan_def reg_quiet_def Registry_Counter_def NewRegistry_def new_pool_def pool_find_def
      counter_under_lock_def pool_ensure_def)

lemma ctl_reach_busy:
  assumes "ctl_run busy (ctl_init empty_store) = Some c"
  shows "ctl_reach race_free reg_race_free c"
  by (rule ctl_reach_run [OF ctl_reach_init busy_race_free assms]) (simp_all add: store_wf_def canonical_ids_def empty_store_def)

lemma ctl_reach_any: "ctl_reach pa ra c \<Longrightarrow> ctl_reach any_schedule any_reg_schedule c"
  by (rule ctl_reach_mono) simp_all

lemma view_simps:
  "cs_sessions (policy_view c) = cc_psessions c" "cs_calls (policy_view c) = cc_pcalls c" "cs_ever (policy_view c) = cc_pever c"
  "ps_hub (cs_srv (policy_view c)) = ct_policy (cc_ct c)"
  "tenant_rules (ps_store (cs_srv (policy_view c))) = tenant_rules (ct_store (cc_ct c))"
  "rc_sessions (registry_view c) = cc_rsessions c" "rc_calls (registry_view c) = cc_rcalls c" "rc_base (registry_view c) = cc_rbase c"
  "rc_ever (registry_view c) = cc_rever c" "rs_hub (rc_srv (registry_view c)) = ct_registry (cc_ct c)"
  "service_view (rs_store (rc_srv (registry_view c))) w = service_view (ct_store (cc_ct c)) w"
  by (simp_all add: policy_view_def registry_view_def get_policy_def get_registry_def policy_of_def registry_of_def)

text \<open>
  C1. A policy Watch stream of the running controller mirrors the shared store: in every state the
  controller can be brought to by interleaving calls of the three services in any way that never
  commits a rule another call has pending, nor for a tenant between the listing and the registration
  of a Watch of that tenant (the calls of the registry and of the audit service are not restricted),
  a session of a non-empty tenant that is in its live phase, is registered and has nothing queued
  holds, for every rule id that no call has in flight, exactly what the store has for that tenant, up to
  \<open>canon_rule\<close>: the creation time is left out, and an unnamed enum value, which a live event carries as it
  was sent, is compared as the value the store keeps for it.
\<close>

theorem controller_policy_mirror:
  assumes "ctl_reach race_free any_reg_schedule c" and "cc_psessions c p = Some se" and "se_pc se = WLive"
    and "se_tenant se \<noteq> ''''" and "hub_live (ct_policy (cc_ct c)) p" and "hub_pending (ct_policy (cc_ct c)) p = []"
    and "i \<notin> set (in_flight (se_tenant se) (cc_pcalls c))"
  shows "mirror (se_sent se) i = tenant_rules (ct_store (cc_ct c)) (se_tenant se) i"
  using policy_mirror_concurrent [of "policy_view c" p se i] ctl_reach_policy [OF assms(1)] assms(2-7) by (simp add: view_simps)

theorem controller_policy_mirror_witness:
  "\<exists>c. ctl_run busy (ctl_init empty_store) = Some c \<and> in_flight ''acme'' (cc_pcalls c) = [''p1''] \<and>
     tenant_rules (ct_store (cc_ct c)) ''acme'' ''p2'' = Some (canon_rule (demo_rule\<lparr>pr_Id := ''p2''\<rparr>))"
proof -
  obtain c se where run: "ctl_run busy (ctl_init empty_store) = Some c" and
    se: "cc_psessions c 0 = Some se" "se_pc se = WLive" "se_tenant se = ''acme''" "hub_live (ct_policy (cc_ct c)) 0"
    "hub_pending (ct_policy (cc_ct c)) 0 = []" "se_sent se = [snapshot_end, added_event (demo_rule\<lparr>pr_Id := ''p2''\<rparr>)]"
    "cc_pcalls c = [PAdd demo_rule]"
    using busy_state by blast
  have r: "ctl_reach race_free any_reg_schedule c" by (rule ctl_reach_mono [OF ctl_reach_busy [OF run]]) simp_all
  have f: "in_flight ''acme'' (cc_pcalls c) = [''p1'']" by (simp add: se(7) demo_rule_def)
  have m: "mirror (se_sent se) ''p2'' = Some (canon_rule (demo_rule\<lparr>pr_Id := ''p2''\<rparr>))"
    using mirror_simps(1) [of "[snapshot_end]" "demo_rule\<lparr>pr_Id := ''p2''\<rparr>"] by (simp add: se(6))
  from controller_policy_mirror [OF r se(1,2) _ se(4,5), of "''p2''"] show ?thesis using run f m by (simp add: se(3))
qed

text \<open>
  C7. A registry Watch stream of the running controller explains the shared store: in every state the
  controller can be brought to by interleaving calls of the three services in any way that never
  commits on a name another call has in flight, nor for a tenant between the SELECT and the DELETE
  of a deregistration of that tenant (the calls of the policy and of the audit service are not
  restricted), a client of a non-empty tenant that knew the bindings of its names when its Watch was
  registered, is still registered and has nothing queued, knows the binding of every name that no
  call has in flight by applying what it was sent.
\<close>

theorem controller_registry_mirror:
  assumes "ctl_reach any_schedule reg_race_free c" and "cc_rsessions c p = Some se"
    and "hub_cfg (ct_registry (cc_ct c)) p = Some w" and "rw_tenant w \<noteq> ''''"
    and "hub_live (ct_registry (cc_ct c)) p" and "hub_pending (ct_registry (cc_ct c)) p = []"
    and "n \<notin> set (reg_in_flight (rw_tenant w) (cc_rcalls c))"
  shows "fold svc_step (rg_sent se) (cc_rbase c p) n = service_view (ct_store (cc_ct c)) w n"
  using registry_mirror_concurrent [of "registry_view c" p se w n] ctl_reach_registry [OF assms(1)] assms(2-7)
  by (simp add: view_simps)

theorem controller_registry_mirror_witness:
  "\<exists>c. ctl_run busy (ctl_init empty_store) = Some c \<and> reg_in_flight ''acme'' (cc_rcalls c) = [''pay''] \<and>
     service_view (ct_store (cc_ct c)) demo_watcher ''shop'' = Some (''acme/shop'', ''a1'', ''r1'', '''')"
proof -
  obtain c se where run: "ctl_run busy (ctl_init empty_store) = Some c" and
    se: "cc_rsessions c 0 = Some se" "hub_cfg (ct_registry (cc_ct c)) 0 = Some demo_watcher"
    "hub_live (ct_registry (cc_ct c)) 0" "hub_pending (ct_registry (cc_ct c)) 0 = []"
    "rg_sent se = [register_event ''acme/shop'' (demo_req\<lparr>rsr_ServiceName := ''shop''\<rparr>)]"
    "cc_rcalls c = [QAnnounce ''acme/pay'' demo_req]"
    using busy_state by blast
  have r: "ctl_reach any_schedule reg_race_free c" by (rule ctl_reach_mono [OF ctl_reach_busy [OF run]]) simp_all
  have f: "reg_in_flight ''acme'' (cc_rcalls c) = [''pay'']" by (simp add: se(6) demo_req_def)
  have "''shop'' \<notin> set (reg_in_flight (rw_tenant demo_watcher) (cc_rcalls c))" using f by (simp add: demo_watcher_def)
  from controller_registry_mirror [OF r se(1,2) _ se(3,4) this]
  show ?thesis using run f by (simp add: se(5) demo_watcher_def demo_req_def)
qed

text \<open>
  C2. A Watch that names a tenant carries no other tenant's data: whatever the schedule of the calls of all
  three services, every event a policy session has been sent is the end-of-snapshot mark, a rule that
  was stored for its tenant or the id of one, and every event a registry session has been sent is a
  change that was committed for its tenant and for one of the names it asked for. A session that names
  no tenant is not confined: the code sends it the changes of every tenant, and of it the theorem says
  only that each event is about a rule that was stored, or is a change that was committed, for some tenant.
\<close>

theorem controller_streams_confidential:
  assumes "ctl_reach any_schedule any_reg_schedule c"
  shows "(\<forall>p se. cc_psessions c p = Some se \<longrightarrow>
            list_all (\<lambda>ev. \<exists>t. (t = se_tenant se \<or> se_tenant se = '''') \<and> about_tenant (cc_pever c) t ev) (se_sent se)) \<and>
         (\<forall>p se w. cc_rsessions c p = Some se \<longrightarrow> hub_cfg (ct_registry (cc_ct c)) p = Some w \<longrightarrow>
            list_all (\<lambda>ev. \<exists>t. (t = rw_tenant w \<or> rw_tenant w = '''') \<and> (t, ev) \<in> set (cc_rever c) \<and>
              (rw_filter w = [] \<or> we_ServiceName ev \<in> set (rw_filter w))) (rg_sent se))"
proof (intro conjI allI impI)
  fix p se assume "cc_psessions c p = Some se"
  then show "list_all (\<lambda>ev. \<exists>t. (t = se_tenant se \<or> se_tenant se = '''') \<and> about_tenant (cc_pever c) t ev) (se_sent se)"
    using policy_watch_confidential [of "policy_view c" p se] ctl_reach_policy [OF assms]
    by (auto simp: view_simps about_watch_def list_all_iff)
next
  fix p se w assume a: "cc_rsessions c p = Some se" "hub_cfg (ct_registry (cc_ct c)) p = Some w"
  have "reg_conc_reach any_reg_schedule (registry_view c)" by (rule ctl_reach_registry [OF assms]) simp
  from registry_watch_confidential [OF this, of p se w] a
  show "list_all (\<lambda>ev. \<exists>t. (t = rw_tenant w \<or> rw_tenant w = '''') \<and> (t, ev) \<in> set (cc_rever c) \<and>
      (rw_filter w = [] \<or> we_ServiceName ev \<in> set (rw_filter w))) (rg_sent se)"
    by (auto simp: view_simps list_all_iff)
qed

theorem controller_streams_confidential_witness:
  "\<exists>c pse rse. ctl_run busy (ctl_init empty_store) = Some c \<and> cc_psessions c 0 = Some pse \<and> cc_rsessions c 0 = Some rse \<and>
     list_all (about_tenant (cc_pever c) ''acme'') [snapshot_end, added_event (demo_rule\<lparr>pr_Id := ''p2''\<rparr>)] \<and>
     (''acme'', register_event ''acme/shop'' (demo_req\<lparr>rsr_ServiceName := ''shop''\<rparr>)) \<in> set (cc_rever c)"
proof -
  obtain c pse rse where run: "ctl_run busy (ctl_init empty_store) = Some c"
    and p: "cc_psessions c 0 = Some pse" "se_tenant pse = ''acme''" "se_sent pse = [snapshot_end, added_event (demo_rule\<lparr>pr_Id := ''p2''\<rparr>)]"
    and r: "cc_rsessions c 0 = Some rse" "hub_cfg (ct_registry (cc_ct c)) 0 = Some demo_watcher"
      "rg_sent rse = [register_event ''acme/shop'' (demo_req\<lparr>rsr_ServiceName := ''shop''\<rparr>)]"
    using busy_state by blast
  note conf = controller_streams_confidential [OF ctl_reach_any [OF ctl_reach_busy [OF run]]]
  have "list_all (\<lambda>ev. \<exists>t. (t = se_tenant pse \<or> se_tenant pse = '''') \<and> about_tenant (cc_pever c) t ev) (se_sent pse)"
    using conf p(1) by blast
  moreover have "list_all (\<lambda>ev. \<exists>t. (t = rw_tenant demo_watcher \<or> rw_tenant demo_watcher = '''') \<and> (t, ev) \<in> set (cc_rever c) \<and>
      (rw_filter demo_watcher = [] \<or> we_ServiceName ev \<in> set (rw_filter demo_watcher))) (rg_sent rse)"
    using conf r(1,2) by blast
  ultimately show ?thesis using run p r by (simp add: demo_watcher_def)
qed

text \<open>
  C4. The controller is safe under every interleaving of the calls of its three services: started on a
  database that satisfies its constraints, every further action of every state it can reach is
  defined (no send on a closed channel, no second close, whatever statements fail), the constraints
  of every table hold, every service id is the one derived from its key, and no watcher channel is
  both registered and closed.
\<close>

theorem controller_concurrent_safe:
  assumes "ctl_reach any_schedule any_reg_schedule c"
  shows "ctl_exec l c \<noteq> None \<and> controller_ok (cc_ct c)"
  using ctl_exec_defined [OF assms, of l] ctl_reach_ok [OF assms] by auto

theorem controller_concurrent_safe_witness:
  "\<exists>c. ctl_run busy (ctl_init empty_store) = Some c \<and> ctl_exec (CtlPolicy (CContinue 0)) c \<noteq> None \<and> controller_ok (cc_ct c)"
proof -
  obtain c where run: "ctl_run busy (ctl_init empty_store) = Some c" using busy_state by blast
  then show ?thesis using controller_concurrent_safe [OF ctl_reach_any [OF ctl_reach_busy [OF run]], of "CtlPolicy (CContinue 0)"] by blast
qed

text \<open>
  C6. Tenant isolation under concurrency: in every state the controller can reach, an action of a call
  made for another tenant, or of a call made for none, leaves a tenant's policy rules, its service
  rows and its audit events exactly as they were; this holds for the later actions of a call as for
  its first.
\<close>

theorem controller_concurrent_isolation:
  assumes "ctl_reach any_schedule any_reg_schedule c" and "ctl_exec l c = Some c'" and "action_tenant l c \<noteq> Some t"
  shows "tenant_view (ct_store (cc_ct c')) t = tenant_view (ct_store (cc_ct c)) t"
  by (rule ctl_exec_view [OF ctl_reach_ok [OF assms(1)] assms(2,3)]) simp_all

theorem controller_concurrent_isolation_witness:
  "\<exists>c c'. ctl_run busy (ctl_init empty_store) = Some c \<and>
     ctl_exec (CtlPolicy (CAdd (ok_env 9) ''u'' \<lparr>apr_Rule = Some (demo_rule\<lparr>pr_Id := ''p3''\<rparr>)\<rparr>)) c = Some c' \<and>
     tenant_view (ct_store (cc_ct c')) ''beta'' = tenant_view (ct_store (cc_ct c)) ''beta''"
proof -
  let ?l = "CtlPolicy (CAdd (ok_env 9) ''u'' \<lparr>apr_Rule = Some (demo_rule\<lparr>pr_Id := ''p3''\<rparr>)\<rparr>)"
  obtain c where run: "ctl_run busy (ctl_init empty_store) = Some c" using busy_state by blast
  note r = ctl_reach_any [OF ctl_reach_busy [OF run]]
  obtain c' where x: "ctl_exec ?l c = Some c'" using ctl_exec_defined [OF r, of ?l] forgets by blast
  have "action_tenant ?l c \<noteq> Some ''beta''" by (simp add: demo_rule_def)
  from controller_concurrent_isolation [OF r x this] show ?thesis using run x by blast
qed

end
