(* ===== verification/Debug_Http.thy ===== *)
theory Debug_Http
  imports Metrics
begin

text \<open>
  \<open>lib/observe/http.go\<close>: the debug HTTP server. \<open>http.ServeMux\<close> is modelled as far as \<open>DebugMux\<close> uses
  it: patterns without method and host, exact ones and subtrees (a trailing slash), the most
  specific match, the redirect of an unclean path to its clean form and of a subtree's name to
  the subtree. Request paths are those that need no escaping. What the pprof handlers write, the
  JSON encoder, the listener and \<open>Serve\<close> are parameters.
\<close>

subsection \<open>Paths\<close>

definition slash :: char where "slash = CHR 0x2F"

definition ends_slash :: "string \<Rightarrow> bool" where
  "ends_slash p \<longleftrightarrow> p \<noteq> [] \<and> last p = slash"

text \<open>\<open>path.Clean\<close> of a rooted path, on its elements; the second argument is the path so far, innermost first.\<close>

fun clean_segs :: "string list \<Rightarrow> string list \<Rightarrow> string list" where
  "clean_segs [] st = rev st"
| "clean_segs (w # ws) st =
     (if w = '''' \<or> w = ''.'' then clean_segs ws st
      else if w = ''..'' then clean_segs ws (tl st)
      else clean_segs ws (w # st))"

definition rooted :: "string list \<Rightarrow> string" where
  "rooted ws = (if ws = [] then [slash] else concat (map ((#) slash) ws))"

definition cleanPath :: "string \<Rightarrow> string" where
  "cleanPath p =
     (if p = [] then [slash]
      else let p = (if hd p = slash then p else slash # p);
               np = rooted (clean_segs (Split p slash) [])
           in if ends_slash p \<and> np \<noteq> [slash] then np @ [slash] else np)"

definition clean_word :: "string \<Rightarrow> bool" where
  "clean_word w \<longleftrightarrow> w \<noteq> '''' \<and> w \<noteq> ''.'' \<and> w \<noteq> ''..'' \<and> slash \<notin> set w"

lemma clean_segs_words:
  "list_all clean_word st \<Longrightarrow> (\<forall>w \<in> set ws. slash \<notin> set w) \<Longrightarrow> list_all clean_word (clean_segs ws st)"
proof (induction ws arbitrary: st)
  case (Cons w ws)
  have "list_all clean_word (tl st)" using Cons.prems(1) by (cases st) auto
  moreover have "clean_word w" if "w \<noteq> ''''" "w \<noteq> ''.''" "w \<noteq> ''..''" using that Cons.prems(2) by (simp add: clean_word_def)
  ultimately show ?case using Cons by simp
qed (simp add: list_all_iff)

lemma clean_segs_id: "list_all clean_word ws \<Longrightarrow> clean_segs (ws @ es) st = clean_segs es (rev ws @ st)"
  by (induction ws arbitrary: st) (auto simp: clean_word_def)

lemma Split_rooted:
  "ws \<noteq> [] \<Longrightarrow> (\<forall>w \<in> set ws. slash \<notin> set w) \<Longrightarrow> Split (concat (map ((#) slash) ws)) slash = [] # ws"
proof (induction ws)
  case (Cons w ws)
  show ?case
  proof (cases "ws = []")
    case True
    then show ?thesis using Cons.prems by (simp add: Split_no_sep)
  next
    case False
    then obtain t where t: "concat (map ((#) slash) ws) = slash # t" by (cases ws) auto
    then have "Split t slash = ws" using Cons.IH [OF False] Cons.prems by simp
    then show ?thesis using Cons.prems t by (simp add: Split_append_sep)
  qed
qed simp

lemma rooted_clean:
  assumes "list_all clean_word ws"
  shows "cleanPath (rooted ws) = rooted ws" and "ws \<noteq> [] \<Longrightarrow> cleanPath (rooted ws @ [slash]) = rooted ws @ [slash]"
    and "ends_slash (rooted ws) \<longleftrightarrow> ws = []"
proof -
  have no: "\<forall>w \<in> set ws. slash \<notin> set w" using assms by (auto simp: list_all_iff clean_word_def)
  show e: "ends_slash (rooted ws) \<longleftrightarrow> ws = []"
  proof (cases ws rule: rev_cases)
    case (snoc us w)
    then have "w \<noteq> []" "slash \<notin> set w" using assms by (simp_all add: clean_word_def)
    then have "w \<noteq> []" "last w \<noteq> slash" using last_in_set by metis+
    then show ?thesis using snoc by (simp add: rooted_def ends_slash_def last_append)
  qed (simp add: rooted_def ends_slash_def)
  show "cleanPath (rooted ws) = rooted ws"
  proof (cases "ws = []")
    case False
    have "rooted ws \<noteq> [] \<and> hd (rooted ws) = slash" using False by (cases ws) (auto simp: rooted_def)
    moreover have "clean_segs (Split (rooted ws) slash) [] = ws"
      using False Split_rooted [OF False no] clean_segs_id [OF assms, of "[]" "[]"] by (simp add: rooted_def)
    ultimately show ?thesis using e False by (simp add: cleanPath_def Let_def)
  qed (simp add: rooted_def cleanPath_def ends_slash_def)
  assume ne: "ws \<noteq> []"
  have r: "rooted ws @ [slash] = concat (map ((#) slash) (ws @ [[]]))" using ne by (simp add: rooted_def)
  have "clean_segs (Split (rooted ws @ [slash]) slash) [] = ws"
    unfolding r using Split_rooted [of "ws @ [[]]"] no clean_segs_id [OF assms, of "[[]]" "[]"] by simp
  moreover have "hd (rooted ws @ [slash]) = slash" using ne by (cases ws) (auto simp: rooted_def)
  moreover have "rooted ws \<noteq> [slash]" using e ne by (auto simp: ends_slash_def)
  ultimately show "cleanPath (rooted ws @ [slash]) = rooted ws @ [slash]" by (simp add: cleanPath_def Let_def ends_slash_def)
qed

lemma cleanPath_form:
  "\<exists>ws. list_all clean_word ws \<and> (cleanPath p = rooted ws \<or> ws \<noteq> [] \<and> cleanPath p = rooted ws @ [slash])"
proof -
  define q where "q = (if p = [] then [slash] else if hd p = slash then p else slash # p)"
  let ?ws = "clean_segs (Split q slash) []"
  have w: "list_all clean_word ?ws" using Split_parts_no_sep by (intro clean_segs_words) auto
  have "cleanPath p = rooted ?ws \<or> rooted ?ws \<noteq> [slash] \<and> cleanPath p = rooted ?ws @ [slash]"
    by (auto simp: cleanPath_def q_def Let_def rooted_def)
  then show ?thesis using w by (auto simp: rooted_def intro!: exI [of _ ?ws])
qed

lemma cleanPath_idem: "cleanPath (cleanPath p) = cleanPath p"
  and cleanPath_tree: "\<not> ends_slash (cleanPath p) \<Longrightarrow> cleanPath (cleanPath p @ [slash]) = cleanPath p @ [slash]"
proof -
  obtain ws where w: "list_all clean_word ws" and f: "cleanPath p = rooted ws \<or> ws \<noteq> [] \<and> cleanPath p = rooted ws @ [slash]"
    using cleanPath_form by blast
  show "cleanPath (cleanPath p) = cleanPath p" using f rooted_clean(1,2) [OF w] by auto
  assume "\<not> ends_slash (cleanPath p)"
  then have "cleanPath p = rooted ws" "ws \<noteq> []" using f rooted_clean(3) [OF w] by (auto simp: ends_slash_def)
  then show "cleanPath (cleanPath p @ [slash]) = cleanPath p @ [slash]" using rooted_clean(2) [OF w] by simp
qed

subsection \<open>The mux\<close>

datatype 'h mux_answer = Handle 'h | Redirect string | NotFound

definition pattern_matches :: "string \<Rightarrow> string \<Rightarrow> bool" where
  "pattern_matches pat path \<longleftrightarrow> pat = path \<or> ends_slash pat \<and> take (length pat) path = pat"

fun most_specific :: "(string \<times> 'h) list \<Rightarrow> (string \<times> 'h) option" where
  "most_specific [] = None"
| "most_specific (m # ms) =
     (case most_specific ms of
        None \<Rightarrow> Some m
      | Some m' \<Rightarrow> if length (fst m) < length (fst m') then Some m' else Some m)"

definition mux_answer :: "(string \<times> 'h) list \<Rightarrow> string \<Rightarrow> 'h mux_answer" where
  "mux_answer pats requested =
     (let path = cleanPath requested in
      if path \<notin> fst ` set pats \<and> \<not> ends_slash path \<and> path @ [slash] \<in> fst ` set pats then Redirect (path @ [slash])
      else if path \<noteq> requested then Redirect path
      else (case most_specific (filter (\<lambda>m. pattern_matches (fst m) path) pats) of
              None \<Rightarrow> NotFound
            | Some m \<Rightarrow> Handle (snd m)))"

subsection \<open>DebugMux\<close>

datatype debug_handler = DebugMetrics | PprofIndex | PprofCmdline | PprofProfile | PprofSymbol | PprofTrace

definition DebugMux :: "(string \<times> debug_handler) list" where
  "DebugMux =
     [(''/debug/metrics'', DebugMetrics),
      (''/debug/pprof/'', PprofIndex),
      (''/debug/pprof/cmdline'', PprofCmdline),
      (''/debug/pprof/profile'', PprofProfile),
      (''/debug/pprof/symbol'', PprofSymbol),
      (''/debug/pprof/trace'', PprofTrace)]"

record http_response =
  hr_status :: nat
  hr_header :: "(string \<times> string) list"
  hr_body :: string

text \<open>The handler of the metrics; the error of the encoder is dropped, and then nothing is written.\<close>

definition metrics_handler :: "(Snapshot \<Rightarrow> string res) \<Rightarrow> ms \<Rightarrow> Registry \<Rightarrow> http_response" where
  "metrics_handler encode now reg =
     \<lparr>hr_status = 200, hr_header = [(''Content-Type'', ''application/json'')],
      hr_body = (case encode (Registry_Snapshot now reg) of Inl e \<Rightarrow> '''' | Inr body \<Rightarrow> body)\<rparr>"

definition debug_response ::
  "(Snapshot \<Rightarrow> string res) \<Rightarrow> (debug_handler \<Rightarrow> string \<Rightarrow> http_response) \<Rightarrow> ms \<Rightarrow> Registry \<Rightarrow> string \<Rightarrow> http_response" where
  "debug_response encode pprof now reg path =
     (case mux_answer DebugMux path of
        Handle DebugMetrics \<Rightarrow> metrics_handler encode now reg
      | Handle h \<Rightarrow> pprof h path
      | Redirect p \<Rightarrow> \<lparr>hr_status = 301, hr_header = [(''Location'', p)], hr_body = ''''\<rparr>
      | NotFound \<Rightarrow> \<lparr>hr_status = 404, hr_header = [], hr_body = ''404 page not found''\<rparr>)"

subsection \<open>ServeDebug\<close>

definition ErrServerClosed :: goerr where "ErrServerClosed = Sentinel ''http: Server closed''"

definition ReadHeaderTimeout :: int where "ReadHeaderTimeout = 5000000000"
definition shutdown_grace :: int where "shutdown_grace = 2000000000"

text \<open>
  What happens to the server: it is given the header timeout when it is made, serves until
  \<open>Serve\<close> returns (always with an error), and when the context is done it is shut down with the grace.
  The actions are in order; \<open>serve\<close> is what \<open>Serve\<close> returns on the listener.
\<close>

datatype debug_act = DListen string | DServe int | DShutdown int

definition ServeDebug ::
  "(string \<Rightarrow> 'l res) \<Rightarrow> ('l \<Rightarrow> goerr) \<Rightarrow> bool \<Rightarrow> string \<Rightarrow> goerr option \<times> debug_act list" where
  "ServeDebug listen serve ctx_done addr =
     (if addr = '''' then (None, [])
      else case listen addr of
        Inl e \<Rightarrow> (Some e, [DListen addr])
      | Inr ln \<Rightarrow>
          (let e = serve ln in
           (if errors_is e ErrServerClosed then None else Some e,
            [DListen addr, DServe ReadHeaderTimeout] @ (if ctx_done then [DShutdown shutdown_grace] else []))))"

subsection \<open>Properties\<close>

lemma most_specific_in: "most_specific ms = Some m \<Longrightarrow> m \<in> set ms"
  by (induction ms arbitrary: m) (auto split: option.splits if_splits)

lemma most_specific_None: "most_specific ms = None \<longleftrightarrow> ms = []"
  by (cases ms) (auto split: option.splits if_splits)

text \<open>
  A client of the debug server is redirected at most once: the path it is sent to, whatever path it
  asked for, is answered by a handler or as not found. This holds for every set of patterns.
\<close>

theorem mux_redirects_once:
  assumes "mux_answer pats path = Redirect path'"
  shows "mux_answer pats path' \<noteq> Redirect path''"
proof -
  let ?c = "cleanPath path"
  consider (tree) "path' = ?c @ [slash]" "\<not> ends_slash ?c"
    | (clean) "path' = ?c" "\<not> (?c \<notin> fst ` set pats \<and> \<not> ends_slash ?c \<and> ?c @ [slash] \<in> fst ` set pats)"
    using assms unfolding mux_answer_def Let_def by (auto split: if_splits option.splits)
  then show ?thesis
  proof cases
    case tree
    then have "cleanPath path' = path'" "ends_slash path'" using cleanPath_tree by (auto simp: ends_slash_def)
    then show ?thesis by (simp add: mux_answer_def split: option.splits)
  next
    case clean
    then show ?thesis unfolding mux_answer_def Let_def using cleanPath_idem [of path] by (auto split: option.splits)
  qed
qed

theorem mux_redirects_once_witness:
  "mux_answer DebugMux ''/debug//x/../pprof'' = Redirect ''/debug/pprof/'' \<and> mux_answer DebugMux ''/debug/pprof/'' \<noteq> Redirect ''/''"
proof -
  have "mux_answer DebugMux ''/debug//x/../pprof'' = Redirect ''/debug/pprof/''" by code_simp
  then show ?thesis using mux_redirects_once by blast
qed

text \<open>
  The debug server answers nothing but metrics and profiles: a request is handled only if its path
  is the metrics path, which is answered with the JSON of the registry's snapshot, or lies under the
  profiles' subtree, which goes to the profile handlers.
\<close>

theorem debug_serves_only_debug:
  "debug_response encode pprof now reg ''/debug/metrics'' = metrics_handler encode now reg \<and>
   (mux_answer DebugMux path = Handle h \<longrightarrow>
      path = ''/debug/metrics'' \<and> h = DebugMetrics \<or>
      take (length ''/debug/pprof/'') path = ''/debug/pprof/'' \<and> h \<noteq> DebugMetrics)"
proof (intro conjI impI)
  have "mux_answer DebugMux ''/debug/metrics'' = Handle DebugMetrics" by code_simp
  then show "debug_response encode pprof now reg ''/debug/metrics'' = metrics_handler encode now reg"
    by (simp add: debug_response_def)
  assume "mux_answer DebugMux path = Handle h"
  then obtain m where m: "most_specific (filter (\<lambda>m. pattern_matches (fst m) (cleanPath path)) DebugMux) = Some m"
    "h = snd m" "cleanPath path = path"
    unfolding mux_answer_def Let_def by (auto split: if_splits option.splits)
  have "m \<in> set DebugMux" "pattern_matches (fst m) path" using most_specific_in [OF m(1)] m(3) by simp_all
  then show "path = ''/debug/metrics'' \<and> h = DebugMetrics \<or>
      take (length ''/debug/pprof/'') path = ''/debug/pprof/'' \<and> h \<noteq> DebugMetrics"
    using m(2) by (auto simp: DebugMux_def pattern_matches_def ends_slash_def slash_def)
qed

theorem debug_serves_only_debug_witness:
  "mux_answer DebugMux ''/debug/pprof/heap'' = Handle PprofIndex \<and>
   take (length ''/debug/pprof/'') ''/debug/pprof/heap'' = ''/debug/pprof/''"
proof -
  have "mux_answer DebugMux ''/debug/pprof/heap'' = Handle PprofIndex" by code_simp
  then show ?thesis using debug_serves_only_debug [THEN conjunct2, rule_format] by blast
qed

text \<open>
  \<open>ServeDebug\<close> reports every failure but the regular end: nil for the empty address, without binding
  anything, and after a shutdown; the error of the listener or of \<open>Serve\<close> otherwise.
\<close>

lemma ServeDebug_result:
  "fst (ServeDebug listen serve ctx_done addr) = None \<longleftrightarrow>
     addr = '''' \<or> (\<exists>ln. listen addr = Inr ln \<and> errors_is (serve ln) ErrServerClosed)"
  "snd (ServeDebug listen serve ctx_done '''') = []"
  by (auto simp: ServeDebug_def Let_def split: sum.splits)

end
