(* ===== verification/Controller_Main.thy ===== *)
theory Controller_Main
  imports Controller Debug_Http
begin

text \<open>
  The start of the controller process, \<open>main\<close> of \<open>cmd/outrelay-controller/main.go\<close> up to \<open>Serve\<close>: the flags
  and the early exits. What follows is in \<open>Controller_Stop\<close>.
\<close>

subsection \<open>Start-up\<close>

record controller_flags =
  fl_listen :: string
  fl_db :: string
  fl_debug_listen :: string
  fl_log_format :: string
  fl_log_level :: string
  fl_version :: bool

definition default_flags :: controller_flags where
  "default_flags = \<lparr>fl_listen = ''127.0.0.1:7444'', fl_db = ''outrelay-controller.db'', fl_debug_listen = ''127.0.0.1:9101'',
     fl_log_format = ''text'', fl_log_level = ''info'', fl_version = False\<rparr>"

definition Version :: string where "Version = ''dev''"

text \<open>How the start ends: the version is printed, the process exits, or it serves.\<close>

datatype startup =
    PrintedVersion string
  | Exited nat handler goerr
  | Serving handler "string option" Controller \<comment> \<open>the debug address, if there is a debug server\<close>

definition main_start ::
  "controller_flags \<Rightarrow> (string \<Rightarrow> Store res) \<Rightarrow> (string \<Rightarrow> goerr option) \<Rightarrow> startup" where
  "main_start fl open_store listen =
     (if fl_version fl then PrintedVersion Version
      else let logger = newLogger (fl_log_format fl) (fl_log_level fl) in
        case open_store (fl_db fl) of
          Inl e \<Rightarrow> Exited 1 logger e
        | Inr st \<Rightarrow>
            (let debug = (if fl_debug_listen fl \<noteq> '''' then Some (fl_debug_listen fl) else None) in
             case listen (fl_listen fl) of
               Some e \<Rightarrow> Exited 1 logger e
             | None \<Rightarrow> Serving logger debug (controller_New st)))"

text \<open>The flags of \<open>main\<close>, and the start from the arguments: \<open>Inl\<close> is an exit of the flag package.\<close>

definition controller_flagset :: "string \<Rightarrow> FlagSet" where
  "controller_flagset prog = \<lparr>fs_name = prog, fs_flags =
     [String_flag ''listen'' ''127.0.0.1:7444'' ''gRPC listen address'',
      String_flag ''db'' ''outrelay-controller.db'' ''SQLite DSN (use ':memory:' for tests)'',
      String_flag ''debug-listen'' ''127.0.0.1:9101'' ''localhost-only debug HTTP (/debug/metrics, /debug/pprof). Empty disables.'',
      String_flag ''log-format'' ''text'' ''log format: text or json'',
      String_flag ''log-level'' ''info'' ''log level: debug, info, warn, error'',
      Bool_flag ''version'' ''print version and exit'']\<rparr>"

definition controller_flags_of :: "flag_vals \<Rightarrow> controller_flags" where
  "controller_flags_of vs =
     \<lparr>fl_listen = str_of vs ''listen'', fl_db = str_of vs ''db'', fl_debug_listen = str_of vs ''debug-listen'',
      fl_log_format = str_of vs ''log-format'', fl_log_level = str_of vs ''log-level'', fl_version = bool_of vs ''version''\<rparr>"

definition main_argv ::
  "(nat \<Rightarrow> nat \<Rightarrow> nat \<Rightarrow> nat) \<Rightarrow> (string \<Rightarrow> string) \<Rightarrow> (string \<Rightarrow> Store res) \<Rightarrow> (string \<Rightarrow> goerr option) \<Rightarrow> string \<Rightarrow> string list
     \<Rightarrow> (nat \<times> string list) + startup" where
  "main_argv frac quote open_store listen prog args =
     (case FlagSet_Parse frac quote (controller_flagset prog) args of
        Inl exit \<Rightarrow> Inl exit
      | Inr (vs, _) \<Rightarrow> Inr (main_start (controller_flags_of vs) open_store listen))"

subsection \<open>Properties\<close>

lemma controller_flag_defaults:
  "flag_defaults (controller_flagset prog) =
     [''listen'' \<mapsto> FString ''127.0.0.1:7444'', ''db'' \<mapsto> FString ''outrelay-controller.db'', ''debug-listen'' \<mapsto> FString ''127.0.0.1:9101'',
      ''log-format'' \<mapsto> FString ''text'', ''log-level'' \<mapsto> FString ''info'', ''version'' \<mapsto> FBool False]"
  by (auto simp: flag_defaults_def controller_flagset_def String_flag_def Bool_flag_def)

text \<open>
  Without arguments the controller starts with the documented defaults; \<open>--version\<close> alone prints the
  version and opens nothing; an unknown flag or a flag without its value ends it with status 2.
\<close>

lemma main_argv_defaults: "main_argv frac quote open_store listen prog [] = Inr (main_start default_flags open_store listen)"
  by (simp add: main_argv_def FlagSet_Parse_def controller_flag_defaults controller_flags_of_def default_flags_def str_of_def bool_of_def)

lemma main_argv_version: "main_argv frac quote open_store listen prog [''--version''] = Inr (PrintedVersion Version)"
  by (simp add: main_argv_def FlagSet_Parse_def controller_flag_defaults controller_flags_of_def parseOne_def set_flag_def arg_word_def
      name_value_def ParseBool_def bool_of_def main_start_def)

lemma main_argv_spelt:
  assumes "spells opts args" and "fst ` set opts \<subseteq> {''listen'', ''db'', ''debug-listen'', ''log-format'', ''log-level''}"
  shows "main_argv frac quote open_store listen prog args =
           Inr (main_start (controller_flags_of (given opts (flag_defaults (controller_flagset prog)))) open_store listen)"
proof -
  have "parse_flags frac quote u args (flag_defaults (controller_flagset prog)) =
      Inr (given opts (flag_defaults (controller_flagset prog)), [])" for u
    by (rule parse_spelt [OF assms(1)]) (use assms(2) in \<open>auto simp: controller_flag_defaults plain_name_def\<close>)
  then show ?thesis by (simp add: main_argv_def FlagSet_Parse_def)
qed

text \<open>What ends a Watch handler: its client, a failing send, or being dropped as a slow consumer.\<close>

lemma policy_Watch_ends_only_by:
  assumes "Watch_step io se srv = Some (se', srv')" and "\<And>r. se_pc se \<noteq> WDone r" and "se_pc se' = WDone r"
  shows "io = CtxDone \<or> (\<exists>e. io = SendErr e) \<or> r = Some watcher_dropped"
  using assms
  by (auto simp: Watch_step_def Watch_send_def Watch_return_def hub_recv_def split: watch_pc.splits list.splits if_splits
      prod.splits option.splits watch_io.splits recv_result.splits)

lemma registry_Watch_ends_only_by:
  assumes "registry_Watch_step io se srv = Some (se', srv')" and "rg_pc se = RLive" and "rg_pc se' = RDone r"
  shows "io = RCtxDone \<or> (\<exists>e. io = RSendErr e) \<or> r = Some reg_watcher_dropped"
  using assms
  by (auto simp: registry_Watch_step_def registry_Watch_return_def split: if_splits
      prod.splits option.splits reg_io.splits recv_result.splits)

text \<open>The servers of a started process are the ones the properties of the API start from.\<close>

lemma main_start_serving:
  assumes "main_start fl open_store listen = Serving logger debug ct"
  shows "\<exists>st. open_store (fl_db fl) = Inr st \<and> listen (fl_listen fl) = None \<and> controller_main (Inr st) None = Inr ct \<and>
     (debug = None \<longleftrightarrow> fl_debug_listen fl = '''') \<and> \<not> fl_version fl"
  using assms by (auto simp: main_start_def Let_def controller_main_def split: if_splits sum.splits option.splits)

end
