(* ===== verification/Controller_Recovery.thy ===== *)
theory Controller_Recovery
  imports Controller_Concurrent Controller_Main
begin

text \<open>
  The controller across crashes. A process may die between any two actions of
  \<open>Controller_Concurrent\<close>; its calls, its sessions and its hubs are gone, and \<open>main\<close> opens the database
  again, on the same DSN. SQLite commits every statement on its own, so what the next process finds is
  the store as the last action left it, if the DSN names a file, and nothing if it does not, as
  \<open>:memory:\<close>; which DSN names a file is the driver's matter and a parameter, \<open>durable\<close>.

  Every state of such a life is a state of an uninterrupted run from some well-formed database, so
  what \<open>Controller_Concurrent\<close> shows of the latter holds of the former; and a relay that calls Watch
  anew is brought in step with the store by the snapshot, whatever was lost before.
\<close>

subsection \<open>Lives of the controller\<close>

definition reopened :: "(string \<Rightarrow> bool) \<Rightarrow> string \<Rightarrow> Store \<Rightarrow> Store option" where
  "reopened durable dsn s = (if durable dsn then Some s else None)"

inductive ctl_life :: "(string \<Rightarrow> bool) \<Rightarrow> string \<Rightarrow> ctl_sys \<Rightarrow> bool" for durable dsn where
  life_first: "fl_db fl = dsn \<Longrightarrow> main_start fl (\<lambda>_. Open oe se None) listen = Serving logger debug ct
     \<Longrightarrow> ctl_life durable dsn (ctl_init (ct_store ct))"
| life_action: "ctl_life durable dsn c \<Longrightarrow> ctl_allowed any_schedule any_reg_schedule l c \<Longrightarrow> ctl_exec l c = Some c'
     \<Longrightarrow> ctl_life durable dsn c'"
| life_crash: "ctl_life durable dsn c \<Longrightarrow> fl_db fl = dsn
     \<Longrightarrow> main_start fl (\<lambda>_. Open oe se (reopened durable dsn (ct_store (cc_ct c)))) listen = Serving logger debug ct
     \<Longrightarrow> ctl_life durable dsn (ctl_init (ct_store ct))"

inductive_cases life_cases: "ctl_life durable dsn c"

lemma main_start_store:
  assumes "main_start fl (\<lambda>_. Open oe se db) listen = Serving logger debug ct"
  shows "ct = controller_New (case db of None \<Rightarrow> empty_store | Some s \<Rightarrow> s)"
  using assms by (auto simp: main_start_def Open_def Let_def split: if_splits option.splits sum.splits)

lemma ct_store_New [simp]: "ct_store (controller_New s) = s"
  by (simp add: controller_New_def Let_def)

lemma cc_ct_init [simp]: "cc_ct (ctl_init s) = controller_New s"
  by (simp add: ctl_init_def)

lemma empty_store_ok: "store_wf empty_store" "canonical_ids empty_store"
  by (simp_all add: store_wf_def canonical_ids_def empty_store_def)

text \<open>A crash leads to a state an uninterrupted run may start in.\<close>

lemma restart_reach:
  assumes "ctl_reach pa ra c" and "forgets_p pa" and "forgets_r ra"
  shows "ctl_reach pa' ra' (ctl_init (ct_store (cc_ct c)))"
  using ctl_reach_ok [OF assms] by (intro ctl_reach_init) (simp_all add: controller_ok_def)

lemma ctl_life_reach: "ctl_life durable dsn c \<Longrightarrow> ctl_reach any_schedule any_reg_schedule c"
proof (induction rule: ctl_life.induct)
  case (life_first fl oe se listen logger debug ct)
  have "ct = controller_New empty_store" using main_start_store [OF life_first(2)] by simp
  then show ?case using ctl_reach_init [OF empty_store_ok] by simp
next
  case (life_action c l c')
  then show ?case by (blast intro: ctl_reach_step)
next
  case (life_crash c fl oe se listen logger debug ct)
  show ?case
  proof (cases "durable dsn")
    case True
    then show ?thesis using main_start_store [OF life_crash.hyps(3)] restart_reach [OF life_crash.IH]
      by (simp add: reopened_def)
  next
    case False
    then show ?thesis using main_start_store [OF life_crash.hyps(3)] ctl_reach_init [OF empty_store_ok]
      by (simp add: reopened_def)
  qed
qed

subsection \<open>A Watch from its call to its live phase\<close>

text \<open>The snapshot is sent row by row, and nothing else changes.\<close>

lemma snapshot_sent:
  "cs_sessions sy p = Some se \<Longrightarrow> se_pc se = WSnapshot rows \<Longrightarrow>
     conc_run (replicate (Suc (length rows)) (CStep p SendOK)) sy
       = Some (sy\<lparr>cs_sessions := (cs_sessions sy)(p \<mapsto> se\<lparr>se_sent := se_sent se @ to_send (WSnapshot rows), se_pc := WLive\<rparr>)\<rparr>)"
proof (induction rows arbitrary: sy se)
  case (Cons r rows)
  let ?se = "se\<lparr>se_sent := se_sent se @ [added_event (toPB r)], se_pc := WSnapshot rows\<rparr>"
  let ?sy = "sy\<lparr>cs_sessions := (cs_sessions sy)(p \<mapsto> ?se)\<rparr>"
  have "conc_exec (CStep p SendOK) sy = Some ?sy"
    using Cons.prems by (simp add: Watch_step_def Watch_send_def)
  moreover have "conc_run (replicate (Suc (length rows)) (CStep p SendOK)) ?sy
      = Some (?sy\<lparr>cs_sessions := (cs_sessions ?sy)(p \<mapsto> ?se\<lparr>se_sent := se_sent ?se @ to_send (WSnapshot rows), se_pc := WLive\<rparr>)\<rparr>)"
    by (rule Cons.IH) simp_all
  ultimately show ?case by (simp add: fun_upd_def del: conc_exec.simps cong: if_cong)
qed (simp add: Watch_step_def Watch_send_def)

text \<open>The actions of a Watch call that is not disturbed, begun in a state with \<open>k\<close> calls pending and \<open>p\<close> watchers so far.\<close>

definition reconnect :: "stmt_env \<Rightarrow> (Policy list \<Rightarrow> Policy list) \<Rightarrow> string \<Rightarrow> nat \<Rightarrow> nat \<Rightarrow> nat \<Rightarrow> conc_label list" where
  "reconnect env scan t k p n = CWatch env scan t # CContinue k # replicate (Suc n) (CStep p SendOK)"

lemma conc_run_reconnect:
  assumes "conc_ok sy" and "is_scan scan" and "env_fail env = None"
    and "n = length (filter (\<lambda>r. po_tenant r = t) (st_policies (ps_store (cs_srv sy))))"
    and "p = hub_alloc (ps_hub (cs_srv sy))"
  shows "\<exists>sy' se. conc_run (reconnect env scan t (length (cs_calls sy)) p n) sy = Some sy' \<and>
     ps_store (cs_srv sy') = ps_store (cs_srv sy) \<and> cs_calls sy' = cs_calls sy \<and> cs_sessions sy' = (cs_sessions sy)(p \<mapsto> se) \<and>
     se_tenant se = t \<and> se_pc se = WLive \<and> hub_live (ps_hub (cs_srv sy')) p \<and> hub_pending (ps_hub (cs_srv sy')) p = [] \<and>
     mirror (se_sent se) = tenant_rules (ps_store (cs_srv sy)) t"
proof -
  have ok: "server_ok (cs_srv sy)" using assms(1) by (simp add: conc_ok_def)
  obtain i rows srv1 where l: "Watch_list env scan (cs_srv sy) t = (Inr (i, rows), srv1)"
    and a: "hub_alloc (ps_hub srv1) = p"
    using assms(3,5) by (auto simp: Watch_list_def store_ListPolicies_def next_watch_id_def Let_def)
  note fr = Watch_list_frame [OF l]
  have m: "mirror (map (\<lambda>r. added_event (toPB r)) rows) = tenant_rules (ps_store (cs_srv sy)) t"
    using ok assms(2) fr(6) [OF refl] by (intro snapshot_rules) (simp_all add: server_ok_def)
  have "mset rows = mset (filter (\<lambda>r. po_tenant r = t) (st_policies (ps_store (cs_srv sy))))"
    using fr(6) [OF refl] assms(2,3) by (auto simp: store_ListPolicies_def is_scan_def)
  then have n: "n = length rows" using assms(4) by (metis size_mset)
  obtain se srv2 where r: "Watch_register t i rows srv1 = (se, srv2)" by fastforce
  have ok1: "server_ok srv1" using fr(5) ok by simp
  note rg = Watch_register_keeps [OF ok1 r]
  have p: "se_ptr se = p" using r a ok1 by (auto simp: Watch_register_def Let_def server_ok_def hub_join_eq)
  let ?se = "se\<lparr>se_sent := se_sent se @ to_send (WSnapshot rows), se_pc := WLive\<rparr>"
  let ?sy = "sy\<lparr>cs_srv := srv2, cs_sessions := (cs_sessions sy)(p \<mapsto> se)\<rparr>"
  have pc: "se_pc se = WSnapshot rows" "se_sent se = []" "se_tenant se = t" by (subst rg(5), simp)+
  have "conc_run (reconnect env scan t (length (cs_calls sy)) p n) sy = conc_run (replicate (Suc n) (CStep p SendOK)) ?sy"
    by (simp add: reconnect_def l r p drop_nth_def)
  also have "\<dots> = Some (?sy\<lparr>cs_sessions := (cs_sessions sy)(p \<mapsto> ?se)\<rparr>)"
    using snapshot_sent [of ?sy p se rows] pc(1) by (simp add: n)
  finally have run: "conc_run (reconnect env scan t (length (cs_calls sy)) p n) sy
      = Some (?sy\<lparr>cs_sessions := (cs_sessions sy)(p \<mapsto> ?se)\<rparr>)" .
  have "mirror (se_sent ?se) = tenant_rules (ps_store (cs_srv sy)) t" by (simp add: pc m)
  then show ?thesis using rg(2,6,7) fr(1) p pc(3)
    by (intro exI [of _ "?sy\<lparr>cs_sessions := (cs_sessions sy)(p \<mapsto> ?se)\<rparr>"] exI [of _ ?se]) (simp add: run)
qed

lemma ctl_run_policy: "ctl_run (map CtlPolicy ls) c = map_option (put_policy c) (conc_run ls (get_policy c))"
proof (induction ls arbitrary: c)
  case Nil
  then show ?case by (simp add: put_policy_def get_policy_def with_policy_def policy_of_def)
next
  case (Cons l ls)
  have "put_policy (put_policy c sy) sy' = put_policy c sy'" for sy sy'
    by (simp add: put_policy_def with_policy_def)
  with Cons show ?case by (auto split: option.splits simp: option.map_comp comp_def)
qed

lemma ctl_life_run:
  "ctl_life durable dsn c \<Longrightarrow> ctl_run_allowed any_schedule any_reg_schedule ls c \<Longrightarrow> ctl_run ls c = Some c' \<Longrightarrow> ctl_life durable dsn c'"
  by (induction ls arbitrary: c) (auto intro: life_action split: option.splits)

lemma policy_run_allowed:
  "list_all conc_label_ok ls \<Longrightarrow> ctl_run_allowed any_schedule any_reg_schedule (map CtlPolicy ls) c"
  by (induction ls arbitrary: c) (auto split: option.splits)

lemma tenant_filter_view: "ps_store (cs_srv (get_policy c)) = ct_store (cc_ct c)" "ps_hub (cs_srv (get_policy c)) = ct_policy (cc_ct c)"
  "cs_calls (get_policy c) = cc_pcalls c" "cs_sessions (get_policy c) = cc_psessions c"
  by (simp_all add: get_policy_def policy_of_def)

lemma get_policy_ok: "ctl_reach any_schedule any_reg_schedule c \<Longrightarrow> conc_ok (get_policy c)"
  using conc_reach_ok [OF ctl_reach_policy, of any_schedule any_reg_schedule c] ctl_reach_ok [of any_schedule any_reg_schedule c]
  by (auto simp: conc_ok_def owns_watcher_def policy_view_def controller_ok_def server_ok_def tenant_filter_view)

text \<open>
  From every state of every life, whatever updates earlier sessions have lost to a race, to a slow
  consumer or to a crash, a Watch that is not disturbed reaches its live phase after as many sends as
  the tenant has rules and one more, and what it has sent is what the store has.
\<close>

lemma watch_resynchronises:
  assumes "ctl_life durable dsn c" and "is_scan scan" and "env_fail env = None"
    and "n = length (filter (\<lambda>r. po_tenant r = t) (st_policies (ct_store (cc_ct c))))"
    and "p = hub_alloc (ct_policy (cc_ct c))"
  shows "\<exists>c' se. ctl_run (map CtlPolicy (reconnect env scan t (length (cc_pcalls c)) p n)) c = Some c' \<and> ctl_life durable dsn c' \<and>
     ct_store (cc_ct c') = ct_store (cc_ct c) \<and> cc_pcalls c' = cc_pcalls c \<and> cc_psessions c' = (cc_psessions c)(p \<mapsto> se) \<and>
     se_tenant se = t \<and> se_pc se = WLive \<and> hub_live (ct_policy (cc_ct c')) p \<and> hub_pending (ct_policy (cc_ct c')) p = [] \<and>
     mirror (se_sent se) = tenant_rules (ct_store (cc_ct c)) t"
proof -
  let ?ls = "reconnect env scan t (length (cc_pcalls c)) p n"
  from conc_run_reconnect [OF get_policy_ok [OF ctl_life_reach [OF assms(1)]] assms(2,3), of n t p] assms(4,5)
  obtain sy se where run: "conc_run ?ls (get_policy c) = Some sy"
    and sy: "ps_store (cs_srv sy) = ct_store (cc_ct c)" "cs_calls sy = cc_pcalls c" "cs_sessions sy = (cc_psessions c)(p \<mapsto> se)"
      "se_tenant se = t" "se_pc se = WLive" "hub_live (ps_hub (cs_srv sy)) p" "hub_pending (ps_hub (cs_srv sy)) p = []"
      "mirror (se_sent se) = tenant_rules (ct_store (cc_ct c)) t"
    by (auto simp: tenant_filter_view)
  have r: "ctl_run (map CtlPolicy ?ls) c = Some (put_policy c sy)" by (simp add: ctl_run_policy run)
  have "list_all conc_label_ok ?ls" using assms(2) by (simp add: reconnect_def list_all_iff)
  then have "ctl_life durable dsn (put_policy c sy)" using ctl_life_run [OF assms(1) policy_run_allowed r] by blast
  with r sy show ?thesis
    by (intro exI [of _ "put_policy c sy"] exI [of _ se]) (simp add: put_policy_def with_policy_def)
qed

text \<open>
  C8. Recovery from a crash: let the controller, after any number of earlier starts and crashes, be in
  the middle of any interleaving of the calls of its three services, with commits not yet announced
  and watchers that missed an update, and let it crash and start again on the same database file. The new
  process has every constraint and every row the old one had committed; and a relay that calls Watch
  again, with no failure of the listing or of a send, is after as many sends as its tenant has
  rules and one more in the live phase, registered, and holds exactly the rules the crashed process had
  committed for that tenant.
\<close>

theorem crash_recovery:
  assumes "ctl_life durable dsn c" and "fl_db fl = dsn"
    and "main_start fl (\<lambda>_. Open oe se (reopened durable dsn (ct_store (cc_ct c)))) listen = Serving logger debug ct"
    and "durable dsn" and "is_scan scan" and "env_fail env = None"
    and "n = length (filter (\<lambda>r. po_tenant r = t) (st_policies (ct_store (cc_ct c))))"
  shows "\<exists>c' ps. ctl_run (map CtlPolicy (reconnect env scan t 0 0 n)) (ctl_init (ct_store ct)) = Some c' \<and>
     controller_ok (cc_ct c') \<and> ct_store (cc_ct c') = ct_store (cc_ct c) \<and>
     cc_psessions c' 0 = Some ps \<and> se_tenant ps = t \<and> se_pc ps = WLive \<and> hub_live (ct_policy (cc_ct c')) 0 \<and>
     mirror (se_sent ps) = tenant_rules (ct_store (cc_ct c)) t"
proof -
  have ct: "ct = controller_New (ct_store (cc_ct c))"
    using main_start_store [OF assms(3)] assms(4) by (simp add: reopened_def)
  have "ctl_life durable dsn (ctl_init (ct_store ct))" by (rule life_crash [OF assms(1-3)])
  moreover have "hub_alloc (ct_policy (cc_ct (ctl_init (ct_store ct)))) = 0" "cc_pcalls (ctl_init (ct_store ct)) = []"
    by (simp_all add: ctl_init_def controller_New_def policy_New_def new_hub_def Let_def)
  ultimately obtain c' ps where c': "ctl_run (map CtlPolicy (reconnect env scan t 0 0 n)) (ctl_init (ct_store ct)) = Some c'"
      "ctl_life durable dsn c'" "ct_store (cc_ct c') = ct_store (cc_ct c)" "cc_psessions c' 0 = Some ps" "se_tenant ps = t" "se_pc ps = WLive"
      "hub_live (ct_policy (cc_ct c')) 0" "mirror (se_sent ps) = tenant_rules (ct_store (cc_ct c)) t"
    using watch_resynchronises [of durable dsn "ctl_init (ct_store ct)" scan env n t 0] assms(5-7) by (auto simp: ct)
  moreover have "controller_ok (cc_ct c')" using ctl_reach_ok [OF ctl_life_reach [OF c'(2)]] by simp
  ultimately show ?thesis by blast
qed

text \<open>A first start on a fresh file.\<close>

definition demo_durable :: "string \<Rightarrow> bool" where
  "demo_durable dsn \<longleftrightarrow> dsn \<noteq> '':memory:''"

lemma life_empty: "ctl_life demo_durable ''outrelay-controller.db'' (ctl_init empty_store)"
proof -
  have "main_start default_flags (\<lambda>_. Open None None None) (\<lambda>_. None)
      = Serving (newLogger ''text'' ''info'') (Some ''127.0.0.1:9101'') (controller_New empty_store)"
    by (simp add: main_start_def Open_def default_flags_def)
  from life_first [OF _ this, of "''outrelay-controller.db''" demo_durable] show ?thesis by (simp add: default_flags_def)
qed

lemma life_busy:
  assumes "ctl_run busy (ctl_init empty_store) = Some c"
  shows "ctl_life demo_durable ''outrelay-controller.db'' c"
proof (rule ctl_life_run [OF life_empty _ assms])
  show "ctl_run_allowed any_schedule any_reg_schedule busy (ctl_init empty_store)"
    by (simp add: ctl_eval is_scan_def Registry_Counter_def NewRegistry_def new_pool_def pool_find_def
        counter_under_lock_def pool_ensure_def)
qed

text \<open>The crash comes between the commit of the first rule and its announcement.\<close>

theorem crash_recovery_witness:
  "\<exists>c c' ps. ctl_run busy (ctl_init empty_store) = Some c \<and> cc_pcalls c = [PAdd demo_rule] \<and>
     ctl_run (map CtlPolicy (reconnect (ok_env 9) id ''acme'' 0 0 (length (filter (\<lambda>r. po_tenant r = ''acme'')
       (st_policies (ct_store (cc_ct c))))))) (ctl_init (ct_store (cc_ct c))) = Some c' \<and>
     cc_psessions c' 0 = Some ps \<and> se_pc ps = WLive \<and> mirror (se_sent ps) = tenant_rules (ct_store (cc_ct c)) ''acme''"
proof -
  obtain c where run: "ctl_run busy (ctl_init empty_store) = Some c" and pc: "cc_pcalls c = [PAdd demo_rule]"
    using busy_state by blast
  have db: "fl_db default_flags = ''outrelay-controller.db''" by (simp add: default_flags_def)
  have du: "demo_durable ''outrelay-controller.db''" by (simp add: demo_durable_def)
  have st: "main_start default_flags (\<lambda>_. Open None None (reopened demo_durable ''outrelay-controller.db'' (ct_store (cc_ct c)))) (\<lambda>_. None)
      = Serving (newLogger ''text'' ''info'') (Some ''127.0.0.1:9101'') (controller_New (ct_store (cc_ct c)))"
    by (simp add: main_start_def Open_def default_flags_def reopened_def demo_durable_def)
  have sc: "is_scan (id :: Policy list \<Rightarrow> Policy list)" "env_fail (ok_env 9) = None" by (simp_all add: is_scan_def ok_env_def)
  from crash_recovery [OF life_busy [OF run] db st du sc refl, of "''acme''"] show ?thesis using run pc by simp blast
qed

end
