(* ===== verification/Controller_Stop.thy ===== *)
theory Controller_Stop
  imports Controller_Concurrent Controller_Main
begin

text \<open>
  The serving controller and its stop, \<open>main\<close> and \<open>signalContext\<close> of \<open>cmd/outrelay-controller/main.go\<close>: the
  goroutine that forwards the first signal to the context, the one that calls \<open>GracefulStop\<close> when the
  context is done, \<open>Serve\<close>, and the handlers with their interleaved actions. When \<open>GracefulStop\<close> and with it
  \<open>Serve\<close> return is the gRPC library's matter: it is the parameter \<open>returns\<close>, a predicate on the state of the
  handlers, of which \<open>graceful_stop\<close> states what the library documents, that no handler is running then.

  The context that a signal ends is not the context of the calls: nothing tells a Watch handler that the
  process is to stop.
\<close>

subsection \<open>The process\<close>

record process =
  pr_ctl :: ctl_sys
  pr_sigC :: nat \<comment> \<open>signals in the channel, which holds one\<close>
  pr_forwarding :: bool \<comment> \<open>the goroutine of \<open>signalContext\<close> is still there\<close>
  pr_ctx_done :: bool
  pr_stopping :: bool \<comment> \<open>\<open>GracefulStop\<close> has been called\<close>
  pr_store_open :: bool
  pr_exit :: "nat option"

definition serving :: "Store \<Rightarrow> process" where
  "serving st = \<lparr>pr_ctl = ctl_init st, pr_sigC = 0, pr_forwarding = True, pr_ctx_done = False, pr_stopping = False,
     pr_store_open = True, pr_exit = None\<rparr>"

datatype proc_event =
    PSignal \<comment> \<open>SIGINT or SIGTERM arrives\<close>
  | PForward \<comment> \<open>\<open>signalContext\<close>: the signal is taken and the context cancelled\<close>
  | PStop \<comment> \<open>the context is seen done, \<open>GracefulStop\<close> is called\<close>
  | PHandler ctl_label \<comment> \<open>an action of a handler\<close>
  | PServeErr goerr
  | PReturn \<comment> \<open>\<open>GracefulStop\<close> and \<open>Serve\<close> return\<close>

text \<open>
  Whether the library still lets a call in is left open here, so every action is possible until the
  exit. A panic of a handler ends the process with status 2.
\<close>

fun proc_event_step :: "(ctl_sys \<Rightarrow> bool) \<Rightarrow> proc_event \<Rightarrow> process \<Rightarrow> process" where
  "proc_event_step returns PSignal s = s\<lparr>pr_sigC := 1\<rparr>"
| "proc_event_step returns PForward s =
     (if pr_forwarding s \<and> 0 < pr_sigC s then s\<lparr>pr_sigC := 0, pr_forwarding := False, pr_ctx_done := True\<rparr> else s)"
| "proc_event_step returns PStop s = (if pr_ctx_done s then s\<lparr>pr_stopping := True\<rparr> else s)"
| "proc_event_step returns (PHandler l) s =
     (case ctl_exec l (pr_ctl s) of None \<Rightarrow> s\<lparr>pr_exit := Some 2\<rparr> | Some c \<Rightarrow> s\<lparr>pr_ctl := c\<rparr>)"
| "proc_event_step returns (PServeErr e) s = (if pr_stopping s then s else s\<lparr>pr_exit := Some 1\<rparr>)"
| "proc_event_step returns PReturn s =
     (if pr_stopping s \<and> returns (pr_ctl s) then s\<lparr>pr_exit := Some 0, pr_store_open := False\<rparr> else s)"

definition proc_step :: "(ctl_sys \<Rightarrow> bool) \<Rightarrow> proc_event \<Rightarrow> process \<Rightarrow> process" where
  "proc_step returns ev s = (if pr_exit s = None then proc_event_step returns ev s else s)"

definition proc_run :: "(ctl_sys \<Rightarrow> bool) \<Rightarrow> proc_event list \<Rightarrow> process \<Rightarrow> process" where
  "proc_run returns evs s = fold (proc_step returns) evs s"

lemma proc_run_simps [simp]:
  "proc_run returns [] s = s" "proc_run returns (ev # evs) s = proc_run returns evs (proc_step returns ev s)"
  "proc_run returns (evs @ evs') s = proc_run returns evs' (proc_run returns evs s)"
  by (simp_all add: proc_run_def)

text \<open>The library's contract.\<close>

definition handlers_done :: "ctl_sys \<Rightarrow> bool" where
  "handlers_done c \<longleftrightarrow> cc_pcalls c = [] \<and> cc_rcalls c = [] \<and> cc_records c = 0 \<and>
     (\<forall>p se. cc_psessions c p = Some se \<longrightarrow> (\<exists>r. se_pc se = WDone r)) \<and>
     (\<forall>p se. cc_rsessions c p = Some se \<longrightarrow> (\<exists>r. rg_pc se = RDone r))"

definition graceful_stop :: "(ctl_sys \<Rightarrow> bool) \<Rightarrow> bool" where
  "graceful_stop returns \<longleftrightarrow> (\<forall>c. returns c \<longrightarrow> handlers_done c)"

text \<open>The queries of a schedule return the rows they have, in some order.\<close>

fun event_ok :: "proc_event \<Rightarrow> bool" where
  "event_ok (PHandler (CtlPolicy l)) \<longleftrightarrow> conc_label_ok l"
| "event_ok (PHandler (CtlRegistry l)) \<longleftrightarrow> reg_label_ok l"
| "event_ok _ \<longleftrightarrow> True"

subsection \<open>Invariant\<close>

lemma event_allowed: "event_ok (PHandler l) \<Longrightarrow> ctl_allowed any_schedule any_reg_schedule l c"
  by (cases l) auto

lemma proc_step_reach:
  assumes "ctl_reach any_schedule any_reg_schedule (pr_ctl s)" and "event_ok ev"
  shows "ctl_reach any_schedule any_reg_schedule (pr_ctl (proc_step returns ev s))"
proof (cases ev)
  case (PHandler l)
  obtain c where c: "ctl_exec l (pr_ctl s) = Some c" using ctl_exec_defined [OF assms(1)] by auto
  from ctl_reach_step [OF assms(1) event_allowed c] show ?thesis using assms PHandler c by (auto simp: proc_step_def)
qed (use assms in \<open>auto simp: proc_step_def\<close>)

definition proc_ok :: "proc_event list \<Rightarrow> process \<Rightarrow> bool" where
  "proc_ok evs s \<longleftrightarrow> ctl_reach any_schedule any_reg_schedule (pr_ctl s) \<and>
     (pr_sigC s = 0 \<or> PSignal \<in> set evs) \<and> (pr_ctx_done s \<longrightarrow> PSignal \<in> set evs) \<and>
     (pr_stopping s \<longrightarrow> pr_ctx_done s) \<and> (pr_forwarding s \<longleftrightarrow> \<not> pr_ctx_done s) \<and>
     (pr_exit s = Some 0 \<longrightarrow> pr_stopping s \<and> handlers_done (pr_ctl s)) \<and>
     (pr_store_open s \<longleftrightarrow> pr_exit s \<noteq> Some 0) \<and>
     (\<forall>c. pr_exit s = Some c \<longrightarrow> c = 0 \<or> c = 1 \<and> (\<exists>e. PServeErr e \<in> set evs))"

lemma proc_step_ok:
  assumes "graceful_stop returns" and "proc_ok evs s" and "event_ok ev"
  shows "proc_ok (evs @ [ev]) (proc_step returns ev s)"
proof -
  have r: "ctl_reach any_schedule any_reg_schedule (pr_ctl s)" using assms(2) by (simp add: proc_ok_def)
  note reach = proc_step_reach [OF r assms(3), of returns]
  show ?thesis
  proof (cases ev)
    case (PHandler l)
    obtain c where "ctl_exec l (pr_ctl s) = Some c" using ctl_exec_defined [OF r] by auto
    then have "proc_step returns ev s = (if pr_exit s = None then s\<lparr>pr_ctl := c\<rparr> else s)" using PHandler by (simp add: proc_step_def)
    then show ?thesis using reach assms(2) by (auto simp: proc_ok_def split: if_splits)
  qed (use reach assms in \<open>auto simp: proc_ok_def proc_step_def graceful_stop_def\<close>)
qed

lemma proc_run_ok:
  assumes "graceful_stop returns" and "store_wf st" and "canonical_ids st" and "list_all event_ok evs"
  shows "proc_ok evs (proc_run returns evs (serving st))"
  using assms(4)
proof (induction evs rule: rev_induct)
  case (snoc ev evs)
  then show ?case using proc_step_ok [OF assms(1)] by simp
qed (use ctl_reach_init [OF assms(2,3)] in \<open>simp add: proc_ok_def serving_def\<close>)

subsection \<open>A connected watcher\<close>













subsection \<open>Properties\<close>

text \<open>
  The process ends in order: whatever happens, no handler panics; it exits with status 0 only after a
  signal, with no handler running and with the store closed; with status 1 only if serving failed, and
  then the store is not closed; otherwise it runs with the store open.
\<close>

theorem controller_exit:
  assumes "graceful_stop returns" and "store_wf st" and "canonical_ids st" and "list_all event_ok evs"
    and "s = proc_run returns evs (serving st)"
  shows "case pr_exit s of
     None \<Rightarrow> pr_store_open s
   | Some c \<Rightarrow> (c = 0 \<and> PSignal \<in> set evs \<and> handlers_done (pr_ctl s) \<and> \<not> pr_store_open s) \<or>
               (c = 1 \<and> (\<exists>e. PServeErr e \<in> set evs) \<and> pr_store_open s)"
  using proc_run_ok [OF assms(1-4)] by (auto simp: proc_ok_def assms(5) split: option.splits)










text \<open>
  A signal does end the process once the library's stop returns: from every state in which the process
  serves, a signal, the two goroutines and the return, with any actions of handlers in between, lead
  to exit status 0.
\<close>

lemma handlers_run_on:
  assumes "ctl_reach any_schedule any_reg_schedule (pr_ctl s)" and "pr_exit s = None" and "list_all event_ok (map PHandler ls)"
  shows "\<exists>c. proc_run returns (map PHandler ls) s = s\<lparr>pr_ctl := c\<rparr> \<and> ctl_reach any_schedule any_reg_schedule c"
  using assms
proof (induction ls arbitrary: s)
  case (Cons l ls)
  obtain c where c: "ctl_exec l (pr_ctl s) = Some c" using ctl_exec_defined [OF Cons.prems(1)] by auto
  have e: "event_ok (PHandler l)" using Cons.prems(3) by simp
  have "ctl_reach any_schedule any_reg_schedule c" by (rule ctl_reach_step [OF Cons.prems(1) event_allowed [OF e] c])
  then show ?case using Cons.IH [of "s\<lparr>pr_ctl := c\<rparr>"] Cons.prems(2,3) c by (simp add: proc_step_def)
qed (auto intro!: exI [of _ "pr_ctl s" for s])

lemma shutdown_completes:
  assumes "graceful_stop returns" and "store_wf st" and "canonical_ids st" and "list_all event_ok (evs @ map PHandler ls)"
    and "pr_exit (proc_run returns evs (serving st)) = None"
    and "returns (pr_ctl (proc_run returns (evs @ [PSignal, PForward, PStop] @ map PHandler ls) (serving st)))"
  shows "pr_exit (proc_run returns (evs @ [PSignal, PForward, PStop] @ map PHandler ls @ [PReturn]) (serving st)) = Some 0"
proof -
  let ?s = "proc_run returns evs (serving st)" and ?s' = "proc_run returns (evs @ [PSignal, PForward, PStop]) (serving st)"
  have ok: "proc_ok evs ?s" by (rule proc_run_ok [OF assms(1-3)]) (use assms(4) in simp)
  have s': "pr_stopping ?s' \<and> pr_exit ?s' = None \<and> pr_ctl ?s' = pr_ctl ?s"
    using assms(5) ok by (cases "pr_ctx_done ?s") (simp_all add: proc_step_def proc_ok_def)
  moreover have "ctl_reach any_schedule any_reg_schedule (pr_ctl ?s')" using s' ok by (simp add: proc_ok_def)
  ultimately obtain c where c: "proc_run returns (map PHandler ls) ?s' = ?s'\<lparr>pr_ctl := c\<rparr>"
    using handlers_run_on [of ?s' ls returns] assms(4) by auto
  then show ?thesis using s' assms(6) by (simp add: proc_step_def)
qed

end
