(* ===== verification/Cli_Session.thy ===== *)
theory Cli_Session
  imports Controller
begin

text \<open>
  The operator's command line at work: a program of \<open>cmd/outrelay-cli\<close> and the controller it calls. A run
  takes the program's arguments and the state of the controller to what the program prints and the
  state the call leaves when its handler has ended; None is a panic in a handler. Between the two lies a
  network and a deadline: a call may not get through, and its answer may not come back in time.

  What an operator relies on is shown here: an add, a list and a remove agree, a usage error never
  reaches the controller, and what the exit status tells, and what it does not.
\<close>

subsection \<open>A run\<close>

text \<open>
  How a call fares. It is answered within its deadline (\<open>context.WithTimeout\<close>, 5 seconds, 10 for a
  query); or it fails before its handler begins; or the handler runs and the client gets an error, since
  the connection breaks or the deadline passes. For a query the number says how many events had arrived.
\<close>

datatype rpc_link = Answered | Unreached string | Lost nat string

text \<open>What the controller's side draws on, the text of its errors, and the link to it.\<close>

record serve_env =
  sv_link :: rpc_link
  sv_env :: stmt_env
  sv_uuid :: string
  sv_scan :: "Policy list \<Rightarrow> Policy list"
  sv_rows :: "audit_row list \<Rightarrow> audit_row list"
  sv_send :: "nat \<Rightarrow> goerr option"
  sv_error :: "goerr \<Rightarrow> string"

fun heard :: "rpc_link \<Rightarrow> string + 'a \<Rightarrow> string + 'a" where
  "heard Answered r = r"
| "heard (Unreached m) r = Inl m"
| "heard (Lost n m) r = Inl m"

fun heard_stream :: "rpc_link \<Rightarrow> AuditEvent list \<times> string option \<Rightarrow> string + AuditEvent list \<times> string option" where
  "heard_stream Answered r = Inr r"
| "heard_stream (Unreached m) r = Inl m"
| "heard_stream (Lost n m) r = Inr (take n (fst r), Some m)"

fun cli_serve :: "serve_env \<Rightarrow> cli_step \<Rightarrow> Controller \<Rightarrow> (outcome \<times> Controller) option" where
  "cli_serve v (Over out) ct = Some (out, ct)"
| "cli_serve v (CallAdd addr req k) ct =
     (case sv_link v of
        Unreached m \<Rightarrow> Some (k (Inl m), ct)
      | link \<Rightarrow> map_option (\<lambda>(r, srv). (k (heard link (map_sum (sv_error v) id r)), with_policy ct srv))
                  (AddPolicy (sv_env v) (sv_uuid v) (policy_of ct) req))"
| "cli_serve v (CallList addr tenant k) ct =
     Some (k (heard (sv_link v) (map_sum (sv_error v) id (ListPolicies (sv_env v) (sv_scan v) (policy_of ct) tenant))), ct)"
| "cli_serve v (CallRemove addr req k) ct =
     (case sv_link v of
        Unreached m \<Rightarrow> Some (k (Inl m), ct)
      | link \<Rightarrow> map_option (\<lambda>(r, srv). (k (heard link (map_sum (sv_error v) id r)), with_policy ct srv))
                  (RemovePolicy (sv_env v) (policy_of ct) req))"
| "cli_serve v (CallQuery addr req k) ct =
     (case Query (sv_env v) (sv_rows v) (sv_send v) (audit_of ct) req of
        (err, evs) \<Rightarrow> Some (k (heard_stream (sv_link v) (evs, map_option (sv_error v) err)), ct))"

definition run_cli :: "cli_env \<Rightarrow> serve_env \<Rightarrow> string list \<Rightarrow> Controller \<Rightarrow> (outcome \<times> Controller) option" where
  "run_cli e v argv ct = cli_serve v (cli_main e argv) ct"

subsection \<open>Command lines\<close>

lemma flag_names:
  "flag_defaults policyAdd_flags n = Some w \<Longrightarrow> plain_name n"
  "flag_defaults policyList_flags n = Some w \<Longrightarrow> plain_name n"
  "flag_defaults policyRemove_flags n = Some w \<Longrightarrow> plain_name n"
  by (auto simp: flag_defaults_def policyAdd_flags_def policyList_flags_def policyRemove_flags_def controller_flag_def
      String_flag_def Duration_flag_def plain_name_def split: if_splits)

text \<open>The string flags of a command line and the value a flag ends up with.\<close>

definition spelt_for :: "FlagSet \<Rightarrow> (string \<times> string) list \<Rightarrow> bool" where
  "spelt_for fs opts \<longleftrightarrow> (\<forall>n \<in> fst ` set opts. \<exists>w. flag_defaults fs n = Some (FString w))"

definition chosen :: "FlagSet \<Rightarrow> (string \<times> string) list \<Rightarrow> string \<Rightarrow> string" where
  "chosen fs opts n = str_of (given opts (flag_defaults fs)) n"

lemma parsing_spelt:
  assumes "spells opts args" and "spelt_for fs opts" and "\<And>n w. flag_defaults fs n = Some w \<Longrightarrow> plain_name n"
  shows "parsing e fs args k = k (given opts (flag_defaults fs))"
  using parse_spelt [of opts args "flag_defaults fs"] assms
  by (fastforce simp: parsing_def FlagSet_Parse_def spelt_for_def)

lemma spelt_expires:
  assumes "spelt_for policyAdd_flags opts"
  shows "dur_of (given opts (flag_defaults policyAdd_flags)) ''expires'' = 0"
proof -
  have d: "flag_defaults policyAdd_flags ''expires'' = Some (FDuration 0)"
    by (simp add: flag_defaults_def policyAdd_flags_def controller_flag_def String_flag_def Duration_flag_def)
  then have "''expires'' \<notin> fst ` set opts" using assms unfolding spelt_for_def by fastforce
  then have "map_of (rev (map (\<lambda>(n, v). (n, FString v)) opts)) ''expires'' = None"
    by (auto simp: map_of_eq_None_iff rev_image_eqI)
  then show ?thesis using d by (simp add: dur_of_def given_def map_add_def)
qed

subsection \<open>Effect of the commands\<close>

text \<open>The client can be made, the call is answered in time, and the statements of the database succeed.\<close>

definition working :: "cli_env \<Rightarrow> serve_env \<Rightarrow> bool" where
  "working e v \<longleftrightarrow> (\<forall>addr. ce_NewClient e addr = None) \<and> sv_link v = Answered \<and> env_fail (sv_env v) = None \<and> is_scan (sv_scan v)"








text \<open>What is printed of a rule is the same before it is stored and after.\<close>

lemma line_words:
  "cli_p2pModeString (p2pModePB (p2pModeString m)) = cli_p2pModeString m"
  "cli_relayModeString (relayModePB (relayModeString k)) = cli_relayModeString k"
  "decision_word (decisionPB (decisionString d)) = decision_word d"
  by (cases m; simp add: p2pModePB_def)
     (simp_all add: cli_relayModeString_def relayModePB_def relayModeString_def decision_word_def decisionPB_def decisionString_def)


lemma add_run:
  assumes "working e v" and "controller_ok ct" and "spells opts args" and "spelt_for policyAdd_flags opts"
    and "policyAdd_request (ce_now e) (add_flags_of (given opts (flag_defaults policyAdd_flags))) = Inr req"
    and "\<And>p. p \<in> set (st_policies (ct_store ct)) \<Longrightarrow> po_id p \<noteq> sv_uuid v"
  shows "\<exists>r p ct'. apr_Rule req = Some r \<and> run_cli e v (''policy'' # ''add'' # args) ct = Some (prints [sv_uuid v], ct') \<and>
           controller_ok ct' \<and> ct_store ct' = (ct_store ct)\<lparr>st_policies := st_policies (ct_store ct) @ [p]\<rparr> \<and>
           po_id p = sv_uuid v \<and> po_tenant p = pr_Tenant r \<and> po_decision p = decisionString (pr_Decision r) \<and>
           policy_line (ce_rfc3339 e) (ce_quote e) (toPB p) = policy_line (ce_rfc3339 e) (ce_quote e) (r\<lparr>pr_Id := sv_uuid v\<rparr>)"
proof -
  obtain r where r: "apr_Rule req = Some r" "pr_Id r = ''''" "pr_Tenant r \<noteq> ''''" "pr_CallerPattern r \<noteq> ''''" "pr_TargetPattern r \<noteq> ''''"
    "pr_Decision r \<noteq> DECISION_UNSPECIFIED"
    using assms(5) by (auto simp: policyAdd_request_def Let_def split: if_splits prod.splits)
  let ?p = "policy_defaults (sv_env v) \<lparr>po_id = sv_uuid v, po_tenant = pr_Tenant r, po_caller_pattern = pr_CallerPattern r,
                     po_target_pattern = pr_TargetPattern r, po_method_pattern = pr_MethodPattern r,
                     po_decision = decisionString (pr_Decision r), po_expires = pr_ExpiresUnixMs r,
                     po_created_at = 0, po_p2p_mode = p2pModeString (pr_P2PMode r),
                     po_relay_mode = relayModeString (pr_RelayMode r)\<rparr>"
  let ?s = "(ct_store ct)\<lparr>st_policies := st_policies (ct_store ct) @ [?p]\<rparr>"
  have p: "po_id ?p = sv_uuid v" "po_tenant ?p = pr_Tenant r" "po_decision ?p = decisionString (pr_Decision r)" "policy_check ?p"
    by (cases "pr_P2PMode r"; simp add: policy_defaults_def policy_check_def Let_def decisionString_def relayModeString_def)+
  have fresh: "\<not> list_ex (\<lambda>q. po_id q = sv_uuid v) (st_policies (ct_store ct))" using assms(6) by (auto simp: list_ex_iff)
  have c: "AddPolicy_commit (sv_env v) (sv_uuid v) (policy_of ct) req = (Inr (r\<lparr>pr_Id := sv_uuid v\<rparr>), (policy_of ct)\<lparr>ps_store := ?s\<rparr>)"
    using r assms(1) fresh p unfolding AddPolicy_commit_def store_AddPolicy_def
    by (simp add: policy_of_def working_def Let_def)
  obtain x srv where x: "AddPolicy (sv_env v) (sv_uuid v) (policy_of ct) req = Some (x, srv)" "server_ok srv"
    using AddPolicy_keeps [OF controller_parts(2) [OF assms(2)]] by blast
  then have srv: "x = Inr (sv_uuid v)" "ps_store srv = ?s"
    using c by (auto simp: AddPolicy_def dest!: policy_publish_frame)
  have "run_cli e v (''policy'' # ''add'' # args) ct = Some (prints [sv_uuid v], with_policy ct srv)"
    using assms(1,5) x srv(1) parsing_spelt [OF assms(3,4) flag_names(1)]
    by (simp add: run_cli_def cli_main_def policyMain_def policyAdd_def dial_def working_def)
  moreover have "controller_ok (with_policy ct srv)"
    using assms(2) x(2) srv(2) by (simp add: controller_ok_def with_policy_def server_ok_def canonical_ids_def)
  moreover have "policy_line (ce_rfc3339 e) (ce_quote e) (toPB ?p) = policy_line (ce_rfc3339 e) (ce_quote e) (r\<lparr>pr_Id := sv_uuid v\<rparr>)"
    by (simp add: toPB_def policy_defaults_def policy_line_def line_words)
  ultimately show ?thesis using r(1) p srv(2) by (intro exI [of _ r] exI [of _ ?p] exI [of _ "with_policy ct srv"]) (simp add: with_policy_def)
qed

subsection \<open>Properties\<close>


definition demo_cli :: cli_env where
  "demo_cli = \<lparr>ce_now = 0, ce_rfc3339 = (\<lambda>_. ''T''), ce_quote = (\<lambda>s. ''\"'' @ s @ ''\"''), ce_frac = (\<lambda>_ _ _. 0), ce_NewClient = (\<lambda>_. None)\<rparr>"

definition demo_serve :: serve_env where
  "demo_serve = \<lparr>sv_link = Answered, sv_env = ok_env 5, sv_uuid = ''u1'', sv_scan = id, sv_rows = id, sv_send = (\<lambda>_. None), sv_error = (\<lambda>_. ''failed'')\<rparr>"

definition demo_opts :: "(string \<times> string) list" where
  "demo_opts = [(''tenant'', ''x''), (''caller'', ''*''), (''tenant'', ''acme''), (''target'', ''db''), (''decision'', ''DENY'')]"

definition demo_args :: "string list" where
  "demo_args = [''-tenant'', ''x'', ''--caller'', ''*'', ''--tenant=acme'', ''-target=db'', ''--decision'', ''DENY'']"

lemma demo_spelt: "spells demo_opts demo_args" "spelt_for policyAdd_flags demo_opts"
proof -
  show "spells demo_opts demo_args"
    using spells_two [of "''-''" "tl demo_opts" "tl (tl demo_args)" "''tenant''" "''x''"]
      spells_one [of "''--''" "drop 3 demo_opts" "drop 5 demo_args" "''tenant''" "''acme''"]
      spells_one [of "''-''" "drop 4 demo_opts" "drop 6 demo_args" "''target''" "''db''"]
    by (simp add: demo_opts_def demo_args_def)
  show "spelt_for policyAdd_flags demo_opts"
    by (simp add: spelt_for_def demo_opts_def flag_defaults_def policyAdd_flags_def controller_flag_def String_flag_def Duration_flag_def)
qed

lemma demo_controller: "controller_ok (controller_New empty_store)" "st_policies (ct_store (controller_New empty_store)) = []"
  by (simp_all add: controller_ok_def controller_New_def Let_def registry_New_def policy_New_def hub_wf_new store_wf_def canonical_ids_def empty_store_def)

lemma demo_working: "working demo_cli demo_serve"
  by (simp add: working_def demo_cli_def demo_serve_def is_scan_def ok_env_def)

lemma demo_flags:
  "add_flags_of (given demo_opts (flag_defaults policyAdd_flags)) =
     \<lparr>af_tenant = ''acme'', af_caller = ''*'', af_target = ''db'', af_method = '''', af_decision = ''DENY'', af_expires = 0,
      af_p2pMode = '''', af_relayMode = ''''\<rparr>"
  by (simp add: demo_opts_def add_flags_of_def str_of_def dur_of_def flag_defaults_def policyAdd_flags_def controller_flag_def
      String_flag_def Duration_flag_def)

lemma demo_request:
  "\<exists>req. policyAdd_request (ce_now demo_cli) (add_flags_of (given demo_opts (flag_defaults policyAdd_flags))) = Inr req \<and>
     (\<forall>r. apr_Rule req = Some r \<longrightarrow> pr_Tenant r = ''acme'')"
  unfolding demo_flags by (simp add: policyAdd_request_def parseP2PMode_def parseRelayMode_def TrimSpace_def ToLower_def)


text \<open>Every way the program can go: it is over with a known status, or it has made a call.\<close>

fun step_ok :: "cli_env \<Rightarrow> cli_step \<Rightarrow> bool" where
  "step_ok e (Over out) \<longleftrightarrow> oc_status out \<in> {0, 1, 2} \<and> (oc_status out \<noteq> 0 \<longrightarrow> oc_stdout out = [] \<and> oc_stderr out \<noteq> [])"
| "step_ok e (CallAdd addr req k) \<longleftrightarrow> k = add_answer"
| "step_ok e (CallList addr t k) \<longleftrightarrow> k = list_answer (ce_rfc3339 e) (ce_quote e)"
| "step_ok e (CallRemove addr req k) \<longleftrightarrow> k = remove_answer"
| "step_ok e (CallQuery addr req k) \<longleftrightarrow> k = query_answer (ce_rfc3339 e) (ce_quote e)"

lemma outcome_simps [simp]:
  "oc_status (fails st ls) = st" "oc_stderr (fails st ls) = ls" "oc_stdout (fails st ls) = []"
  "oc_status (prints ls) = 0" "oc_stderr (prints ls) = []" "oc_stdout (prints ls) = ls"
  by (simp_all add: fails_def prints_def)

lemma parsing_ok: "(\<And>vs. step_ok e (k vs)) \<Longrightarrow> step_ok e (parsing e fs args k)"
  by (auto simp: parsing_def FlagSet_Parse_def dest: parse_flags_exit split: sum.splits prod.splits)

lemma dial_ok: "step_ok e k \<Longrightarrow> step_ok e (dial e addr k)"
  by (auto simp: dial_def split: option.splits)

lemma usage_nonempty [simp]: "usage_text \<noteq> []"
  by (simp add: usage_text_def)

lemma policyAdd_request_fails: "policyAdd_request now f = Inl out \<Longrightarrow> step_ok e (Over out)"
  by (auto simp: policyAdd_request_def Let_def split: if_splits prod.splits)

lemma commands_ok: "step_ok e (policyMain e args)" "step_ok e (auditMain e args)"
proof -
  have "step_ok e (policyAdd e as)" for as
    unfolding policyAdd_def by (intro parsing_ok) (auto intro!: dial_ok simp del: step_ok.simps(1) dest: policyAdd_request_fails split: sum.splits)
  moreover have "step_ok e (policyList e as)" "step_ok e (policyRemove e as)" for as
    unfolding policyList_def policyRemove_def by (intro parsing_ok; auto intro!: dial_ok)+
  ultimately show "step_ok e (policyMain e args)" by (auto simp: policyMain_def split: list.splits)
  show "step_ok e (auditMain e args)"
    unfolding auditMain_def by (auto split: list.splits intro!: parsing_ok dial_ok)
qed

lemma cli_main_ok: "step_ok e (cli_main e argv)"
  using commands_ok by (auto simp: cli_main_def split: list.splits)

lemma with_policy_of [simp]: "with_policy ct (policy_of ct) = ct"
  by (simp add: with_policy_def policy_of_def)

lemma AddPolicy_err: "AddPolicy env u srv req = Some (Inl x, srv') \<Longrightarrow> srv' = srv"
  by (auto simp: AddPolicy_def dest: AddPolicy_commit_err split: prod.splits sum.splits)

lemma RemovePolicy_err: "RemovePolicy env srv req = Some (r, srv') \<Longrightarrow> r \<noteq> Inr True \<Longrightarrow> srv' = srv"
proof -
  assume a: "RemovePolicy env srv req = Some (r, srv')" "r \<noteq> Inr True"
  obtain b srv1 where c: "RemovePolicy_commit env srv req = (b, srv1)" by fastforce
  show ?thesis
  proof (cases b)
    case (Inl x)
    then show ?thesis using a c RemovePolicy_commit_err [of env srv req x srv1] by (simp add: RemovePolicy_def)
  next
    case (Inr removed)
    then have "srv' = srv1" "\<not> removed" using a c by (auto simp: RemovePolicy_def split: if_splits)
    then show ?thesis using c Inr
      by (auto simp: RemovePolicy_commit_def store_RemovePolicy_def Let_def filter_empty_conv filter_id_conv intro!: PolicyServer.equality
          split: option.splits)
  qed
qed

lemma recv_loop_end:
  "oc_status (recv_loop rfc3339 quote evs err printed) = (if err = None then 0 else 1) \<and>
   oc_stdout (recv_loop rfc3339 quote evs err printed) = printed @ map (audit_line rfc3339 quote) evs \<and>
   (err \<noteq> None \<longrightarrow> oc_stderr (recv_loop rfc3339 quote evs err printed) \<noteq> [])"
  by (induction rfc3339 quote evs err printed rule: recv_loop.induct) auto

text \<open>An unary call whose answer is lost leaves what it leaves when it is answered, and is reported as an error.\<close>

lemma add_served:
  assumes "controller_ok ct"
  shows "\<exists>out ct'. cli_serve v (CallAdd addr req add_answer) ct = Some (out, ct') \<and> controller_ok ct' \<and>
     (oc_status out = 0 \<or> oc_status out = 1 \<and> oc_stderr out \<noteq> [] \<and>
        (ct' = ct \<or> (\<exists>n m i. sv_link v = Lost n m \<and> cli_serve (v\<lparr>sv_link := Answered\<rparr>) (CallAdd addr req add_answer) ct = Some (prints [i], ct'))))"
proof -
  obtain ct' where x: "api_exec (ApiAddPolicy (sv_env v) (sv_uuid v) req) ct = Some ct'" "controller_ok ct'"
    using api_exec_keeps [OF assms, of "ApiAddPolicy (sv_env v) (sv_uuid v) req"] by auto
  then obtain r srv where a: "AddPolicy (sv_env v) (sv_uuid v) (policy_of ct) req = Some (r, srv)" "ct' = with_policy ct srv" by auto
  have "ct' = ct" if "r = Inl err" for err using AddPolicy_err [of "sv_env v" "sv_uuid v" "policy_of ct" req err srv] a that by simp
  then show ?thesis using a x(2) assms by (cases r; cases "sv_link v") auto
qed

lemma remove_served:
  assumes "controller_ok ct"
  shows "\<exists>out ct'. cli_serve v (CallRemove addr req remove_answer) ct = Some (out, ct') \<and> controller_ok ct' \<and>
     (oc_status out = 0 \<or> oc_status out = 1 \<and> oc_stderr out \<noteq> [] \<and>
        (ct' = ct \<or> (\<exists>n m. sv_link v = Lost n m \<and> cli_serve (v\<lparr>sv_link := Answered\<rparr>) (CallRemove addr req remove_answer) ct = Some (prints [''removed''], ct'))))"
proof -
  obtain ct' where x: "api_exec (ApiRemovePolicy (sv_env v) req) ct = Some ct'" "controller_ok ct'"
    using api_exec_keeps [OF assms, of "ApiRemovePolicy (sv_env v) req"] by auto
  then obtain r srv where a: "RemovePolicy (sv_env v) (policy_of ct) req = Some (r, srv)" "ct' = with_policy ct srv" by auto
  have "ct' = ct" if "r \<noteq> Inr True" using RemovePolicy_err [OF a(1) that] a(2) by simp
  then show ?thesis using a x(2) assms by (cases r; cases "sv_link v") auto
qed

lemma query_served:
  "\<exists>out. cli_serve v (CallQuery addr req (query_answer rfc3339 quote)) ct = Some (out, ct) \<and>
     (oc_status out = 0 \<or> oc_status out = 1 \<and> oc_stderr out \<noteq> [])"
proof -
  obtain err evs where q: "Query (sv_env v) (sv_rows v) (sv_send v) (audit_of ct) req = (err, evs)" by fastforce
  show ?thesis
    using recv_loop_end [of rfc3339 quote evs "map_option (sv_error v) err" "[]"] recv_loop_end [of rfc3339 quote "take n evs" "Some m" "[]" for n m]
    by (cases "sv_link v") (auto simp: q split: if_splits)
qed

text \<open>
  C40. What the exit status tells: whatever the arguments and however the call fares on the network, the
  program ends without a panic of the controller and with status 0, 1 or 2, and the controller's
  invariant holds afterwards. With a status other than 0 it has said why on standard error, and the
  controller is unchanged, except in one case: with status 1, when the answer to the call was lost or
  came after the deadline, the controller may be as the same call leaves it when it is answered with
  success. So after status 1 a rule may have been added or removed.
\<close>

theorem cli_exit_status:
  assumes "controller_ok ct"
  shows "\<exists>out ct'. run_cli e v argv ct = Some (out, ct') \<and> controller_ok ct' \<and> oc_status out \<in> {0, 1, 2} \<and>
           (oc_status out \<noteq> 0 \<longrightarrow> oc_stderr out \<noteq> [] \<and>
              (ct' = ct \<or> oc_status out = 1 \<and>
                 (\<exists>n m out0. sv_link v = Lost n m \<and> run_cli e (v\<lparr>sv_link := Answered\<rparr>) argv ct = Some (out0, ct') \<and> oc_status out0 = 0)))"
proof (cases "cli_main e argv")
  case (Over out)
  then show ?thesis using cli_main_ok [of e argv] assms by (auto simp: run_cli_def)
next
  case (CallAdd addr req k)
  have "k = add_answer" using CallAdd cli_main_ok [of e argv] by simp
  then show ?thesis using add_served [OF assms, of v addr req] unfolding run_cli_def CallAdd by fastforce
next
  case (CallList addr t k)
  have k: "k = list_answer (ce_rfc3339 e) (ce_quote e)" using CallList cli_main_ok [of e argv] by simp
  show ?thesis
    by (cases "sv_link v"; cases "ListPolicies (sv_env v) (sv_scan v) (policy_of ct) t") (use CallList k assms in \<open>auto simp: run_cli_def\<close>)
next
  case (CallRemove addr req k)
  have "k = remove_answer" using CallRemove cli_main_ok [of e argv] by simp
  then show ?thesis using remove_served [OF assms, of v addr req] unfolding run_cli_def CallRemove by fastforce
next
  case (CallQuery addr req k)
  have "k = query_answer (ce_rfc3339 e) (ce_quote e)" using CallQuery cli_main_ok [of e argv] by simp
  then show ?thesis using query_served [of v addr req "ce_rfc3339 e" "ce_quote e" ct] assms unfolding run_cli_def CallQuery by fastforce
qed

text \<open>
  The exception does occur: a policy add whose answer is lost ends with status 1, and the rule is stored. A
  second try stores a second rule, since the id is drawn by the controller.
\<close>

lemma cli_lost_add_stores:
  assumes "working e (v\<lparr>sv_link := Answered\<rparr>)" and "sv_link v = Lost n m" and "controller_ok ct" and "spells opts args"
    and "spelt_for policyAdd_flags opts" and "policyAdd_request (ce_now e) (add_flags_of (given opts (flag_defaults policyAdd_flags))) = Inr req"
    and "\<And>p. p \<in> set (st_policies (ct_store ct)) \<Longrightarrow> po_id p \<noteq> sv_uuid v"
  shows "\<exists>p ct'. run_cli e v (''policy'' # ''add'' # args) ct = Some (fails 1 [''error: '' @ m], ct') \<and>
           st_policies (ct_store ct') = st_policies (ct_store ct) @ [p] \<and> po_id p = sv_uuid v"
proof -
  obtain p ct' where a: "run_cli e (v\<lparr>sv_link := Answered\<rparr>) (''policy'' # ''add'' # args) ct = Some (prints [sv_uuid v], ct')"
    "ct_store ct' = (ct_store ct)\<lparr>st_policies := st_policies (ct_store ct) @ [p]\<rparr>" "po_id p = sv_uuid v"
    using add_run [OF assms(1,3-6)] assms(7) by auto
  have c: "cli_main e (''policy'' # ''add'' # args) =
      CallAdd (str_of (given opts (flag_defaults policyAdd_flags)) ''controller'') req add_answer"
    using assms(1,6) parsing_spelt [OF assms(4,5) flag_names(1)]
    by (simp add: cli_main_def policyMain_def policyAdd_def dial_def working_def)
  have "run_cli e v (''policy'' # ''add'' # args) ct = Some (fails 1 [''error: '' @ m], ct')"
    using a(1) assms(2) by (auto simp: run_cli_def c)
  then show ?thesis using a(2,3) by auto
qed

theorem cli_exit_status_witness:
  "\<exists>out ct' out0. run_cli demo_cli (demo_serve\<lparr>sv_link := Lost 0 ''deadline exceeded''\<rparr>) (''policy'' # ''add'' # demo_args) (controller_New empty_store)
       = Some (out, ct') \<and> oc_status out = 1 \<and> oc_stderr out \<noteq> [] \<and> length (st_policies (ct_store ct')) = 1 \<and>
     run_cli demo_cli demo_serve (''policy'' # ''add'' # demo_args) (controller_New empty_store) = Some (out0, ct') \<and> oc_status out0 = 0"
proof -
  let ?v = "demo_serve\<lparr>sv_link := Lost 0 ''deadline exceeded''\<rparr>" and ?argv = "''policy'' # ''add'' # demo_args" and ?ct = "controller_New empty_store"
  have v: "?v\<lparr>sv_link := Answered\<rparr> = demo_serve" by (simp add: demo_serve_def)
  obtain req where req: "policyAdd_request (ce_now demo_cli) (add_flags_of (given demo_opts (flag_defaults policyAdd_flags))) = Inr req"
    using demo_request by blast
  have "\<exists>p ct'. run_cli demo_cli ?v ?argv ?ct = Some (fails 1 [''error: '' @ ''deadline exceeded''], ct') \<and>
      st_policies (ct_store ct') = st_policies (ct_store ?ct) @ [p] \<and> po_id p = sv_uuid ?v"
    by (rule cli_lost_add_stores [OF _ _ demo_controller(1) demo_spelt req]) (simp_all add: v demo_working demo_controller(2))
  then obtain ct' where r: "run_cli demo_cli ?v ?argv ?ct = Some (fails 1 [''error: '' @ ''deadline exceeded''], ct')"
    and l: "length (st_policies (ct_store ct')) = 1" by (auto simp: demo_controller(2))
  have "ct' \<noteq> ?ct" using l by (auto simp: demo_controller(2))
  with cli_exit_status [OF demo_controller(1), of demo_cli ?v ?argv] r l v show ?thesis by auto
qed

subsection \<open>A misspelt decision\<close>

lemma policyAdd_accepts:
  assumes "af_tenant f \<noteq> ''''" and "af_caller f \<noteq> ''''" and "af_target f \<noteq> ''''" and "af_decision f \<noteq> ''''"
    and "snd (parseP2PMode (af_p2pMode f))" and "snd (parseRelayMode (af_relayMode f))"
  shows "\<exists>req. policyAdd_request now f = Inr req"
  using assms by (cases "parseP2PMode (af_p2pMode f)"; cases "parseRelayMode (af_relayMode f)") (simp add: policyAdd_request_def Let_def)

text \<open>
  C39. A misspelt decision allows: \<open>policy add\<close> checks only that \<open>--decision\<close> is present. With any word
  other than deny in any case, and with the other required flags and valid modes, in any order and
  spelling, the program accepts it, prints the new id, and the controller then has an allow rule
  (calls answered in time, a working database and an unused id from the random source).
\<close>

theorem cli_misspelt_decision_allows:
  assumes "controller_ok ct" and "working e v" and "spells opts args" and "spelt_for policyAdd_flags opts"
    and "\<not> EqualFold (chosen policyAdd_flags opts ''decision'') ''deny''" and "chosen policyAdd_flags opts ''decision'' \<noteq> ''''"
    and "chosen policyAdd_flags opts ''tenant'' \<noteq> ''''" and "chosen policyAdd_flags opts ''caller'' \<noteq> ''''" and "chosen policyAdd_flags opts ''target'' \<noteq> ''''"
    and "snd (parseP2PMode (chosen policyAdd_flags opts ''p2p-mode''))" and "snd (parseRelayMode (chosen policyAdd_flags opts ''relay-mode''))"
    and "\<And>p. p \<in> set (st_policies (ct_store ct)) \<Longrightarrow> po_id p \<noteq> sv_uuid v"
  shows "\<exists>ct' r. run_cli e v (''policy'' # ''add'' # args) ct = Some (prints [sv_uuid v], ct') \<and>
           tenant_rules (ct_store ct') (chosen policyAdd_flags opts ''tenant'') (sv_uuid v) = Some r \<and> pr_Decision r = DECISION_ALLOW"
proof -
  let ?f = "add_flags_of (given opts (flag_defaults policyAdd_flags))"
  obtain req where req: "policyAdd_request (ce_now e) ?f = Inr req"
    using policyAdd_accepts [of ?f "ce_now e"] assms(6-11) by (auto simp: add_flags_of_def chosen_def)
  obtain r0 where r0: "apr_Rule req = Some r0" "pr_Tenant r0 = chosen policyAdd_flags opts ''tenant''" "pr_Decision r0 = DECISION_ALLOW"
    using policyAdd_decision [OF req] assms(5) by (auto simp: add_flags_of_def chosen_def)
  obtain p ct' where x: "run_cli e v (''policy'' # ''add'' # args) ct = Some (prints [sv_uuid v], ct')" "controller_ok ct'"
    "ct_store ct' = (ct_store ct)\<lparr>st_policies := st_policies (ct_store ct) @ [p]\<rparr>"
    "po_id p = sv_uuid v" "po_tenant p = pr_Tenant r0" "po_decision p = decisionString (pr_Decision r0)"
    using add_run [OF assms(2,1,3,4) req assms(12)] r0(1) by auto
  have "map_of (map (\<lambda>p. (po_id p, canon_rule (toPB p))) (filter (\<lambda>p. po_tenant p = t) (st_policies (ct_store ct)))) (sv_uuid v) = None" for t
    using assms(12) by (fastforce simp: map_of_eq_None_iff)
  then have "tenant_rules (ct_store ct') (pr_Tenant r0) (sv_uuid v) = Some (canon_rule (toPB p))"
    using x(3-5) by (simp add: tenant_rules_def map_add_def)
  moreover have "pr_Decision (canon_rule (toPB p)) = DECISION_ALLOW"
    using x(6) r0(3) by (simp add: canon_rule_def toPB_def decisionString_def decisionPB_def)
  ultimately show ?thesis using x(1) r0(2) by auto
qed

definition misspelt_opts :: "(string \<times> string) list" where
  "misspelt_opts = [(''tenant'', ''acme''), (''caller'', ''*''), (''target'', ''db''), (''decision'', ''dney'')]"

theorem cli_misspelt_decision_allows_witness:
  "\<exists>ct' r. run_cli demo_cli demo_serve
       [''policy'', ''add'', ''--tenant'', ''acme'', ''--caller'', ''*'', ''--target'', ''db'', ''--decision'', ''dney''] (controller_New empty_store)
         = Some (prints [''u1''], ct') \<and>
     tenant_rules (ct_store ct') ''acme'' ''u1'' = Some r \<and> pr_Decision r = DECISION_ALLOW"
proof -
  let ?args = "[''--tenant'', ''acme'', ''--caller'', ''*'', ''--target'', ''db'', ''--decision'', ''dney'']"
  have s: "spells misspelt_opts ?args" by (simp add: misspelt_opts_def)
  have f: "spelt_for policyAdd_flags misspelt_opts"
    by (simp add: spelt_for_def misspelt_opts_def flag_defaults_def policyAdd_flags_def controller_flag_def String_flag_def Duration_flag_def)
  have c: "chosen policyAdd_flags misspelt_opts ''decision'' = ''dney''" "chosen policyAdd_flags misspelt_opts ''tenant'' = ''acme''"
    "chosen policyAdd_flags misspelt_opts ''caller'' = ''*''" "chosen policyAdd_flags misspelt_opts ''target'' = ''db''"
    "chosen policyAdd_flags misspelt_opts ''p2p-mode'' = ''''" "chosen policyAdd_flags misspelt_opts ''relay-mode'' = ''''"
    by (simp_all add: chosen_def misspelt_opts_def str_of_def flag_defaults_def policyAdd_flags_def controller_flag_def String_flag_def Duration_flag_def)
  have d: "\<not> EqualFold ''dney'' ''deny''" by (simp add: EqualFold_def ToLower_def lower_char_def)
  have m: "snd (parseP2PMode '''')" "snd (parseRelayMode '''')" by (simp_all add: parseP2PMode_def parseRelayMode_def TrimSpace_def ToLower_def)
  from cli_misspelt_decision_allows [OF demo_controller(1) demo_working s f, unfolded c, OF d _ _ _ _ m]
  show ?thesis by (simp add: demo_controller demo_serve_def)
qed

end
