(* ===== verification/Spec2Isabelle.thy ===== *)
theory Spec2Isabelle
  imports Frame Stream_FSM Resume_Concurrent Metrics_Concurrent Stream_ID Identity Store Enroll_Concurrent Rotator_Concurrent Accept_Concurrent Smoke_Pki
    Controller_Recovery Controller_Stop Cli_Session
begin

text \<open>
  A verification library for OutRelay, a relay service mesh: agents register services with a
  controller and reach each other through relays, over QUIC or TCP, with streams that survive the
  loss of a relay. This repository holds the protocol library (\<open>lib/\<close>), the controller
  (\<open>pkg/\<close>, \<open>cmd/outrelay-controller\<close>), the operator's command line (\<open>cmd/outrelay-cli\<close>) and three
  offline tools (\<open>tools/\<close>, \<open>tests/terraform/scripts/smoke-pki\<close>); the relay and the agent that use the library are elsewhere.

  \<^bold>\<open>The parts and their theories.\<close>

  \<^item> \<open>Prelude\<close>: errors as values (\<open>Sentinel\<close>, \<open>Wrap\<close>, \<open>Fresh\<close> and \<open>errors.Is\<close>), results \<open>'a res\<close>, the
    wrap-around of int64, and the lists and strings lemmas the components share. The locale \<open>refinement_map\<close>
    carries the reachable states of a system to those of a part of it; the locale \<open>interleaving\<close> carries an
    invariant of the single actions to every schedule of them.
  \<^item> \<open>Flags\<close>: Go's \<open>flag\<close> package and the conversions behind it, as the programs use them.
  \<^item> \<open>Frame\<close> (\<open>lib/orp/frame.go\<close>, \<open>codec.go\<close>, \<open>version.go\<close>): the header on machine words, the encoder,
    the parser over a reader that returns pieces, the protobuf wrappers.
  \<^item> \<open>Stream_FSM\<close> (\<open>lib/orp/stream.go\<close>): the stream's states, events and \<open>Apply\<close>; the documented table
    is an inductive relation.
  \<^item> \<open>Ring\<close> and \<open>Resume\<close> (\<open>lib/resume/ringbuffer.go\<close>, \<open>stream.go\<close>): the adaptive ring of unacknowledged
    bytes and the counters of a stream. The locale \<open>resend_log\<close> is what \<open>Resume\<close> relies on; the ring
    interprets it. \<open>Resume_Concurrent\<close>: the same calls cut into their atomic actions.
  \<^item> \<open>Stream_ID\<close> (\<open>lib/resume/streamid.go\<close>): the bytes that are hashed into a stream id.
  \<^item> \<open>Identity\<close> (\<open>lib/identity/name.go\<close>) and \<open>Rotator\<close> (\<open>lib/identity/rotator.go\<close>): names and their URI
    form; the certificate a process holds and its renewal. \<open>Rotator_Concurrent\<close>: \<open>Run\<close>, \<open>Subscribe\<close> and the
    subscribers as interleaved actions.
  \<^item> \<open>Pki\<close> (\<open>pkg/pki\<close>): the certificate authority and the one-shot enrollment tokens. \<open>Enroll_Concurrent\<close>:
    concurrent calls of \<open>Verify\<close>.
  \<^item> \<open>Store\<close> (\<open>pkg/registry/store/sqlite.go\<close>): the tables with the schema's constraints and every
    statement of the store. The locale \<open>upsert_table\<close> has the laws of a keyed table with
    \<open>ON CONFLICT DO UPDATE\<close>; agents, relays and services interpret it.
  \<^item> \<open>Control\<close> (\<open>lib/control/v1\<close>): the messages of the control API the handlers read and write.
  \<^item> \<open>Hub\<close>: the watcher map and channels that the registry and the policy server both contain, with the
    locale \<open>event_feed\<close> that states what a Watch stream relies on.
  \<^item> \<open>Policy_Server\<close> (\<open>pkg/policy/server.go\<close>), \<open>Registry_Server\<close> (\<open>pkg/registry/server.go\<close>) and
    \<open>Audit_Server\<close> (\<open>pkg/audit/server.go\<close>): the three services. A Watch handler is a session with a
    control point; each interprets \<open>event_feed\<close> with its own filter.
  \<^item> \<open>Policy_Concurrent\<close> and \<open>Registry_Concurrent\<close>: the same handlers cut into their atomic actions, and
    schedules that interleave the actions of any number of calls and Watch sessions.
  \<^item> \<open>Metrics\<close> (\<open>lib/observe/metric.go\<close>, \<open>dumper.go\<close>): counters, gauges, histograms, the registry of named
    metrics with its double-checked creation (locale \<open>named_objects\<close>, three interpretations), the dumper.
    \<open>Metrics_Concurrent\<close>: a histogram under concurrent observers and snapshots.
  \<^item> \<open>Debug_Http\<close> (\<open>lib/observe/http.go\<close>): the routes of the debug server, the metrics handler, the start of
    the server.
  \<^item> \<open>Transport\<close> (\<open>lib/transport\<close>): connection setup over QUIC and TCP and the accept side of yamux.
    \<open>Carrier\<close> (\<open>conn.go\<close>): the Dialer, Listener, Conn and Stream interfaces over it; the locale \<open>dialer\<close> is
    interpreted by the three dialers. \<open>Accept_Concurrent\<close>: any number of calls of Accept on one TCP listener,
    with their goroutines, contexts and clients.
  \<^item> \<open>Cli\<close>, \<open>Tools\<close>, \<open>Smoke_Pki\<close>: the command line, \<open>tools/correlate\<close> and \<open>tools/dev-pki\<close>, and the PKI tool
    of the smoke test (\<open>tests/terraform/scripts/smoke-pki\<close>).
  \<^item> \<open>Controller\<close> (\<open>cmd/outrelay-controller/main.go\<close>): one store and one metrics registry under the three
    services; a call of the API runs one handler on the shared store. \<open>Controller_Concurrent\<close>: the calls of all
    three services interleaved over the one store; \<open>refinement_map\<close> is interpreted twice, once for each
    service with Watch streams. \<open>Controller_Main\<close>: the start of the process from its arguments.
    \<open>Controller_Stop\<close>: serving, signals, the stop and the exit, with the handlers' interleaved actions.
    \<open>Controller_Recovery\<close>: the process started again and again on one database after crashes in the middle of
    the interleaved calls.
  \<^item> \<open>Cli_Session\<close>: runs of the command line, from its arguments, against the controller, over a network
    that may lose the call or its answer.

  \<^bold>\<open>How code becomes definitions.\<close> A Go struct is a record, an enum a datatype, a method
  a function from the state to the result and the new state. An error is \<open>Inl e\<close>; a panic (a
  send on a closed channel, a second close) is None, so that "does not panic" is a theorem. A statement of
  the database takes a \<open>stmt_env\<close>: the clock, whether the driver fails, and for a query whether it does so
  at once or while its rows are read; a query without
  \<open>ORDER BY\<close> takes a \<open>scan\<close>, any permutation of the rows. int64 positions and
  counters have their wrap-around written out (\<open>i64\<close>), header fields are words. Where a handler
  holds no lock across two effects (the commit and the broadcast of AddPolicy, the listing and the
  registration of Watch, the SELECT and the DELETE of DeregisterAgent) the two effects are two definitions,
  and the handler is their composition; the theorems about interleavings put another call in between.
  \<open>conc_exec\<close> and \<open>reg_conc_exec\<close> keep the calls that are between two effects as
  data, and the reachable states are those of every schedule (\<open>conc_reach\<close>,
  \<open>reg_conc_reach\<close>, with a predicate on the schedules); whole calls are special schedules
  (\<open>policy_reach_schedule\<close>, \<open>whole_RegisterService\<close>,
  \<open>whole_DeregisterAgent\<close>). \<open>ctl_exec\<close> runs those actions, and the two of an audit
  record, on the controller's one store; what a service does there is what it does alone on the tables it
  uses, so its theorems carry over. Where fields are atomics without a lock, the action is the single load,
  add or store (\<open>stream_exec\<close>, \<open>hist_exec\<close>), and where a mutex covers a part of a
  call, that part is one action (\<open>rot_exec\<close>, \<open>enroll_exec\<close>); ghost fields record what was asked
  for. The four systems interpret \<open>interleaving\<close> with their invariants. \<open>accept_exec\<close> has the steps of the
  goroutine of an Accept and both cases of its select. \<open>proc_event_step\<close> has the events of the process; when
  GracefulStop and Serve return is its parameter \<open>returns\<close>. A crash
  (\<open>ctl_life\<close>) keeps the tables of a durable database and nothing else, since SQLite commits every
  statement. Memory is sequentially consistent, as Go's atomics are. A program with arguments is a function of
  them: the flags are parsed by \<open>Flags\<close>, the command line's remote call is a constructor of
  \<open>cli_step\<close> with the rest of the program as a function of the answer, and
  \<open>run_cli\<close> lets the controller's handler give the answer; an \<open>rpc_link\<close> says whether the call got
  through and whether its answer came back before the deadline. Loops over data are structural
  recursion, and \<open>io.ReadFull\<close>, flag parsing and duration parsing terminate by the input left;
  there is no fuel. Event loops (Watch, Rotator.Run, Dumper.Run) are step functions or folds over the
  sequence of what the environment does.

  \<^bold>\<open>What is shown.\<close> Wire format: parsing inverts encoding, for every fragmentation, what
  comes out fits the fields, and a whole conversation of messages is read back in order. Resume:
  retransmission is complete and sound, and a failover delivers every byte exactly once while the
  unacknowledged bytes fit the ring, under every interleaving of the calls of a stream; the ring stays
  within its bounds. Streams: the machine is the documented table and its life is bounded. Identities: names
  round-trip and only well-formed ones are parsed; a certificate names who asked; a token is accepted while
  it is valid and enrolls exactly once, however many present it at once; the rotator renews before expiry,
  no subscriber is left with an old certificate and none holds up the renewal. Store and services: the constraints hold
  in every reachable state; registering, resolving, deregistering, listing and querying do what they say.
  Under every interleaving of the calls of all services the controller does not panic and keeps its
  invariant, a call changes its own tenant's data only, and a Watch session that names a tenant is sent
  only what was stored for it (one that names none is sent everything); under schedules without the named races the events a session was sent give exactly what the
  shared store has, for everything that is not in flight; drops are never silent. After a crash at any point
  a relay that watches anew is brought in step with all that was committed. Metrics: concurrent
  observers lose nothing, and a snapshot invents nothing. Transport: every dialer offers the protocol and
  leaves the rest of the TLS configuration alone. Debug server: at most one redirect, and the metrics page
  counts the audit events, under load too. A controller that ends with status 0 does so
  after a signal, with no handler running and its store closed. Command line: an add, a list and a remove agree from the arguments, however they are spelt, to the
  printed lines, and a failure has changed nothing unless the answer of the call was lost. Some theorems show where the code departs from its comments or loses data: a
  lost and a reordered policy update, a lost deregistration event, a late announcement of a service, an
  acknowledged position that goes back, a torn histogram snapshot, a negative expiry that means never, a
  silent client for each Accept that holds up the TCP listener, a checkpoint beyond the end, a misspelt
  decision that allows, a rule stored by a command that failed, a cancelled accept that swallows a stream,
  a watcher that holds up the controller's stop for as long as it stays.

  \<^bold>\<open>Parameters.\<close> Code that is not in the repository is an argument: the protobuf, UUID, URL, X.509 and
  JWT libraries, the hash of stream ids, the random source, the network, yamux and quic-go, the JSON
  encoder, float arithmetic, the rendering of times and quoted strings. Where a theorem needs something of
  one of them it is a named hypothesis (\<open>url_lib_ok\<close>, \<open>uuid_lib_ok\<close>, \<open>csr_lib_ok\<close>, \<open>jwt_lib_ok\<close>,
  \<open>date_ok\<close>, \<open>is_scan\<close>, \<open>graceful_stop\<close>, and \<open>durable\<close> of a DSN), and the
  theorem's witness instantiates it with a concrete function.

  \<^bold>\<open>Not modelled.\<close> Logging; the generated protobuf and gRPC code beyond the message
  types, and with it the transport of calls and messages beyond its outcome; back quotes in the usage of a flag; what the pprof
  handlers write; timers and deadlines inside quic-go, yamux and the HTTP server; the shell scripts and
  manifests under \<open>tests/\<close>.
\<close>

section \<open>Properties that span components\<close>

lemma api_run_keeps:
  "controller_ok ct \<Longrightarrow> list_all api_ok cs \<Longrightarrow> \<exists>ct'. api_run cs ct = Some ct' \<and> controller_ok ct'"
proof (induction cs arbitrary: ct)
  case (Cons c cs)
  then obtain ct1 where "api_exec c ct = Some ct1" "controller_ok ct1"
    using api_exec_keeps [of ct c] by auto
  then show ?case using Cons.IH [of ct1] Cons.prems(2) by simp
qed simp

lemma controller_main_ok:
  assumes "controller_main (Inr st) None = Inr ct" and "store_wf st" and "canonical_ids st"
  shows "controller_ok ct"
  using assms
  by (auto simp: controller_main_def controller_New_def Let_def controller_ok_def registry_New_def policy_New_def hub_wf_new)

text \<open>
  The controller as a whole: started on a database that satisfies its constraints (a new one
  does), no sequence of calls of the three services panics, whatever statements fail on the way,
  and after each of them the constraints of every table hold, every service id is the one derived
  from its key, and no watcher channel is both registered and closed.
\<close>

theorem controller_invariant:
  assumes "controller_main (Inr st) None = Inr ct" and "store_wf st" and "canonical_ids st"
    and "list_all api_ok calls"
  shows "\<exists>ct'. api_run calls ct = Some ct' \<and> controller_ok ct'"
  by (rule api_run_keeps [OF controller_main_ok [OF assms(1-3)] assms(4)])

theorem controller_invariant_witness:
  "\<exists>ct ct'. controller_main (Inr empty_store) None = Inr ct \<and>
     api_run [ApiPolicyWatch (ok_env 1) id ''acme'', ApiAddPolicy (ok_env 2) ''u'' \<lparr>apr_Rule = Some demo_rule\<rparr>,
       ApiRegistry (RcDeregister (ok_env 3) (ok_env 3) id \<lparr>dar_Tenant = ''acme'', dar_AgentUri = ''a'', dar_RelayId = ''r''\<rparr>)] ct
     = Some ct' \<and> controller_ok ct'"
proof -
  obtain ct where m: "controller_main (Inr empty_store) None = Inr ct" by (simp add: controller_main_def controller_New_def Let_def)
  have "store_wf empty_store" "canonical_ids empty_store"
    by (simp_all add: store_wf_def canonical_ids_def empty_store_def)
  from controller_invariant [OF m this, of "[ApiPolicyWatch (ok_env 1) id ''acme'', ApiAddPolicy (ok_env 2) ''u'' \<lparr>apr_Rule = Some demo_rule\<rparr>,
       ApiRegistry (RcDeregister (ok_env 3) (ok_env 3) id \<lparr>dar_Tenant = ''acme'', dar_AgentUri = ''a'', dar_RelayId = ''r''\<rparr>)]"]
  show ?thesis using m by (auto simp: is_scan_def)
qed

text \<open>
  Tenant isolation: in a state the controller can be in, a call made for another tenant, or a
  call that is made for none, leaves a tenant's policy rules, its service rows and its audit
  events exactly as they were, whether the call succeeds or fails.
\<close>

theorem tenant_isolation:
  assumes "controller_ok ct" and "api_exec c ct = Some ct'" and "api_tenant c \<noteq> Some t"
  shows "tenant_view (ct_store ct') t = tenant_view (ct_store ct) t"
  by (rule api_exec_view [OF assms])

theorem tenant_isolation_witness:
  "\<exists>ct ct'. controller_main (Inr empty_store) None = Inr ct \<and>
     api_exec (ApiAddPolicy (ok_env 2) ''u'' \<lparr>apr_Rule = Some demo_rule\<rparr>) ct = Some ct' \<and>
     tenant_rules (ct_store ct') ''acme'' \<noteq> tenant_rules (ct_store ct) ''acme'' \<and>
     tenant_view (ct_store ct') ''beta'' = tenant_view (ct_store ct) ''beta''"
proof -
  let ?c = "ApiAddPolicy (ok_env 2) ''u'' \<lparr>apr_Rule = Some demo_rule\<rparr>"
  obtain ct where m: "controller_main (Inr empty_store) None = Inr ct" by (simp add: controller_main_def controller_New_def Let_def)
  have ok: "controller_ok ct"
    by (rule controller_main_ok [OF m]) (simp_all add: store_wf_def canonical_ids_def empty_store_def)
  obtain ct' where x: "api_exec ?c ct = Some ct'" using api_exec_keeps [OF ok, of ?c] by auto
  have "tenant_rules (ct_store ct') ''acme'' \<noteq> tenant_rules (ct_store ct) ''acme''"
  proof -
    have "policy_of ct = policy_New empty_store"
      using m by (auto simp: controller_main_def controller_New_def Let_def policy_of_def policy_New_def)
    then have "\<exists>srv'. AddPolicy (ok_env 2) ''u'' (policy_of ct) \<lparr>apr_Rule = Some demo_rule\<rparr> = Some (Inr ''p1'', srv') \<and>
        tenant_rules (ps_store srv') ''acme'' ''p1'' \<noteq> None"
      by (simp add: policy_eval tenant_rules_def)
    moreover have "tenant_rules (ct_store ct) ''acme'' ''p1'' = None"
      using m by (auto simp: controller_main_def controller_New_def Let_def tenant_rules_def empty_store_def)
    ultimately show ?thesis using x by (auto simp: with_policy_def)
  qed
  moreover have "tenant_view (ct_store ct') ''beta'' = tenant_view (ct_store ct) ''beta''"
    by (rule tenant_isolation [OF ok x]) (simp add: demo_rule_def)
  ultimately show ?thesis using m x by blast
qed

lemma api_run_counts:
  assumes "controller_ok ct" and "counts_audit n0 ct" and "list_all api_ok calls" and "api_run calls ct = Some ct'"
  shows "counts_audit n0 ct'"
  using assms
proof (induction calls arbitrary: ct)
  case (Cons c calls)
  then obtain ct1 where c: "api_exec c ct = Some ct1" "controller_ok ct1"
    using api_exec_keeps [of ct c] by auto
  have "counts_audit n0 ct1" by (rule counts_audit_exec [OF Cons.prems(1,2) c(1)])
  then show ?case using Cons.IH [OF c(2)] Cons.prems(3,4) c(1) by simp
qed simp

text \<open>
  The metrics endpoint tells how much was audited: after any sequence of calls of the three
  services, failed ones included, a request for \<open>/debug/metrics\<close> is answered with the JSON of a
  snapshot whose only counter is \<open>audit_events_total\<close>, and its value is the number of audit rows the
  process has written since it started (up to the wrap-around of int64).
\<close>

theorem metrics_endpoint_counts_audit:
  assumes "controller_main (Inr st) None = Inr ct" and "store_wf st" and "canonical_ids st"
    and "list_all api_ok calls" and "api_run calls ct = Some ct'"
  shows "debug_response (\<lambda>snap. Inr (encode snap)) pprof now (ct_metrics ct') ''/debug/metrics'' =
       \<lparr>hr_status = 200, hr_header = [(''Content-Type'', ''application/json'')],
        hr_body = encode (Registry_Snapshot now (ct_metrics ct'))\<rparr> \<and>
     sn_Counters (Registry_Snapshot now (ct_metrics ct')) =
       [(''audit_events_total'', i64 (int (length (st_audit (ct_store ct')) - length (st_audit st))))]"
proof -
  have "ct = controller_New st" using assms(1) by (simp add: controller_main_def)
  then have "counts_audit (length (st_audit st)) ct" using counts_audit_New by simp
  then have "counts_audit (length (st_audit st)) ct'"
    by (rule api_run_counts [OF controller_main_ok [OF assms(1-3)] _ assms(4,5)])
  moreover have "mux_answer DebugMux ''/debug/metrics'' = Handle DebugMetrics" by code_simp
  ultimately show ?thesis using counts_audit_snapshot by (simp add: debug_response_def metrics_handler_def)
qed

theorem metrics_endpoint_counts_audit_witness:
  "\<exists>ct ct'. controller_main (Inr empty_store) None = Inr ct \<and>
     api_run [ApiRecord (ok_env 1) \<lparr>rar_Event = Some demo_event\<rparr>, ApiRecord (ok_env 2) \<lparr>rar_Event = None\<rparr>] ct = Some ct' \<and>
     sn_Counters (Registry_Snapshot 3 (ct_metrics ct')) = [(''audit_events_total'', 1)]"
proof -
  let ?calls = "[ApiRecord (ok_env 1) \<lparr>rar_Event = Some demo_event\<rparr>, ApiRecord (ok_env 2) \<lparr>rar_Event = None\<rparr>]"
  obtain ct where m: "controller_main (Inr empty_store) None = Inr ct" by (simp add: controller_main_def)
  then have "\<exists>ct'. api_run ?calls ct = Some ct' \<and> length (st_audit (ct_store ct')) = 1"
    by (auto simp: controller_main_def controller_New_def Let_def Record_def Record_commit_def Record_count_def RecordAudit_def audit_of_def with_audit_def ok_env_def
        empty_store_def audit_New_def split: prod.splits option.splits)
  then obtain ct' where r: "api_run ?calls ct = Some ct'" "length (st_audit (ct_store ct')) = 1" by blast
  have wf: "store_wf empty_store" "canonical_ids empty_store" "list_all api_ok ?calls"
    by (simp_all add: store_wf_def canonical_ids_def empty_store_def)
  have "sn_Counters (Registry_Snapshot 3 (ct_metrics ct')) = [(''audit_events_total'', i64 (int (1 - length (st_audit empty_store))))]"
    using metrics_endpoint_counts_audit [OF m wf r(1), of "\<lambda>_. ''''" undefined 3] r(2) by simp
  then have "sn_Counters (Registry_Snapshot 3 (ct_metrics ct')) = [(''audit_events_total'', 1)]"
    by (simp add: empty_store_def i64_def)
  then show ?thesis using m r(1) by blast
qed

text \<open>
  C26. The metrics endpoint under load: in every state the controller can reach by interleaving calls of
  its services, a request for \<open>/debug/metrics\<close> is answered with the JSON of a snapshot whose only counter
  is \<open>audit_events_total\<close>; it is the number of audit rows written since the start less the records that
  are stored and not yet counted (up to the wrap-around of int64), and never more than what is stored.
\<close>

theorem metrics_endpoint_concurrent:
  assumes "ctl_reach any_schedule any_reg_schedule c"
  shows "debug_response (\<lambda>snap. Inr (encode snap)) pprof now (ct_metrics (cc_ct c)) ''/debug/metrics'' =
       \<lparr>hr_status = 200, hr_header = [(''Content-Type'', ''application/json'')],
        hr_body = encode (Registry_Snapshot now (ct_metrics (cc_ct c)))\<rparr> \<and>
     cc_rows0 c + cc_records c \<le> length (st_audit (ct_store (cc_ct c))) \<and>
     sn_Counters (Registry_Snapshot now (ct_metrics (cc_ct c))) =
       [(''audit_events_total'', i64 (int (length (st_audit (ct_store (cc_ct c))) - (cc_rows0 c + cc_records c))))]"
proof -
  have n: "counts_audit (cc_rows0 c + cc_records c) (cc_ct c)"
    using ctl_reach_counts [OF assms] by (simp add: ctl_counts_def)
  have "mux_answer DebugMux ''/debug/metrics'' = Handle DebugMetrics" by code_simp
  then show ?thesis using counts_audit_snapshot [OF n, of now] n
    by (simp add: debug_response_def metrics_handler_def counts_audit_def)
qed

theorem metrics_endpoint_concurrent_witness:
  "\<exists>c. ctl_run busy (ctl_init empty_store) = Some c \<and> length (st_audit (ct_store (cc_ct c))) = 2 \<and>
     sn_Counters (Registry_Snapshot 3 (ct_metrics (cc_ct c))) = [(''audit_events_total'', 1)]"
proof -
  obtain c where run: "ctl_run busy (ctl_init empty_store) = Some c"
    and c: "cc_records c = 1" "cc_rows0 c = 0" "length (st_audit (ct_store (cc_ct c))) = 2"
    using busy_state by blast
  have "sn_Counters (Registry_Snapshot 3 (ct_metrics (cc_ct c))) = [(''audit_events_total'', i64 (int (2 - (0 + 1))))]"
    using metrics_endpoint_concurrent [OF ctl_reach_any [OF ctl_reach_busy [OF run]], of "\<lambda>_. ''''" undefined 3] unfolding c by blast
  then show ?thesis using run c(3) by (simp add: i64_def)
qed

end
